(* ===== verification/Prelude.thy ===== *)
theory Prelude
  imports Main "HOL-Library.Word" "HOL-Library.Sublist"
begin

text \<open>
  Shared vocabulary of the development: the machine integers of the Rust sources, byte strings,
  results that may fail, hash maps with their unspecified iteration order, the decimal printer
  and the string functions of the Rust standard library that the sources call, and the lemmas the
  component theories share.

  Conventions. A Rust \<open>String\<close> is the list of its UTF-8 bytes, so \<open>length\<close> is \<open>str::len\<close>.
  A \<open>Result<T, E>\<close> is a sum, \<open>Inl\<close> the error. Durations and instants are natural numbers of
  nanoseconds; \<open>Instant::duration_since\<close> saturates at zero, as subtraction on \<open>nat\<close> does.
\<close>

unbundle bit_operations_syntax

named_theorems clock_simps \<open>unfoldings of the two media clocks\<close>
named_theorems turn_simps \<open>unfoldings of the TURN components\<close>
named_theorems mumble_simps \<open>unfoldings of the Mumble control connection\<close>
named_theorems session_simps \<open>unfoldings of the session manager\<close>

type_synonym u8 = "8 word"
type_synonym u16 = "16 word"
type_synonym u32 = "32 word"
type_synonym u64 = "64 word"
type_synonym bytes = "u8 list"
type_synonym instant = nat
type_synonym 'a result = "string + 'a"

abbreviation ms :: "nat \<Rightarrow> nat" where
  "ms n \<equiv> n * 1000000"

definition as_millis :: "nat \<Rightarrow> nat" where
  "as_millis d = d div 1000000"

definition is_ok :: "'e + 'a \<Rightarrow> bool" where
  "is_ok r = (case r of Inl _ \<Rightarrow> False | Inr _ \<Rightarrow> True)"

section \<open>Hash maps\<close>

text \<open>
  A \<open>HashMap\<close> is a finite partial function. Iteration visits every key once in an order the
  library does not specify; an operation that iterates takes that order as an argument, and
  \<open>iterates\<close> says that a list is a possible order for a map.
\<close>

definition iterates :: "('k \<rightharpoonup> 'v) \<Rightarrow> 'k list \<Rightarrow> bool" where
  "iterates m ks \<longleftrightarrow> distinct ks \<and> set ks = dom m"

definition hm_values :: "('k \<rightharpoonup> 'v) \<Rightarrow> 'k list \<Rightarrow> 'v list" where
  "hm_values m ks = List.map_filter m ks"

definition hm_retain :: "('k \<Rightarrow> 'v \<Rightarrow> bool) \<Rightarrow> ('k \<rightharpoonup> 'v) \<Rightarrow> ('k \<rightharpoonup> 'v)" where
  "hm_retain P m = (\<lambda>k. case m k of None \<Rightarrow> None | Some v \<Rightarrow> if P k v then Some v else None)"

section \<open>Strings\<close>

fun dec :: "nat \<Rightarrow> string" where
  "dec n = (if n < 10 then [char_of (48 + n)] else dec (n div 10) @ [char_of (48 + n mod 10)])"

declare dec.simps [simp del]

definition undec :: "string \<Rightarrow> nat" where
  "undec = foldl (\<lambda>a ch. 10 * a + (of_char ch - 48)) 0"

lemma undec_dec: "undec (dec n) = n"
proof (induction n rule: dec.induct)
  case (1 n)
  have digit: "of_char (char_of (48 + k) :: char) = 48 + k" if "k < 10" for k :: nat
    using that by simp
  show ?case
  proof (cases "n < 10")
    case True
    then show ?thesis using digit [of n] by (subst dec.simps) (simp add: undec_def)
  next
    case False
    with 1 have "undec (dec (n div 10)) = n div 10" by simp
    then have "undec (dec n) = 10 * (n div 10) + (of_char (char_of (48 + n mod 10) :: char) - 48)"
      using False by (subst dec.simps) (simp add: undec_def)
    then show ?thesis using digit [of "n mod 10"] by simp
  qed
qed

lemma dec_inj: "dec m = dec n \<longleftrightarrow> m = n"
  by (metis undec_dec)

definition starts_with :: "string \<Rightarrow> string \<Rightarrow> bool" where
  "starts_with p s \<longleftrightarrow> take (length p) s = p"

text \<open>
  \<open>str::split(',')\<close>: the maximal separator-free pieces, the empty ones included; the result is
  never empty.
\<close>

fun split_on :: "char \<Rightarrow> string \<Rightarrow> string list" where
  "split_on c [] = [[]]"
| "split_on c (x # xs) =
     (if x = c then [] # split_on c xs
      else (case split_on c xs of [] \<Rightarrow> [[x]] | p # ps \<Rightarrow> (x # p) # ps))"

text \<open>The UTF-8 encodings of the characters with the Unicode property White\_Space.\<close>

definition ws_seqs :: "nat list list" where
  "ws_seqs = map (\<lambda>n. [n]) [9, 10, 11, 12, 13, 32]
     @ [[194, 133], [194, 160], [225, 154, 128]]
     @ map (\<lambda>n. [226, 128, n]) [128, 129, 130, 131, 132, 133, 134, 135, 136, 137, 138, 168, 169, 175]
     @ [[226, 129, 159], [227, 128, 128]]"

definition ws_match :: "nat list list \<Rightarrow> string \<Rightarrow> nat option" where
  "ws_match seqs s =
     map_option length (List.find (\<lambda>q. q \<noteq> [] \<and> map of_char (take (length q) s) = q) seqs)"

fun strip_ws :: "nat \<Rightarrow> nat list list \<Rightarrow> string \<Rightarrow> string" where
  "strip_ws 0 seqs s = s"
| "strip_ws (Suc f) seqs s =
     (case ws_match seqs s of None \<Rightarrow> s | Some n \<Rightarrow> strip_ws f seqs (drop n s))"

definition trim_start :: "string \<Rightarrow> string" where
  "trim_start s = strip_ws (length s) ws_seqs s"

definition trim_end :: "string \<Rightarrow> string" where
  "trim_end s = rev (strip_ws (length s) (map rev ws_seqs) (rev s))"

definition trim :: "string \<Rightarrow> string" where
  "trim s = trim_end (trim_start s)"

definition to_ascii_lower :: "char \<Rightarrow> char" where
  "to_ascii_lower c = (let n = (of_char c :: nat) in if 65 \<le> n \<and> n \<le> 90 then char_of (n + 32) else c)"

definition is_digit :: "char \<Rightarrow> bool" where
  "is_digit c = (let n = (of_char c :: nat) in 48 \<le> n \<and> n \<le> 57)"

definition is_ascii_alphanumeric :: "char \<Rightarrow> bool" where
  "is_ascii_alphanumeric c = (let n = (of_char c :: nat)
     in 48 \<le> n \<and> n \<le> 57 \<or> 65 \<le> n \<and> n \<le> 90 \<or> 97 \<le> n \<and> n \<le> 122)"

definition digits_value :: "string \<Rightarrow> nat" where
  "digits_value s = foldl (\<lambda>a c. 10 * a + (of_char c - 48)) 0 s"

text \<open>\<open>str::parse::<i64>\<close>: an optional sign, at least one digit, a value in range.\<close>

definition parse_i64 :: "string \<Rightarrow> int option" where
  "parse_i64 s =
     (let neg = (s \<noteq> [] \<and> hd s = CHR ''-'');
          body = (if s \<noteq> [] \<and> hd s \<in> {CHR ''-'', CHR ''+''} then tl s else s);
          v = (if neg then - int (digits_value body) else int (digits_value body))
      in if body \<noteq> [] \<and> list_all is_digit body \<and> - (2 ^ 63) \<le> v \<and> v < 2 ^ 63
         then Some v else None)"

section \<open>Generic lemmas\<close>

lemma is_ok_simps [simp]: "is_ok (Inl e) = False" "is_ok (Inr x) = True"
  by (simp_all add: is_ok_def)

lemma hm_retain_iff [simp]: "hm_retain P m k = Some v \<longleftrightarrow> m k = Some v \<and> P k v"
  by (auto simp: hm_retain_def split: option.splits)

lemma hm_retain_None: "hm_retain P m k = None \<longleftrightarrow> (\<forall>v. m k = Some v \<longrightarrow> \<not> P k v)"
  by (auto simp: hm_retain_def split: option.splits)

lemma hm_retain_empty [simp]: "hm_retain P Map.empty = Map.empty"
  by (simp add: hm_retain_def)

lemma dom_hm_retain: "dom (hm_retain P m) \<subseteq> dom m"
  by (auto simp: hm_retain_def split: option.splits if_splits)

lemma finite_dom_hm_retain [simp]: "finite (dom m) \<Longrightarrow> finite (dom (hm_retain P m))"
  by (rule finite_subset [OF dom_hm_retain])

lemma hm_values_Nil [simp]: "hm_values m [] = []"
  by (simp add: hm_values_def List.map_filter_simps)

lemma hm_values_Cons [simp]:
  "hm_values m (k # ks) = (case m k of None \<Rightarrow> hm_values m ks | Some v \<Rightarrow> v # hm_values m ks)"
  by (simp add: hm_values_def List.map_filter_simps split: option.split)

lemma set_hm_values: "set (hm_values m ks) = {v. \<exists>k \<in> set ks. m k = Some v}"
  by (induction ks) (auto split: option.splits)

lemma set_hm_values_iterates: "iterates m ks \<Longrightarrow> set (hm_values m ks) = ran m"
  by (auto simp: set_hm_values iterates_def ran_def dom_def)

lemma iterates_exists: "finite (dom m) \<Longrightarrow> \<exists>ks. iterates m ks"
  unfolding iterates_def by (metis finite_distinct_list)

lemma find_None_iff_not: "List.find P xs = None \<longleftrightarrow> (\<forall>x \<in> set xs. \<not> P x)"
  by (auto simp: find_None_iff)

lemma find_SomeD: "List.find P xs = Some x \<Longrightarrow> x \<in> set xs \<and> P x"
  by (auto simp: find_Some_iff)

lemma starts_with_append [simp]: "starts_with p (p @ s)"
  by (simp add: starts_with_def)

lemma starts_with_code [simp]:
  "starts_with [] s" "\<not> starts_with (c # p) []" "starts_with (c # p) (d # s) = (c = d \<and> starts_with p s)"
  by (auto simp: starts_with_def)

lemma split_on_not_Nil [simp]: "split_on c s \<noteq> []"
  by (induction s) (auto split: list.splits)

end
