(* ===== verification/Interfaces.thy ===== *)
theory Interfaces
  imports Prelude
begin

text \<open>
  The contracts several components share. \<open>permit_pool\<close> is the counting semaphore that bounds
  WebSocket connections, Mumble sessions and TURN streams; \<open>bounded_channel\<close> is the queue between two audio tasks; \<open>invariant_system\<close> lifts an inductive
  invariant of a step relation to its reachable states and \<open>simulation\<close> transfers them to a specification;
  \<open>trace_invariant\<close> does so for runs whose output is allowed; \<open>ranked_system\<close> bounds the work a system has left; \<open>framing\<close> says that a decoder inverts an
  encoder on a concatenated byte stream; \<open>monotone_clock\<close> says that a packet clock only moves
  forward. Each is interpreted on the definitions of the component that provides it.
\<close>

section \<open>Counting permits\<close>

type_synonym semaphore = nat

definition sem_new :: "nat \<Rightarrow> semaphore" where
  "sem_new n = n"

definition available_permits :: "semaphore \<Rightarrow> nat" where
  "available_permits s = s"

definition try_acquire_owned :: "semaphore \<Rightarrow> semaphore option" where
  "try_acquire_owned s = (if s = 0 then None else Some (s - 1))"

definition drop_permit :: "semaphore \<Rightarrow> semaphore" where
  "drop_permit s = s + 1"

fun read_frames :: "('b list \<Rightarrow> ('f \<times> 'b list) option) \<Rightarrow> nat \<Rightarrow> 'b list \<Rightarrow> ('f list \<times> 'b list) option" where
  "read_frames rd 0 bs = Some ([], bs)"
| "read_frames rd (Suc n) bs =
     (case rd bs of None \<Rightarrow> None
      | Some (f, rest) \<Rightarrow> map_option (\<lambda>(fs, r). (f # fs, r)) (read_frames rd n rest))"

fun clock_run :: "('c \<Rightarrow> 'i \<Rightarrow> 'o option \<times> 'c) \<Rightarrow> 'c \<Rightarrow> 'i list \<Rightarrow> 'o list \<times> 'c" where
  "clock_run st c [] = ([], c)"
| "clock_run st c (x # xs) =
     (let (o1, c1) = st c x; (os, c2) = clock_run st c1 xs
      in ((case o1 of None \<Rightarrow> os | Some y \<Rightarrow> y # os), c2))"

inductive reachable :: "('s \<Rightarrow> bool) \<Rightarrow> ('s \<Rightarrow> 's \<Rightarrow> bool) \<Rightarrow> 's \<Rightarrow> bool"
  for init :: "'s \<Rightarrow> bool" and step :: "'s \<Rightarrow> 's \<Rightarrow> bool" where
  reachable_init: "init s \<Longrightarrow> reachable init step s"
| reachable_step: "reachable init step s \<Longrightarrow> step s t \<Longrightarrow> reachable init step t"

inductive traced :: "('s \<Rightarrow> 'l list \<Rightarrow> 's \<Rightarrow> bool) \<Rightarrow> 's \<Rightarrow> 'l list \<Rightarrow> 's \<Rightarrow> bool"
  for step :: "'s \<Rightarrow> 'l list \<Rightarrow> 's \<Rightarrow> bool" where
  traced_nil: "traced step s [] s"
| traced_snoc: "traced step s ls t \<Longrightarrow> step t ls' u \<Longrightarrow> traced step s (ls @ ls') u"

locale permit_pool =
  fixes new :: "nat \<Rightarrow> 'p"
    and avail :: "'p \<Rightarrow> nat"
    and acquire :: "'p \<Rightarrow> 'p option"
    and release :: "'p \<Rightarrow> 'p"
  assumes avail_new: "avail (new n) = n"
    and acquire_None: "acquire p = None \<longleftrightarrow> avail p = 0"
    and acquire_Some: "acquire p = Some q \<Longrightarrow> avail p = Suc (avail q)"
    and avail_release: "avail (release p) = Suc (avail p)"
begin

lemma acquire_possible: "0 < avail p \<Longrightarrow> \<exists>q. acquire p = Some q"
  using acquire_None [of p] by (cases "acquire p") auto

lemma acquire_then_release: "acquire p = Some q \<Longrightarrow> avail (release q) = avail p"
  by (simp add: avail_release acquire_Some)

lemma acquire_conserves:
  "avail p + held = n \<Longrightarrow> acquire p = Some q \<Longrightarrow> avail q + Suc held = n"
  by (auto dest: acquire_Some)

lemma release_conserves:
  "avail p + Suc held = n \<Longrightarrow> avail (release p) + held = n"
  by (simp add: avail_release)

lemma exhausted_refuses: "avail p + held = n \<Longrightarrow> held = n \<Longrightarrow> acquire p = None"
  by (simp add: acquire_None)

end

interpretation tokio_semaphore: permit_pool sem_new available_permits try_acquire_owned drop_permit
  by unfold_locales
    (auto simp: sem_new_def available_permits_def try_acquire_owned_def drop_permit_def split: if_splits)

section \<open>Bounded channels\<close>

text \<open>\<open>try_send\<close> on a bounded \<open>mpsc\<close> channel with its queue, oldest first, while the receiver is there or not.\<close>

datatype try_send_result = SendOk | SendFull | SendClosed

definition try_send :: "nat \<Rightarrow> bool \<Rightarrow> 'a \<Rightarrow> 'a list \<Rightarrow> try_send_result \<times> 'a list" where
  "try_send capacity receiving x q =
     (if \<not> receiving then (SendClosed, q) else if length q < capacity then (SendOk, q @ [x]) else (SendFull, q))"

locale bounded_channel =
  fixes capacity :: nat
    and send :: "bool \<Rightarrow> 'a \<Rightarrow> 'a list \<Rightarrow> try_send_result \<times> 'a list"
  assumes send_ok: "send receiving x q = (SendOk, q') \<Longrightarrow> q' = q @ [x] \<and> length q < capacity"
    and send_refused: "send receiving x q = (r, q') \<Longrightarrow> r \<noteq> SendOk \<Longrightarrow> q' = q"
    and send_closed: "fst (send receiving x q) = SendClosed \<longleftrightarrow> \<not> receiving"
begin

lemma send_bounded: "send receiving x q = (r, q') \<Longrightarrow> length q \<le> capacity \<Longrightarrow> length q' \<le> capacity"
  by (cases "r = SendOk") (auto dest: send_ok send_refused)

lemma send_queue: "send receiving x q = (r, q') \<Longrightarrow> q' = q @ (if r = SendOk then [x] else [])"
  by (auto dest: send_ok send_refused)

end

interpretation mpsc: bounded_channel capacity "try_send capacity" for capacity
  by unfold_locales (auto simp: try_send_def split: if_splits)

section \<open>Invariants of transition systems\<close>

locale invariant_system =
  fixes init :: "'s \<Rightarrow> bool"
    and step :: "'s \<Rightarrow> 's \<Rightarrow> bool"
    and inv :: "'s \<Rightarrow> bool"
  assumes init_inv: "init s \<Longrightarrow> inv s"
    and step_inv: "step s t \<Longrightarrow> inv s \<Longrightarrow> inv t"
begin

lemma reachable_inv: "reachable init step s \<Longrightarrow> inv s"
  by (induction rule: reachable.induct) (auto intro: init_inv step_inv)

lemma rtranclp_inv: "step\<^sup>*\<^sup>* s t \<Longrightarrow> inv s \<Longrightarrow> inv t"
  by (induction rule: rtranclp_induct) (auto intro: step_inv)

end

lemma reachable_rtranclp: "step\<^sup>*\<^sup>* s t \<Longrightarrow> reachable init step s \<Longrightarrow> reachable init step t"
  by (induction rule: rtranclp_induct) (auto intro: reachable_step)

text \<open>
  A system simulates an abstract one when, from states that satisfy its invariant, each of its steps is a step of the abstract
  system or invisible there. Every state it reaches is then reached by the specification.
\<close>

locale simulation = invariant_system init step inv
  for init :: "'s \<Rightarrow> bool" and step :: "'s \<Rightarrow> 's \<Rightarrow> bool" and inv :: "'s \<Rightarrow> bool" +
  fixes ainit :: "'a \<Rightarrow> bool"
    and astep :: "'a \<Rightarrow> 'a \<Rightarrow> bool"
    and abs :: "'s \<Rightarrow> 'a"
  assumes init_sim: "init s \<Longrightarrow> ainit (abs s)"
    and step_sim: "inv s \<Longrightarrow> step s t \<Longrightarrow> abs t = abs s \<or> astep (abs s) (abs t)"
begin

lemma reachable_abs: "reachable init step s \<Longrightarrow> reachable ainit astep (abs s)"
proof (induction rule: reachable.induct)
  case (reachable_init s)
  then show ?case by (intro reachable.reachable_init init_sim)
next
  case (reachable_step s t)
  then show ?case using step_sim [OF reachable_inv [OF reachable_step(1)] reachable_step(2)]
    by (auto intro: reachable.reachable_step)
qed

end

section \<open>The specification of a slot pool\<close>

text \<open>
  What the session manager, the WebSocket admission and the TURN accept loops promise: of \<open>n\<close> slots
  some are reserved, some in use, and never more than \<open>n\<close> are taken. A reservation is used or given back; a slot
  in use is given back; admission without a reservation takes a slot at once.
\<close>

record slot_pool =
  po_reserved :: nat
  po_used :: nat

definition pool_empty :: slot_pool where
  "pool_empty = \<lparr>po_reserved = 0, po_used = 0\<rparr>"

definition pool_taken :: "slot_pool \<Rightarrow> nat" where
  "pool_taken q = po_reserved q + po_used q"

inductive pool_step :: "nat \<Rightarrow> slot_pool \<Rightarrow> slot_pool \<Rightarrow> bool" for n :: nat where
  pool_reserve: "pool_taken q < n \<Longrightarrow> pool_step n q (q\<lparr>po_reserved := po_reserved q + 1\<rparr>)"
| pool_admit: "pool_taken q < n \<Longrightarrow> pool_step n q (q\<lparr>po_used := po_used q + 1\<rparr>)"
| pool_cancel: "0 < po_reserved q \<Longrightarrow> pool_step n q (q\<lparr>po_reserved := po_reserved q - 1\<rparr>)"
| pool_commit: "0 < po_reserved q \<Longrightarrow> pool_step n q (q\<lparr>po_reserved := po_reserved q - 1, po_used := po_used q + 1\<rparr>)"
| pool_free: "0 < po_used q \<Longrightarrow> pool_step n q (q\<lparr>po_used := po_used q - 1\<rparr>)"

interpretation slot_pool_spec: invariant_system "\<lambda>q. q = pool_empty" "pool_step n" "\<lambda>q. pool_taken q \<le> n" for n
  by unfold_locales (auto simp: pool_empty_def pool_taken_def elim!: pool_step.cases)

section \<open>Runs with a trace\<close>

text \<open>
  A step may emit labels (messages, offers, packets); the trace of a run is all of them in order. An invariant may be
  kept only by the runs whose labels are all allowed.
\<close>

locale trace_invariant =
  fixes step :: "'s \<Rightarrow> 'l list \<Rightarrow> 's \<Rightarrow> bool"
    and allowed :: "'l \<Rightarrow> bool"
    and inv :: "'s \<Rightarrow> bool"
  assumes step_inv: "step s ls t \<Longrightarrow> list_all allowed ls \<Longrightarrow> inv s \<Longrightarrow> inv t"
begin

lemma run_inv: "traced step s ls t \<Longrightarrow> list_all allowed ls \<Longrightarrow> inv s \<Longrightarrow> inv t"
  by (induction rule: traced.induct) (auto intro: step_inv)

end

lemma traced_single: "step s ls t \<Longrightarrow> traced step s ls t"
  using traced_snoc [OF traced_nil, of step s ls t] by simp

lemma traced_append: "traced step t new u \<Longrightarrow> traced step s old t \<Longrightarrow> traced step s (old @ new) u"
proof (induction rule: traced.induct)
  case (traced_snoc t ls u ls' v)
  then show ?case using traced.traced_snoc [of step s "old @ ls" u ls' v] by simp
qed simp

lemma traced_silent: "step s [] t \<Longrightarrow> traced step t [] u \<Longrightarrow> traced step s [] u"
  using traced_append [of step t "[]" u s "[]"] traced_single [of step s "[]" t] by simp

section \<open>Systems that run down\<close>

text \<open>
  Each label of a system is work or input. Work lowers the rank of the state, input raises it by no more than
  its allowance: a run has at most as many pieces of work as the rank at its start and the allowances of its inputs pay for.
\<close>

locale ranked_system =
  fixes step :: "'s \<Rightarrow> 'l list \<Rightarrow> 's \<Rightarrow> bool"
    and inv :: "'s \<Rightarrow> bool"
    and rank :: "'s \<Rightarrow> nat"
    and work :: "'l \<Rightarrow> bool"
    and allowance :: "'l \<Rightarrow> nat"
  assumes step_keeps: "step s ls t \<Longrightarrow> inv s \<Longrightarrow> inv t"
    and step_rank: "step s ls t \<Longrightarrow> inv s \<Longrightarrow> length (filter work ls) + rank t \<le> rank s + sum_list (map allowance ls)"
begin

lemma run_rank: "traced step s ls t \<Longrightarrow> inv s \<Longrightarrow> inv t \<and> length (filter work ls) + rank t \<le> rank s + sum_list (map allowance ls)"
proof (induction rule: traced.induct)
  case (traced_snoc s ls t ls' u)
  then show ?case using step_keeps [OF traced_snoc(2)] step_rank [OF traced_snoc(2)] by auto
qed simp

end

section \<open>Framed byte streams\<close>

locale framing =
  fixes wf :: "'f \<Rightarrow> bool"
    and enc :: "'f \<Rightarrow> 'b list"
    and rd :: "'b list \<Rightarrow> ('f \<times> 'b list) option"
  assumes rd_enc: "wf f \<Longrightarrow> rd (enc f @ rest) = Some (f, rest)"
begin

lemma read_frames_concat:
  "list_all wf fs \<Longrightarrow> read_frames rd (length fs) (concat (map enc fs) @ rest) = Some (fs, rest)"
  by (induction fs) (simp_all add: rd_enc)

lemma enc_inj: "wf f \<Longrightarrow> wf g \<Longrightarrow> enc f = enc g \<Longrightarrow> f = g"
  using rd_enc [of f "[]"] rd_enc [of g "[]"] by simp

end

section \<open>Clocks that only move forward\<close>

lemma clock_run_accept: "st c x = (Some y, c1) \<Longrightarrow> fst (clock_run st c (x # xs)) = y # fst (clock_run st c1 xs)"
  by (simp add: Let_def case_prod_unfold)

locale monotone_clock =
  fixes step :: "'c \<Rightarrow> 'i \<Rightarrow> 'o option \<times> 'c"
    and pos :: "'c \<Rightarrow> nat"
    and out :: "'o \<Rightarrow> nat"
    and started :: "'c \<Rightarrow> bool"
    and bound :: nat
    and limit :: nat
  assumes reject_keeps: "step c x = (None, c') \<Longrightarrow> pos c' = pos c \<and> started c' = started c"
    and accept_out: "step c x = (Some y, c') \<Longrightarrow> pos c + bound < limit \<Longrightarrow>
      out y = pos c' \<and> pos c' \<le> pos c + bound \<and> (started c \<longrightarrow> pos c < pos c') \<and> pos c \<le> pos c' \<and> started c'"
begin

lemma run_sorted:
  assumes "clock_run step c xs = (os, c')" and "pos c + length xs * bound < limit"
  shows "sorted_wrt (<) (map out os) \<and> (\<forall>y \<in> set os. pos c \<le> out y \<and> (started c \<longrightarrow> pos c < out y))
    \<and> pos c' \<le> pos c + length xs * bound"
  using assms
proof (induction xs arbitrary: c os c')
  case Nil
  then show ?case by simp
next
  case (Cons x xs)
  obtain o1 c1 where s: "step c x = (o1, c1)" by fastforce
  obtain os2 c2 where r: "clock_run step c1 xs = (os2, c2)" by fastforce
  show ?case
  proof (cases o1)
    case None
    with s have c1: "pos c1 = pos c" "started c1 = started c" by (auto dest: reject_keeps)
    with Cons.prems have "pos c1 + length xs * bound < limit" by simp
    from Cons.IH [OF r this] c1 Cons.prems s r None show ?thesis by auto
  next
    case (Some y)
    have lim: "pos c + bound < limit" using Cons.prems(2) by simp
    from accept_out [OF _ lim] s Some have a: "out y = pos c1" "pos c1 \<le> pos c + bound"
      "started c \<Longrightarrow> pos c < pos c1" "pos c \<le> pos c1" "started c1" by auto
    have "pos c1 + length xs * bound < limit" using a(2) Cons.prems(2) by simp
    from Cons.IH [OF r this] a have ih: "sorted_wrt (<) (map out os2)"
      "\<forall>y \<in> set os2. pos c1 < out y" "pos c2 \<le> pos c1 + length xs * bound" by auto
    have os: "os = y # os2" "c' = c2" using Cons.prems(1) s r Some by auto
    show ?thesis using ih a os by (auto intro: le_less_trans less_imp_le)
  qed
qed

end

end
