(* ===== verification/Net.thy ===== *)
theory Net
  imports Interfaces
begin

text \<open>
  The addresses of the Rust standard library. An IPv4 address is its 32 bits; an IPv6 socket
  address carries its flow information and scope, which its equality compares.
\<close>

type_synonym ipv4 = u32

datatype ip_addr = V4 ipv4 | V6 "128 word"

datatype socket_addr = Sock4 ipv4 u16 | Sock6 "128 word" u16 u32 u32

definition LOCALHOST :: ipv4 where
  "LOCALHOST = 0x7F000001"

definition UNSPECIFIED :: ipv4 where
  "UNSPECIFIED = 0"

definition is_unspecified :: "ipv4 \<Rightarrow> bool" where
  "is_unspecified a \<longleftrightarrow> a = UNSPECIFIED"

definition is_multicast :: "ipv4 \<Rightarrow> bool" where
  "is_multicast a \<longleftrightarrow> drop_bit 28 a = 0xE"

primrec sock_port :: "socket_addr \<Rightarrow> u16" where
  "sock_port (Sock4 a p) = p"
| "sock_port (Sock6 a p f s) = p"

primrec sock_ip :: "socket_addr \<Rightarrow> ip_addr" where
  "sock_ip (Sock4 a p) = V4 a"
| "sock_ip (Sock6 a p f s) = V6 a"

lemma sock_v4_iff [simp]: "sock_port s = p \<and> sock_ip s = V4 a \<longleftrightarrow> s = Sock4 a p"
  by (cases s) auto

lemma sock_v4_neg [simp]: "sock_port s \<noteq> p \<or> sock_ip s \<noteq> V4 a \<longleftrightarrow> s \<noteq> Sock4 a p"
  by (cases s) auto

end
