(* ===== verification/Config.thy ===== *)
theory Config
  imports Net
begin

text \<open>
  \<open>src/src/config.rs\<close>: the configuration file, its placeholders, the environment overrides and the
  validation. The file's content, the environment, the TOML parser and the deserialiser that the
  derive macros generate are parameters. \<open>env v\<close> is \<open>Some\<close> when \<open>std::env::var\<close> succeeds. An
  \<open>unwrap\<close> that panics is the error \<open>Panicked\<close>.
\<close>

record server_config =
  sc_listen_addr :: string
  sc_listen_port :: u16
  sc_max_connections :: nat
  sc_allowed_origins :: "string list"

record mumble_config =
  mc_host :: string
  mc_port :: u16
  mc_accept_invalid_certs :: bool

record webrtc_config =
  wc_stun_servers :: "string list"
  wc_udp_port :: u16
  wc_public_ip :: "ipv4 option"

definition default_media_port :: u16 where
  "default_media_port = 50000"

record turn_config =
  tc_enabled :: bool
  tc_listen_addr :: ipv4
  tc_port :: u16
  tc_public_ip :: "ipv4 option"
  tc_public_host :: string
  tc_realm :: string
  tc_relay_min_port :: u16
  tc_relay_max_port :: u16
  tc_credential_ttl_secs :: nat
  tc_tls_port :: u16
  tc_tls_cert :: "string option"
  tc_tls_key :: "string option"

record config =
  cf_server :: server_config
  cf_mumble :: mumble_config
  cf_webrtc :: webrtc_config
  cf_turn :: turn_config

definition turn_config_default :: turn_config where
  "turn_config_default = \<lparr>tc_enabled = False, tc_listen_addr = UNSPECIFIED, tc_port = 3478, tc_public_ip = None,
     tc_public_host = [], tc_realm = ''mumdota'', tc_relay_min_port = 49160, tc_relay_max_port = 49999,
     tc_credential_ttl_secs = 3600, tc_tls_port = 5349, tc_tls_cert = None, tc_tls_key = None\<rparr>"

datatype config_error =
  Read_failed
| Expand_failed string
| Parse_failed
| Deserialize_failed
| Invalid string
| Panicked

section \<open>Placeholders\<close>

text \<open>\<open>find(":-")\<close> and the two slices around it.\<close>

fun split_default :: "string \<Rightarrow> string \<times> string option" where
  "split_default (a # b # s) =
     (if a = CHR '':'' \<and> b = CHR ''-'' then ([], Some s)
      else (let (n, d) = split_default (b # s) in (a # n, d)))"
| "split_default s = (s, None)"

definition unset_error :: "string \<Rightarrow> string" where
  "unset_error name = ''environment variable '' @ [char_of (39 :: nat)] @ name @ [char_of (39 :: nat)] @ '' is not set and has no default value''"

definition unclosed_error :: string where
  "unclosed_error = ''unclosed '' @ [char_of (39 :: nat)] @ ''${'' @ [char_of (39 :: nat)] @ '' in config''"

definition placeholder_value :: "(string \<Rightarrow> string option) \<Rightarrow> string \<Rightarrow> string result" where
  "placeholder_value env inner =
     (let (var_name, default_val) = split_default inner
      in if var_name = [] then Inl ''empty variable name in config placeholder''
         else (case env var_name of
                 Some val \<Rightarrow> Inr val
               | None \<Rightarrow> (case default_val of Some def \<Rightarrow> Inr def | None \<Rightarrow> Inl (unset_error var_name))))"

function expand_env_vars :: "(string \<Rightarrow> string option) \<Rightarrow> string \<Rightarrow> string result" where
  "expand_env_vars env [] = Inr []"
| "expand_env_vars env (ch # chars) =
     (if ch = CHR ''$'' \<and> chars \<noteq> [] \<and> hd chars = CHR ''{''
      then (let inner = takeWhile (\<lambda>c. c \<noteq> CHR ''}'') (tl chars);
                after = dropWhile (\<lambda>c. c \<noteq> CHR ''}'') (tl chars)
            in if after = [] then Inl unclosed_error
               else (case placeholder_value env inner of
                       Inl e \<Rightarrow> Inl e
                     | Inr v \<Rightarrow> map_sum id (append v) (expand_env_vars env (tl after))))
      else map_sum id (Cons ch) (expand_env_vars env chars))"
  by pat_completeness auto
termination
proof (relation "measure (\<lambda>(env, s). length s)", goal_cases)
  case (2 env ch chars x xa v)
  have "length (dropWhile (\<lambda>c. c \<noteq> CHR ''}'') (tl chars)) \<le> length (tl chars)" by (rule length_dropWhile_le)
  with 2 show ?case by (auto simp: le_diff_conv)
qed auto

section \<open>Environment overrides\<close>

datatype toml =
  T_string string
| T_integer int
| T_float string
| T_boolean bool
| T_datetime string
| T_array "toml list"
| T_table "string \<Rightarrow> toml option"

type_synonym toml_table = "string \<Rightarrow> toml option"

datatype override_kind = Over_str | Over_int | Over_bool | Over_stun | Over_origins

text \<open>
  What an override inserts for a value; \<open>None\<close> when the variable is set but ignored. Of all Unicode
  characters only ASCII letters have one of the letters of \<open>true\<close> and \<open>yes\<close> as lower case.
\<close>

definition override_value :: "override_kind \<Rightarrow> string \<Rightarrow> toml option" where
  "override_value kind val = (case kind of
     Over_str \<Rightarrow> Some (T_string val)
   | Over_int \<Rightarrow> map_option T_integer (parse_i64 val)
   | Over_bool \<Rightarrow> Some (T_boolean (map to_ascii_lower val \<in> {''1'', ''true'', ''yes''}))
   | Over_stun \<Rightarrow> Some (T_array (map (\<lambda>s. T_string (trim s)) (split_on CHR '','' val)))
   | Over_origins \<Rightarrow> Some (T_array (map T_string (filter (\<lambda>s. s \<noteq> []) (map trim (split_on CHR '','' val))))))"

text \<open>\<open>table.entry(section).or_insert_with(..).as_table_mut().unwrap().insert(key, v)\<close>.\<close>

definition insert_in_section :: "string \<Rightarrow> string \<Rightarrow> toml \<Rightarrow> toml_table \<Rightarrow> config_error + toml_table" where
  "insert_in_section section key v table = (case table section of
     None \<Rightarrow> Inr (table(section \<mapsto> T_table [key \<mapsto> v]))
   | Some (T_table t) \<Rightarrow> Inr (table(section \<mapsto> T_table (t(key \<mapsto> v))))
   | Some _ \<Rightarrow> Inl Panicked)"

type_synonym override = "override_kind \<times> string \<times> string \<times> string"

definition env_overrides :: "override list" where
  "env_overrides =
    [(Over_str, ''server'', ''listen_addr'', ''MUMDOTA_SERVER_LISTEN_ADDR''),
     (Over_int, ''server'', ''listen_port'', ''MUMDOTA_SERVER_LISTEN_PORT''),
     (Over_int, ''server'', ''max_connections'', ''MUMDOTA_SERVER_MAX_CONNECTIONS''),
     (Over_str, ''mumble'', ''host'', ''MUMDOTA_MUMBLE_HOST''),
     (Over_int, ''mumble'', ''port'', ''MUMDOTA_MUMBLE_PORT''),
     (Over_bool, ''mumble'', ''accept_invalid_certs'', ''MUMDOTA_MUMBLE_ACCEPT_INVALID_CERTS''),
     (Over_stun, ''webrtc'', ''stun_servers'', ''MUMDOTA_WEBRTC_STUN_SERVERS''),
     (Over_int, ''webrtc'', ''udp_port'', ''MUMDOTA_WEBRTC_UDP_PORT''),
     (Over_str, ''webrtc'', ''public_ip'', ''MUMDOTA_WEBRTC_PUBLIC_IP''),
     (Over_bool, ''turn'', ''enabled'', ''MUMDOTA_TURN_ENABLED''),
     (Over_str, ''turn'', ''listen_addr'', ''MUMDOTA_TURN_LISTEN_ADDR''),
     (Over_str, ''turn'', ''public_ip'', ''MUMDOTA_TURN_PUBLIC_IP''),
     (Over_str, ''turn'', ''public_host'', ''MUMDOTA_TURN_PUBLIC_HOST''),
     (Over_str, ''turn'', ''realm'', ''MUMDOTA_TURN_REALM''),
     (Over_str, ''turn'', ''tls_cert'', ''MUMDOTA_TURN_TLS_CERT''),
     (Over_str, ''turn'', ''tls_key'', ''MUMDOTA_TURN_TLS_KEY''),
     (Over_int, ''turn'', ''port'', ''MUMDOTA_TURN_PORT''),
     (Over_int, ''turn'', ''tls_port'', ''MUMDOTA_TURN_TLS_PORT''),
     (Over_int, ''turn'', ''relay_min_port'', ''MUMDOTA_TURN_RELAY_MIN_PORT''),
     (Over_int, ''turn'', ''relay_max_port'', ''MUMDOTA_TURN_RELAY_MAX_PORT''),
     (Over_int, ''turn'', ''credential_ttl_secs'', ''MUMDOTA_TURN_CREDENTIAL_TTL_SECS''),
     (Over_origins, ''server'', ''allowed_origins'', ''MUMDOTA_SERVER_ALLOWED_ORIGINS'')]"

definition apply_override :: "(string \<Rightarrow> string option) \<Rightarrow> override \<Rightarrow> toml_table \<Rightarrow> config_error + toml_table" where
  "apply_override env ov table = (case ov of (kind, section, key, var) \<Rightarrow>
     (case env var of
        None \<Rightarrow> Inr table
      | Some val \<Rightarrow> (case override_value kind val of
                       None \<Rightarrow> Inr table
                     | Some v \<Rightarrow> insert_in_section section key v table)))"

fun apply_overrides :: "(string \<Rightarrow> string option) \<Rightarrow> override list \<Rightarrow> toml_table \<Rightarrow> config_error + toml_table" where
  "apply_overrides env [] table = Inr table"
| "apply_overrides env (ov # ovs) table =
     (case apply_override env ov table of Inl e \<Rightarrow> Inl e | Inr table' \<Rightarrow> apply_overrides env ovs table')"

definition apply_env_overrides :: "(string \<Rightarrow> string option) \<Rightarrow> toml_table \<Rightarrow> config_error + toml_table" where
  "apply_env_overrides env = apply_overrides env env_overrides"

section \<open>Validation and loading\<close>

definition ensure :: "bool \<Rightarrow> string \<Rightarrow> unit result \<Rightarrow> unit result" where
  "ensure b e k = (if b then k else Inl e)"

definition valid_host :: "string \<Rightarrow> bool" where
  "valid_host h \<longleftrightarrow> h \<noteq> [] \<and> list_all (\<lambda>b. is_ascii_alphanumeric b \<or> b = CHR ''.'' \<or> b = CHR ''-'') h"

definition validate_turn :: "config \<Rightarrow> unit result" where
  "validate_turn c =
    (let t = cf_turn c; w = cf_webrtc c; s = cf_server c
     in case tc_public_ip t of
       None \<Rightarrow> Inl ''TURN requires turn.public_ip''
     | Some ip \<Rightarrow>
       ensure (\<not> is_unspecified ip \<and> \<not> is_multicast ip) ''invalid TURN public IP'' (
       ensure (wc_public_ip w = Some ip) ''TURN and WebRTC public_ip must match'' (
       ensure (wc_udp_port w \<noteq> 0) ''TURN requires a fixed WebRTC udp_port'' (
       ensure (tc_port t \<noteq> 0 \<and> tc_port t \<noteq> wc_udp_port w \<and> tc_port t \<noteq> sc_listen_port s)
         ''TURN/media ports must be distinct and nonzero'' (
       ensure (tc_realm t \<noteq> []) ''TURN realm is required'' (
       ensure (valid_host (tc_public_host t)) ''TURN public_host must be an IPv4 address or hostname'' (
       ensure (300 \<le> tc_credential_ttl_secs t \<and> tc_credential_ttl_secs t \<le> 86400)
         ''TURN credential TTL must be 300..86400 seconds'' (
       ensure (tc_relay_min_port t > 0 \<and> tc_relay_min_port t \<le> tc_relay_max_port t \<and>
               \<not> (tc_relay_min_port t \<le> wc_udp_port w \<and> wc_udp_port w \<le> tc_relay_max_port t) \<and>
               \<not> (tc_relay_min_port t \<le> tc_port t \<and> tc_port t \<le> tc_relay_max_port t))
         ''invalid or overlapping TURN relay port range'' (
       ensure ((tc_tls_cert t = None) = (tc_tls_key t = None)) ''TURN TLS requires both certificate and key'' (
       if tc_tls_cert t = None then Inr ()
       else ensure (tc_tls_port t \<noteq> 0 \<and> tc_tls_port t \<noteq> tc_port t \<and> tc_tls_port t \<noteq> sc_listen_port s)
              ''TURN TLS port conflicts with another TCP listener'' (Inr ())))))))))))"

definition validate :: "config \<Rightarrow> unit result" where
  "validate c =
    ensure (sc_max_connections (cf_server c) > 0) ''max_connections must be positive''
      (if tc_enabled (cf_turn c) then validate_turn c else Inr ())"

text \<open>The phases of \<open>Config::load\<close>; the file is absent when it cannot be read as UTF-8 text.\<close>

definition load :: "(string \<Rightarrow> string option) \<Rightarrow> (string \<Rightarrow> toml_table option) \<Rightarrow> (toml_table \<Rightarrow> config option) \<Rightarrow> string option \<Rightarrow> config_error + config" where
  "load env parse deserialize file = (case file of
     None \<Rightarrow> Inl Read_failed
   | Some raw \<Rightarrow> (case expand_env_vars env raw of
       Inl e \<Rightarrow> Inl (Expand_failed e)
     | Inr expanded \<Rightarrow> (case parse expanded of
         None \<Rightarrow> Inl Parse_failed
       | Some table \<Rightarrow> (case apply_env_overrides env table of
           Inl e \<Rightarrow> Inl e
         | Inr table' \<Rightarrow> (case deserialize table' of
             None \<Rightarrow> Inl Deserialize_failed
           | Some c \<Rightarrow> (case validate c of Inl e \<Rightarrow> Inl (Invalid e) | Inr _ \<Rightarrow> Inr c))))))"

definition mumble_addr :: "config \<Rightarrow> string" where
  "mumble_addr c = mc_host (cf_mumble c) @ '':'' @ dec (unat (mc_port (cf_mumble c)))"

definition listen_addr :: "config \<Rightarrow> string" where
  "listen_addr c = sc_listen_addr (cf_server c) @ '':'' @ dec (unat (sc_listen_port (cf_server c)))"

section \<open>The placeholder grammar\<close>

text \<open>
  A configuration text as a sequence of pieces: plain characters, \<open>${NAME}\<close> and
  \<open>${NAME:-default}\<close>; what it prints to and what it stands for.
\<close>

datatype piece = Ch char | Var string | Var_or string string

primrec print_piece :: "piece \<Rightarrow> string" where
  "print_piece (Ch c) = [c]"
| "print_piece (Var n) = ''${'' @ n @ ''}''"
| "print_piece (Var_or n d) = ''${'' @ n @ '':-'' @ d @ ''}''"

definition print_pieces :: "piece list \<Rightarrow> string" where
  "print_pieces ps = concat (map print_piece ps)"

definition wf_name :: "string \<Rightarrow> bool" where
  "wf_name n \<longleftrightarrow> n \<noteq> [] \<and> CHR ''}'' \<notin> set n \<and> \<not> sublist '':-'' n"

fun wf_pieces :: "piece list \<Rightarrow> bool" where
  "wf_pieces [] = True"
| "wf_pieces (Ch a # Ch b # ps) = (\<not> (a = CHR ''$'' \<and> b = CHR ''{'') \<and> wf_pieces (Ch b # ps))"
| "wf_pieces (Ch a # ps) = wf_pieces ps"
| "wf_pieces (Var n # ps) = (wf_name n \<and> wf_pieces ps)"
| "wf_pieces (Var_or n d # ps) = (wf_name n \<and> CHR ''}'' \<notin> set d \<and> wf_pieces ps)"

fun eval_piece :: "(string \<Rightarrow> string option) \<Rightarrow> piece \<Rightarrow> string option" where
  "eval_piece env (Ch c) = Some [c]"
| "eval_piece env (Var n) = env n"
| "eval_piece env (Var_or n d) = (case env n of Some v \<Rightarrow> Some v | None \<Rightarrow> Some d)"

fun eval_pieces :: "(string \<Rightarrow> string option) \<Rightarrow> piece list \<Rightarrow> string option" where
  "eval_pieces env [] = Some []"
| "eval_pieces env (p # ps) =
     (case eval_piece env p of None \<Rightarrow> None | Some v \<Rightarrow> map_option (append v) (eval_pieces env ps))"

lemma print_pieces_simps [simp]:
  "print_pieces [] = []" "print_pieces (p # ps) = print_piece p @ print_pieces ps"
  by (simp_all add: print_pieces_def)

lemma sublist_sep_Cons:
  "sublist '':-'' (a # b # s) \<longleftrightarrow> a = CHR '':'' \<and> b = CHR ''-'' \<or> sublist '':-'' (b # s)"
  by (auto simp: sublist_Cons_right)

lemma sublist_sep_short [simp]: "\<not> sublist '':-'' []" "\<not> sublist '':-'' [a]"
  by (auto dest: sublist_length_le)

lemma split_default_name: "\<not> sublist '':-'' n \<Longrightarrow> split_default n = (n, None)"
  by (induction n rule: split_default.induct) (auto simp: sublist_sep_Cons split: if_splits)

lemma split_default_sep: "\<not> sublist '':-'' n \<Longrightarrow> split_default (n @ '':-'' @ d) = (n, Some d)"
  by (induction n rule: split_default.induct) (auto simp: sublist_sep_Cons)

lemma split_default_inv:
  "split_default s = (n, d) \<Longrightarrow> \<not> sublist '':-'' n \<and> s = (case d of None \<Rightarrow> n | Some x \<Rightarrow> n @ '':-'' @ x)"
proof (induction s arbitrary: n rule: split_default.induct)
  case (1 a b s)
  show ?case
  proof (cases "a = CHR '':'' \<and> b = CHR ''-''")
    case False
    then obtain m where m: "split_default (b # s) = (m, d)" "n = a # m" using 1(2) by (auto split: prod.splits)
    then have ih: "\<not> sublist '':-'' m" "b # s = (case d of None \<Rightarrow> m | Some x \<Rightarrow> m @ '':-'' @ x)"
      using 1(1) False by blast+
    then show ?thesis using m False by (cases m) (auto simp: sublist_sep_Cons split: option.splits)
  qed (use 1 in auto)
qed auto

lemma takeWhile_close: "CHR ''}'' \<notin> set n \<Longrightarrow>
    takeWhile (\<lambda>c. c \<noteq> CHR ''}'') (n @ CHR ''}'' # s) = n \<and> dropWhile (\<lambda>c. c \<noteq> CHR ''}'') (n @ CHR ''}'' # s) = CHR ''}'' # s"
  by (induction n) auto

lemma expand_placeholder:
  assumes "CHR ''}'' \<notin> set inner"
  shows "expand_env_vars env (''${'' @ inner @ ''}'' @ s) = (case placeholder_value env inner of
     Inl e \<Rightarrow> Inl e | Inr v \<Rightarrow> map_sum id (append v) (expand_env_vars env s))"
  using takeWhile_close [OF assms, of s] by (simp split: sum.split)

lemma expand_char: "\<not> (a = CHR ''$'' \<and> s \<noteq> [] \<and> hd s = CHR ''{'') \<Longrightarrow>
    expand_env_vars env (a # s) = map_sum id (Cons a) (expand_env_vars env s)"
  by auto

lemma map_sum_Inr_iff [simp]: "map_sum id f r = Inr v \<longleftrightarrow> (\<exists>x. r = Inr x \<and> v = f x)"
  by (cases r) auto

lemma placeholder_value_piece:
  "wf_name n \<Longrightarrow> placeholder_value env n = Inr v \<longleftrightarrow> eval_piece env (Var n) = Some v"
  "wf_name n \<Longrightarrow> placeholder_value env (n @ '':-'' @ d) = Inr v \<longleftrightarrow> eval_piece env (Var_or n d) = Some v"
  using split_default_sep [of n d]
  by (auto simp: placeholder_value_def wf_name_def split_default_name split: option.splits)

lemma print_hd: "ps \<noteq> [] \<Longrightarrow> hd (print_pieces ps) = (case hd ps of Ch c \<Rightarrow> c | _ \<Rightarrow> CHR ''$'')"
  by (cases ps) (auto split: piece.splits)

lemma expand_print: "wf_pieces ps \<Longrightarrow> expand_env_vars env (print_pieces ps) = Inr v \<longleftrightarrow> eval_pieces env ps = Some v"
proof (induction ps arbitrary: v)
  case (Cons p ps)
  show ?case
  proof (cases p)
    case (Ch a)
    have wf: "wf_pieces ps" using Cons.prems Ch by (cases ps; cases "hd ps") auto
    have "\<not> (a = CHR ''$'' \<and> print_pieces ps \<noteq> [] \<and> hd (print_pieces ps) = CHR ''{'')"
      using Cons.prems Ch print_hd [of ps] by (cases ps; cases "hd ps") auto
    from expand_char [OF this] Cons.IH [OF wf] Ch show ?thesis by auto
  next
    case (Var n)
    with Cons have "wf_name n" "wf_pieces ps" by auto
    with expand_placeholder [of n env "print_pieces ps"] placeholder_value_piece(1) [of n env] Cons.IH Var
    show ?thesis by (auto simp: wf_name_def simp del: expand_env_vars.simps split: sum.splits option.splits)
  next
    case (Var_or n d)
    with Cons have wf: "wf_name n" "wf_pieces ps" "CHR ''}'' \<notin> set d" by auto
    with expand_placeholder [of "n @ '':-'' @ d" env "print_pieces ps"] placeholder_value_piece(2) [of n env d] Cons.IH Var_or
    show ?thesis by (auto simp: wf_name_def simp del: expand_env_vars.simps split: sum.splits option.splits)
  qed
qed simp


lemma wf_pieces_Ch: "wf_pieces ps \<Longrightarrow> \<not> (a = CHR ''$'' \<and> ps \<noteq> [] \<and> hd ps = Ch (CHR ''{'')) \<Longrightarrow> wf_pieces (Ch a # ps)"
  by (cases ps; cases "hd ps") auto

lemma placeholder_value_Inr:
  assumes "placeholder_value env inner = Inr v" and "CHR ''}'' \<notin> set inner"
  shows "\<exists>p. print_piece p = ''${'' @ inner @ ''}'' \<and> (\<forall>ps. wf_pieces ps \<longrightarrow> wf_pieces (p # ps))"
proof -
  obtain n d where sd: "split_default inner = (n, d)" by fastforce
  with assms(1) have "n \<noteq> []" by (auto simp: placeholder_value_def)
  moreover have inner: "\<not> sublist '':-'' n" "inner = (case d of None \<Rightarrow> n | Some x \<Rightarrow> n @ '':-'' @ x)"
    using split_default_inv [OF sd] by auto
  ultimately have "wf_name n" using assms(2) by (auto simp: wf_name_def split: option.splits)
  then show ?thesis
    using inner assms(2) by (cases d) (auto intro: exI [of _ "Var n"] exI [of _ "Var_or n (the d)"])
qed

lemma expand_Inr_template:
  "expand_env_vars env s = Inr v \<Longrightarrow> \<exists>ps. wf_pieces ps \<and> print_pieces ps = s"
proof (induction env s arbitrary: v rule: expand_env_vars.induct)
  case (1 env)
  show ?case by (rule exI [of _ "[]"]) simp
next
  case (2 env ch chars)
  show ?case
  proof (cases "ch = CHR ''$'' \<and> chars \<noteq> [] \<and> hd chars = CHR ''{''")
    case True
    define inner where "inner = takeWhile (\<lambda>c. c \<noteq> CHR ''}'') (tl chars)"
    define after where "after = dropWhile (\<lambda>c. c \<noteq> CHR ''}'') (tl chars)"
    from 2(3) True obtain x w where x: "after \<noteq> []" "placeholder_value env inner = Inr x" "expand_env_vars env (tl after) = Inr w"
      by (auto simp: inner_def after_def Let_def split: if_splits sum.splits)
    from 2(1) [OF True inner_def after_def x] obtain ps where ps: "wf_pieces ps" "print_pieces ps = tl after" by blast
    have "hd after = CHR ''}''" using hd_dropWhile [of "\<lambda>c. c \<noteq> CHR ''}''" "tl chars"] x(1) by (simp add: after_def)
    then have "tl chars = inner @ ''}'' @ tl after" using x(1) by (metis after_def append_Cons append_Nil inner_def list.collapse takeWhile_dropWhile_id)
    then have src: "ch # chars = ''${'' @ inner @ ''}'' @ tl after" using True by (cases chars) auto
    have "CHR ''}'' \<notin> set inner" by (auto simp: inner_def dest: set_takeWhileD)
    from placeholder_value_Inr [OF x(2) this] obtain p where "print_piece p = ''${'' @ inner @ ''}''"
      "\<forall>ps. wf_pieces ps \<longrightarrow> wf_pieces (p # ps)" by blast
    with ps src show ?thesis by (intro exI [of _ "p # ps"]) simp
  next
    case False
    with 2(3) obtain w where "expand_env_vars env chars = Inr w" by (auto simp: expand_char)
    from 2(2) [OF False this] obtain ps where ps: "wf_pieces ps" "print_pieces ps = chars" by blast
    have "\<not> (ch = CHR ''$'' \<and> ps \<noteq> [] \<and> hd ps = Ch (CHR ''{''))"
      using False ps(2) by (cases ps) auto
    with ps wf_pieces_Ch [OF ps(1), of ch] show ?thesis by (intro exI [of _ "Ch ch # ps"]) simp
  qed
qed

section \<open>Overrides, generically\<close>

definition lookup2 :: "toml_table \<Rightarrow> string \<Rightarrow> string \<Rightarrow> toml option" where
  "lookup2 table section key = (case table section of Some (T_table t) \<Rightarrow> t key | _ \<Rightarrow> None)"

definition override_effect :: "(string \<Rightarrow> string option) \<Rightarrow> override \<Rightarrow> toml option" where
  "override_effect env ov = (case ov of (kind, section, key, var) \<Rightarrow> Option.bind (env var) (override_value kind))"

definition override_place :: "override \<Rightarrow> string \<times> string" where
  "override_place ov = (case ov of (kind, section, key, var) \<Rightarrow> (section, key))"

definition section_is_table :: "toml_table \<Rightarrow> string \<Rightarrow> bool" where
  "section_is_table table section = (case table section of None \<Rightarrow> True | Some (T_table t) \<Rightarrow> True | _ \<Rightarrow> False)"

lemma apply_override_effect:
  "apply_override env ov table = (case override_effect env ov of None \<Rightarrow> Inr table
     | Some v \<Rightarrow> insert_in_section (fst (override_place ov)) (snd (override_place ov)) v table)"
  by (cases ov) (auto simp: apply_override_def override_effect_def override_place_def split: option.splits)

lemma section_cases:
  obtains (Absent) "table s = None" | (Table) t where "table s = Some (T_table t)"
  | (Other) "\<not> section_is_table table s" "\<And>k v. insert_in_section s k v table = Inl Panicked"
  unfolding section_is_table_def insert_in_section_def
  by (cases "table s"; cases "the (table s)") auto

lemma insert_in_section_Inl [simp]:
  "insert_in_section s k v table = Inl e \<longleftrightarrow> e = Panicked \<and> \<not> section_is_table table s"
  by (cases rule: section_cases [of table s]) (auto simp: insert_in_section_def section_is_table_def)

lemma insert_in_section_Inr:
  assumes "insert_in_section s k v table = Inr table'"
  shows "lookup2 table' s' k' = (if s' = s \<and> k' = k then Some v else lookup2 table s' k')"
    and "section_is_table table' s' = section_is_table table s'" and "section_is_table table s"
proof -
  have "lookup2 table' s' k' = (if s' = s \<and> k' = k then Some v else lookup2 table s' k') \<and>
      section_is_table table' s' = section_is_table table s' \<and> section_is_table table s"
  proof (cases rule: section_cases [of table s])
    case Absent
    with assms have "table' = table(s \<mapsto> T_table [k \<mapsto> v])" by (simp add: insert_in_section_def)
    with Absent show ?thesis by (simp add: lookup2_def section_is_table_def)
  next
    case (Table t)
    with assms have "table' = table(s \<mapsto> T_table (t(k \<mapsto> v)))" by (simp add: insert_in_section_def)
    with Table show ?thesis by (simp add: lookup2_def section_is_table_def)
  next
    case Other
    with assms show ?thesis by simp
  qed
  then show "lookup2 table' s' k' = (if s' = s \<and> k' = k then Some v else lookup2 table s' k')"
    and "section_is_table table' s' = section_is_table table s'" and "section_is_table table s" by blast+
qed

lemma apply_overrides_lookup:
  "apply_overrides env ovs table = Inr table' \<Longrightarrow> distinct (map override_place ovs) \<Longrightarrow>
     lookup2 table' s k = (case List.find (\<lambda>ov. override_place ov = (s, k)) ovs of
        None \<Rightarrow> lookup2 table s k
      | Some ov \<Rightarrow> (case override_effect env ov of None \<Rightarrow> lookup2 table s k | Some v \<Rightarrow> Some v))"
proof (induction ovs arbitrary: table)
  case (Cons ov ovs)
  from Cons.prems obtain t where t: "apply_override env ov table = Inr t" "apply_overrides env ovs t = Inr table'"
    by (auto split: sum.splits)
  have ih: "lookup2 table' s k = (case List.find (\<lambda>ov. override_place ov = (s, k)) ovs of
        None \<Rightarrow> lookup2 t s k
      | Some ov \<Rightarrow> (case override_effect env ov of None \<Rightarrow> lookup2 t s k | Some v \<Rightarrow> Some v))"
    using Cons.IH [OF t(2)] Cons.prems(2) by simp
  have tk: "lookup2 t s k = (if override_place ov = (s, k) \<and> override_effect env ov \<noteq> None
      then override_effect env ov else lookup2 table s k)"
    using t(1) by (cases "override_place ov") (auto simp: apply_override_effect insert_in_section_Inr(1) split: option.splits)
  show ?case
  proof (cases "override_place ov = (s, k)")
    case True
    then have "List.find (\<lambda>ov. override_place ov = (s, k)) ovs = None"
      using Cons.prems(2) by (auto simp: find_None_iff image_iff)
    with ih tk True show ?thesis by (auto split: option.splits)
  qed (use ih tk in \<open>auto split: option.splits\<close>)
qed simp

lemma apply_overrides_total:
  "(\<exists>table'. apply_overrides env ovs table = Inr table') \<longleftrightarrow>
     list_all (\<lambda>ov. override_effect env ov \<noteq> None \<longrightarrow> section_is_table table (fst (override_place ov))) ovs"
proof (induction ovs arbitrary: table)
  case (Cons ov ovs)
  show ?case
  proof (cases "apply_override env ov table")
    case (Inl e)
    then show ?thesis by (auto simp: apply_override_effect split: option.splits)
  next
    case (Inr t)
    then have "section_is_table t x = section_is_table table x" for x
      by (auto simp: apply_override_effect insert_in_section_Inr(2) split: option.splits)
    moreover from Inr have "override_effect env ov \<noteq> None \<longrightarrow> section_is_table table (fst (override_place ov))"
      by (auto simp: apply_override_effect insert_in_section_Inr(3) split: option.splits)
    ultimately show ?thesis using Inr Cons.IH [of t] by simp
  qed
qed simp

lemma apply_overrides_error: "apply_overrides env ovs table = Inl e \<Longrightarrow> e = Panicked"
  by (induction ovs arbitrary: table)
    (auto simp: apply_override_effect split: option.splits sum.splits)

lemma env_overrides_distinct: "distinct (map override_place env_overrides)"
  by (simp add: env_overrides_def override_place_def)

section \<open>What a valid configuration promises\<close>

definition relay_ports :: "turn_config \<Rightarrow> u16 set" where
  "relay_ports t = {p. tc_relay_min_port t \<le> p \<and> p \<le> tc_relay_max_port t}"

definition turn_ok :: "config \<Rightarrow> bool" where
  "turn_ok c \<longleftrightarrow>
     (\<exists>ip. tc_public_ip (cf_turn c) = Some ip \<and> wc_public_ip (cf_webrtc c) = Some ip \<and>
        ip \<noteq> UNSPECIFIED \<and> \<not> is_multicast ip) \<and>
     relay_ports (cf_turn c) \<noteq> {} \<and>
     relay_ports (cf_turn c) \<inter> {0, wc_udp_port (cf_webrtc c), tc_port (cf_turn c)} = {} \<and>
     tc_port (cf_turn c) \<notin> {0, wc_udp_port (cf_webrtc c), sc_listen_port (cf_server c)} \<and>
     wc_udp_port (cf_webrtc c) \<noteq> 0 \<and>
     tc_realm (cf_turn c) \<noteq> [] \<and> valid_host (tc_public_host (cf_turn c)) \<and>
     tc_credential_ttl_secs (cf_turn c) \<in> {300..86400} \<and>
     (tc_tls_cert (cf_turn c) = None \<and> tc_tls_key (cf_turn c) = None \<or>
      tc_tls_cert (cf_turn c) \<noteq> None \<and> tc_tls_key (cf_turn c) \<noteq> None \<and>
      tc_tls_port (cf_turn c) \<notin> {0, tc_port (cf_turn c), sc_listen_port (cf_server c)})"

definition config_ok :: "config \<Rightarrow> bool" where
  "config_ok c \<longleftrightarrow> 0 < sc_max_connections (cf_server c) \<and> (tc_enabled (cf_turn c) \<longrightarrow> turn_ok c)"

lemma ensure_Inr [simp]: "ensure b e k = Inr u \<longleftrightarrow> b \<and> k = Inr u"
  by (simp add: ensure_def)

lemma relay_ports_disjoint:
  "relay_ports t \<noteq> {} \<and> relay_ports t \<inter> {0, p, q} = {} \<longleftrightarrow>
     tc_relay_min_port t > 0 \<and> tc_relay_min_port t \<le> tc_relay_max_port t \<and> p \<notin> relay_ports t \<and> q \<notin> relay_ports t"
proof -
  have "relay_ports t \<noteq> {} \<longleftrightarrow> tc_relay_min_port t \<le> tc_relay_max_port t"
    by (auto simp: relay_ports_def intro: order_trans)
  moreover have "0 \<in> relay_ports t \<longleftrightarrow> tc_relay_min_port t = 0"
    by (auto simp: relay_ports_def)
  ultimately show ?thesis by (auto simp: word_gt_0)
qed

lemma validate_turn_iff: "validate_turn c = Inr () \<longleftrightarrow> turn_ok c"
  using relay_ports_disjoint [of "cf_turn c" "wc_udp_port (cf_webrtc c)" "tc_port (cf_turn c)"]
  unfolding validate_turn_def turn_ok_def Let_def
  by (cases "tc_public_ip (cf_turn c)"; cases "tc_tls_cert (cf_turn c)"; cases "tc_tls_key (cf_turn c)")
    (auto simp: relay_ports_def is_unspecified_def)

lemma validate_config_ok: "validate c = Inr u \<longleftrightarrow> config_ok c"
  by (auto simp: validate_def config_ok_def validate_turn_iff)

lemma load_validated:
  "(case validate c of Inl e \<Rightarrow> Inl (Invalid e) | Inr u \<Rightarrow> Inr c) = Inr d \<longleftrightarrow> c = d \<and> config_ok d"
  by (cases "validate c") (use validate_config_ok [of c "()"] in auto)

section \<open>Properties of the configuration\<close>

text \<open>
  C36. Placeholder expansion follows the documented grammar exactly: it succeeds with a result if and only if the
  text is a sequence of plain characters, \<open>${NAME}\<close> and \<open>${NAME:-default}\<close> whose names are
  non-empty, and the result is the concatenation of their values, the default standing in for an
  unset variable. A variable's value is not expanded again.
\<close>

theorem expand_env_vars_grammar:
  "expand_env_vars env s = Inr v \<longleftrightarrow>
     (\<exists>ps. wf_pieces ps \<and> print_pieces ps = s \<and> eval_pieces env ps = Some v)"
  using expand_Inr_template [of env s v] expand_print [of _ env v] by blast



text \<open>
  Loading returns a configuration only after every phase succeeded, and then it is valid; an
  error is that of the first phase that failed.
\<close>

lemma load_phases:
  "load env parse de file = Inr c \<longleftrightarrow>
     (\<exists>raw text table table'. file = Some raw \<and> expand_env_vars env raw = Inr text \<and> parse text = Some table \<and>
        apply_env_overrides env table = Inr table' \<and> de table' = Some c \<and> config_ok c)"
  unfolding load_def
  by (cases "file"; cases "expand_env_vars env (the file)"; cases "parse (projr (expand_env_vars env (the file)))")
    (auto simp: load_validated split: option.splits sum.split)

end
