(* ===== verification/Turn_Credentials.thy ===== *)
theory Turn_Credentials
  imports Interfaces
begin

text \<open>
  \<open>src/src/turn/credentials.rs\<close>: the short-lived TURN credentials of each WebSocket session.
  Times are seconds since the epoch. \<open>generate_auth_key\<close> of the TURN library and the random
  UUIDs are parameters; so is the order in which the hash map of entries is iterated. The
  \<open>RwLock\<close> makes each operation a single step.
\<close>

record ice_server =
  is_urls :: string
  is_username :: "string option"
  is_credential :: "string option"

record ice_config =
  ic_ice_servers :: "ice_server list"
  ic_expires_at :: "nat option"

record credential =
  cr_session :: string
  cr_username :: string
  cr_password :: string
  cr_key :: bytes
  cr_expires_at :: nat

record credentials =
  cs_realm :: string
  cs_ttl :: nat
  cs_entries :: "string \<rightharpoonup> credential"

type_synonym auth_key_fn = "string \<Rightarrow> string \<Rightarrow> string \<Rightarrow> bytes"

text \<open>The three UUIDs drawn for a new credential: the hyphenated one and two simple ones.\<close>

record uuid_draw =
  ud_user :: string
  ud_pass1 :: string
  ud_pass2 :: string

definition credentials_new :: "string \<Rightarrow> nat \<Rightarrow> credentials" where
  "credentials_new realm ttl = \<lparr>cs_realm = realm, cs_ttl = ttl, cs_entries = Map.empty\<rparr>"

definition purge_expired :: "nat \<Rightarrow> (string \<rightharpoonup> credential) \<Rightarrow> (string \<rightharpoonup> credential)" where
  "purge_expired now entries = hm_retain (\<lambda>_ c. cr_expires_at c > now) entries"

definition new_credential :: "auth_key_fn \<Rightarrow> uuid_draw \<Rightarrow> credentials \<Rightarrow> string \<Rightarrow> nat \<Rightarrow> credential" where
  "new_credential gen d cs session now =
     (let username = dec (now + cs_ttl cs) @ '':'' @ ud_user d;
          password = ud_pass1 d @ ud_pass2 d
      in \<lparr>cr_session = session, cr_username = username, cr_password = password,
          cr_key = gen username (cs_realm cs) password, cr_expires_at = now + cs_ttl cs\<rparr>)"

definition ice_server_for :: "credential \<Rightarrow> string \<Rightarrow> ice_server" where
  "ice_server_for c url =
     \<lparr>is_urls = url,
      is_username = (if starts_with ''turn'' url then Some (cr_username c) else None),
      is_credential = (if starts_with ''turn'' url then Some (cr_password c) else None)\<rparr>"

text \<open>The credential \<open>issue_at\<close> hands out, and the entries it leaves behind.\<close>

definition select_credential ::
  "auth_key_fn \<Rightarrow> uuid_draw \<Rightarrow> string list \<Rightarrow> string \<Rightarrow> nat \<Rightarrow> credentials \<Rightarrow> credential \<times> credentials" where
  "select_credential gen d order session now cs =
     (let entries = purge_expired now (cs_entries cs)
      in case List.find (\<lambda>c. cr_session c = session \<and> cr_expires_at c > now + 90) (hm_values entries order) of
           Some c \<Rightarrow> (c, cs\<lparr>cs_entries := entries\<rparr>)
         | None \<Rightarrow>
             (let c = new_credential gen d cs session now
              in (c, cs\<lparr>cs_entries := entries(cr_username c \<mapsto> c)\<rparr>)))"

definition issue_at ::
  "auth_key_fn \<Rightarrow> uuid_draw \<Rightarrow> string list \<Rightarrow> string \<Rightarrow> string list \<Rightarrow> nat \<Rightarrow> credentials \<Rightarrow> ice_config \<times> credentials" where
  "issue_at gen d order session urls now cs =
     (let (c, cs') = select_credential gen d order session now cs
      in (\<lparr>ic_ice_servers = map (ice_server_for c) urls, ic_expires_at = Some (cr_expires_at c)\<rparr>, cs'))"

definition revoke :: "string list \<Rightarrow> string \<Rightarrow> credentials \<Rightarrow> string list \<times> credentials" where
  "revoke order session cs =
     (map cr_username (filter (\<lambda>c. cr_session c = session) (hm_values (cs_entries cs) order)),
      cs\<lparr>cs_entries := hm_retain (\<lambda>_ c. cr_session c \<noteq> session) (cs_entries cs)\<rparr>)"

definition authenticate_at :: "string \<Rightarrow> string \<Rightarrow> nat \<Rightarrow> credentials \<Rightarrow> bytes result" where
  "authenticate_at username realm now cs =
     (if realm \<noteq> cs_realm cs then Inl ''invalid realm''
      else (case cs_entries cs username of
              Some c \<Rightarrow> if cr_expires_at c > now then Inr (cr_key c)
                        else Inl ''expired or unknown session credential''
            | None \<Rightarrow> Inl ''expired or unknown session credential''))"

section \<open>The store as a transition system\<close>

text \<open>
  One step is an issue with a fresh user name (the UUID has not been drawn before among the live
  entries) or a revocation. Time is not assumed monotone.
\<close>

inductive cred_step :: "auth_key_fn \<Rightarrow> credentials \<Rightarrow> credentials \<Rightarrow> bool" for gen :: auth_key_fn where
  cred_issue: "iterates (purge_expired now (cs_entries cs)) order \<Longrightarrow>
     cs_entries cs (cr_username (new_credential gen d cs session now)) = None \<Longrightarrow>
     cred_step gen cs (snd (issue_at gen d order session urls now cs))"
| cred_revoke: "iterates (cs_entries cs) order \<Longrightarrow> cred_step gen cs (snd (revoke order session cs))"

definition cred_init :: "string \<Rightarrow> nat \<Rightarrow> credentials \<Rightarrow> bool" where
  "cred_init realm ttl cs \<longleftrightarrow> cs = credentials_new realm ttl"

definition session_users :: "credentials \<Rightarrow> string \<Rightarrow> string set" where
  "session_users cs session = {u. \<exists>c. cs_entries cs u = Some c \<and> cr_session c = session}"

definition cred_wf :: "auth_key_fn \<Rightarrow> credentials \<Rightarrow> bool" where
  "cred_wf gen cs \<longleftrightarrow> finite (dom (cs_entries cs)) \<and>
     (\<forall>u c. cs_entries cs u = Some c \<longrightarrow> cr_username c = u \<and> cr_key c = gen u (cs_realm cs) (cr_password c))"

definition cred_spaced :: "credentials \<Rightarrow> bool" where
  "cred_spaced cs \<longleftrightarrow>
     (\<forall>u v c d. cs_entries cs u = Some c \<longrightarrow> cs_entries cs v = Some d \<longrightarrow> u \<noteq> v \<longrightarrow> cr_session c = cr_session d \<longrightarrow>
        cr_expires_at c + cs_ttl cs \<le> cr_expires_at d + 90 \<or> cr_expires_at d + cs_ttl cs \<le> cr_expires_at c + 90)"

definition cred_inv :: "auth_key_fn \<Rightarrow> string \<Rightarrow> nat \<Rightarrow> credentials \<Rightarrow> bool" where
  "cred_inv gen realm ttl cs \<longleftrightarrow>
     cs_realm cs = realm \<and> cs_ttl cs = ttl \<and> cred_wf gen cs \<and> cred_spaced cs \<and>
     (\<forall>session. card (session_users cs session) \<le> 2)"

lemmas [turn_simps] = purge_expired_def new_credential_def credentials_new_def iterates_def Let_def

lemma purge_iff [simp]: "purge_expired now m u = Some c \<longleftrightarrow> m u = Some c \<and> now < cr_expires_at c"
  by (simp add: purge_expired_def)

lemma purge_None: "m u = None \<Longrightarrow> purge_expired now m u = None"
  by (simp add: purge_expired_def hm_retain_None)

lemma new_credential_fields [simp]:
  "cr_session (new_credential gen d cs s now) = s"
  "cr_expires_at (new_credential gen d cs s now) = now + cs_ttl cs"
  "cr_key (new_credential gen d cs s now) =
     gen (cr_username (new_credential gen d cs s now)) (cs_realm cs) (cr_password (new_credential gen d cs s now))"
  by (simp_all add: new_credential_def Let_def)

lemma select_realm_ttl [simp]:
  "cs_realm (snd (select_credential gen d order s now cs)) = cs_realm cs"
  "cs_ttl (snd (select_credential gen d order s now cs)) = cs_ttl cs"
  by (simp_all add: select_credential_def Let_def split: option.splits)

lemma select_cases:
  assumes "iterates (purge_expired now (cs_entries cs)) order"
  obtains (Reuse) u c where "select_credential gen d order s now cs = (c, cs\<lparr>cs_entries := purge_expired now (cs_entries cs)\<rparr>)"
      and "cs_entries cs u = Some c" and "cr_session c = s" and "now + 90 < cr_expires_at c"
  | (New) "select_credential gen d order s now cs = (new_credential gen d cs s now,
        cs\<lparr>cs_entries := (purge_expired now (cs_entries cs))(cr_username (new_credential gen d cs s now) \<mapsto> new_credential gen d cs s now)\<rparr>)"
      and "\<And>u c. cs_entries cs u = Some c \<Longrightarrow> cr_session c = s \<Longrightarrow> cr_expires_at c \<le> now + 90"
proof (cases "List.find (\<lambda>c. cr_session c = s \<and> now + 90 < cr_expires_at c) (hm_values (purge_expired now (cs_entries cs)) order)")
  case None
  then have no: "\<forall>c \<in> ran (purge_expired now (cs_entries cs)). \<not> (cr_session c = s \<and> now + 90 < cr_expires_at c)"
    by (simp add: find_None_iff_not set_hm_values_iterates [OF assms])
  have "cr_expires_at c \<le> now + 90" if "cs_entries cs u = Some c" "cr_session c = s" for u c
  proof (rule ccontr)
    assume "\<not> cr_expires_at c \<le> now + 90"
    with that have "c \<in> ran (purge_expired now (cs_entries cs))" by (intro ranI [of _ u]) simp
    with no that \<open>\<not> cr_expires_at c \<le> now + 90\<close> show False by auto
  qed
  with None New show thesis by (simp add: select_credential_def Let_def)
next
  case (Some c)
  from find_SomeD [OF Some] have "c \<in> ran (purge_expired now (cs_entries cs))" "cr_session c = s" "now + 90 < cr_expires_at c"
    by (simp_all add: set_hm_values_iterates [OF assms])
  with Some Reuse show thesis by (auto simp: ran_def select_credential_def Let_def)
qed


lemma issue_snd: "snd (issue_at gen d order s urls now cs) = snd (select_credential gen d order s now cs)"
  by (simp add: issue_at_def case_prod_unfold Let_def)

section \<open>Well-formedness\<close>

text \<open>Every credential is filed under its own user name, whatever key derivation is used.\<close>

definition keyed :: "credentials \<Rightarrow> bool" where
  "keyed cs \<longleftrightarrow> (\<forall>u c. cs_entries cs u = Some c \<longrightarrow> cr_username c = u)"

lemma cred_wf_keyed: "cred_wf gen cs \<Longrightarrow> keyed cs"
  by (simp add: cred_wf_def keyed_def)

lemma issue_keyed: "keyed cs \<Longrightarrow> keyed (snd (issue_at gen d order s urls now cs))"
  by (auto simp: issue_snd keyed_def select_credential_def Let_def split: option.split)

lemma revoke_keyed: "keyed cs \<Longrightarrow> keyed (snd (revoke order s cs))"
  by (simp add: keyed_def revoke_def)

lemma purge_wf: "cred_wf gen cs \<Longrightarrow> cred_wf gen (cs\<lparr>cs_entries := purge_expired now (cs_entries cs)\<rparr>)"
  by (simp add: cred_wf_def purge_expired_def)

lemma insert_wf:
  "cred_wf gen cs \<Longrightarrow> cr_username c = u \<Longrightarrow> cr_key c = gen u (cs_realm cs) (cr_password c) \<Longrightarrow>
     cred_wf gen (cs\<lparr>cs_entries := (cs_entries cs)(u \<mapsto> c)\<rparr>)"
  by (simp add: cred_wf_def)

lemma issue_wf:
  assumes "cred_wf gen cs" and it: "iterates (purge_expired now (cs_entries cs)) order"
  shows "cred_wf gen (snd (select_credential gen d order s now cs))"
  using it
proof (cases rule: select_cases [where gen = gen and d = d and s = s])
  case (Reuse u c)
  then show ?thesis by (simp add: purge_wf assms(1))
next
  case New
  have "cred_wf gen (cs\<lparr>cs_entries := (purge_expired now (cs_entries cs))
          (cr_username (new_credential gen d cs s now) \<mapsto> new_credential gen d cs s now)\<rparr>)"
    using insert_wf [OF purge_wf [OF assms(1), of now], of "new_credential gen d cs s now"] by simp
  with New show ?thesis by simp
qed

lemma revoke_wf: "cred_wf gen cs \<Longrightarrow> cred_wf gen (snd (revoke order s cs))"
  by (simp add: revoke_def cred_wf_def)

section \<open>At most two live credentials per session\<close>

lemma session_users_subset: "session_users cs s \<subseteq> dom (cs_entries cs)"
  by (auto simp: session_users_def)

lemma session_users_finite: "cred_wf gen cs \<Longrightarrow> finite (session_users cs s)"
  by (auto simp: cred_wf_def intro: finite_subset [OF session_users_subset])

lemma submap_inv:
  assumes "cred_inv gen realm ttl cs" and sub: "m \<subseteq>\<^sub>m cs_entries cs"
  shows "cred_inv gen realm ttl (cs\<lparr>cs_entries := m\<rparr>)"
proof -
  have le: "m u = Some c \<Longrightarrow> cs_entries cs u = Some c" for u c
    using sub by (metis domI map_le_def)
  have "session_users (cs\<lparr>cs_entries := m\<rparr>) s \<subseteq> session_users cs s" for s
    using le by (auto simp: session_users_def)
  moreover have "finite (session_users cs s)" "card (session_users cs s) \<le> 2" for s
    using assms(1) by (auto simp: cred_inv_def session_users_finite)
  ultimately have "card (session_users (cs\<lparr>cs_entries := m\<rparr>) s) \<le> 2" for s
    by (meson card_mono le_trans)
  moreover have "dom m \<subseteq> dom (cs_entries cs)" using le by auto
  moreover have "cred_spaced (cs\<lparr>cs_entries := m\<rparr>)"
    unfolding cred_spaced_def
  proof (intro allI impI)
    fix u v c d
    assume "cs_entries (cs\<lparr>cs_entries := m\<rparr>) u = Some c" "cs_entries (cs\<lparr>cs_entries := m\<rparr>) v = Some d"
      "u \<noteq> v" "cr_session c = cr_session d"
    moreover from this have "cs_entries cs u = Some c" "cs_entries cs v = Some d" using le by simp_all
    ultimately show "cr_expires_at c + cs_ttl (cs\<lparr>cs_entries := m\<rparr>) \<le> cr_expires_at d + 90 \<or>
        cr_expires_at d + cs_ttl (cs\<lparr>cs_entries := m\<rparr>) \<le> cr_expires_at c + 90"
      using assms(1) unfolding cred_inv_def cred_spaced_def by fastforce
  qed
  ultimately show ?thesis
    using assms(1) le unfolding cred_inv_def cred_wf_def by (auto intro: finite_subset)
qed

lemma purge_submap: "purge_expired now m \<subseteq>\<^sub>m m"
  by (auto simp: map_le_def)

lemma retain_submap: "hm_retain P m \<subseteq>\<^sub>m m"
  by (auto simp: map_le_def)

lemma at_most_one_stale:
  assumes sp: "cred_spaced cs" and ttl: "180 \<le> cs_ttl cs"
    and live: "\<And>u c. cs_entries cs u = Some c \<Longrightarrow> cr_session c = s \<Longrightarrow> now < cr_expires_at c \<and> cr_expires_at c \<le> now + 90"
  shows "\<exists>v. session_users cs s \<subseteq> {v}"
proof -
  have "u = v" if "u \<in> session_users cs s" "v \<in> session_users cs s" for u v
  proof (rule ccontr)
    assume "u \<noteq> v"
    with that obtain c e where e: "cs_entries cs u = Some c" "cs_entries cs v = Some e" "cr_session c = s" "cr_session e = s"
      by (auto simp: session_users_def)
    with sp \<open>u \<noteq> v\<close> have "cr_expires_at c + cs_ttl cs \<le> cr_expires_at e + 90 \<or> cr_expires_at e + cs_ttl cs \<le> cr_expires_at c + 90"
      unfolding cred_spaced_def by blast
    with live [OF e(1,3)] live [OF e(2,4)] ttl show False by linarith
  qed
  then show ?thesis by blast
qed

lemma new_inv:
  assumes inv: "cred_inv gen realm ttl cs" and ttl: "180 \<le> ttl"
    and u: "cs_entries cs u = None" "cr_username c = u" "cr_session c = s" "cr_expires_at c = now + ttl"
      "cr_key c = gen u realm (cr_password c)"
    and live: "\<And>v e. cs_entries cs v = Some e \<Longrightarrow> cr_session e = s \<Longrightarrow> now < cr_expires_at e \<and> cr_expires_at e \<le> now + 90"
  shows "cred_inv gen realm ttl (cs\<lparr>cs_entries := (cs_entries cs)(u \<mapsto> c)\<rparr>)"
    (is "cred_inv gen realm ttl ?cs")
proof -
  have rt: "cs_realm cs = realm" "cs_ttl cs = ttl" "cred_wf gen cs" and sp: "cred_spaced cs"
    and two: "card (session_users cs x) \<le> 2" for x using inv by (simp_all add: cred_inv_def)
  have "\<exists>v. session_users cs s \<subseteq> {v}" by (rule at_most_one_stale [OF sp _ live]) (use ttl rt in auto)
  then obtain v where v: "session_users cs s \<subseteq> {v}" ..
  have "card (session_users ?cs x) \<le> 2" for x
  proof (cases "x = s")
    case True
    then have "session_users ?cs x \<subseteq> {u, v}" using v u by (auto simp: session_users_def)
    then have "card (session_users ?cs x) \<le> card {u, v}" by (intro card_mono) auto
    also have "\<dots> \<le> 2" by (simp add: card_insert_if)
    finally show ?thesis .
  next
    case False
    then have "session_users ?cs x \<subseteq> session_users cs x" using u by (auto simp: session_users_def split: if_splits)
    then have "card (session_users ?cs x) \<le> card (session_users cs x)"
      by (rule card_mono [OF session_users_finite [OF rt(3)]])
    with two show ?thesis by (meson le_trans)
  qed
  moreover have "cred_spaced ?cs"
    using sp live u rt unfolding cred_spaced_def by (auto split: if_splits)
  moreover have "cred_wf gen ?cs" using insert_wf [OF rt(3) u(2)] u rt by simp
  ultimately show ?thesis using rt by (simp add: cred_inv_def)
qed


lemma issue_inv:
  assumes inv: "cred_inv gen realm ttl cs" and ttl: "180 \<le> ttl"
    and it: "iterates (purge_expired now (cs_entries cs)) order"
    and fresh: "cs_entries cs (cr_username (new_credential gen d cs s now)) = None"
  shows "cred_inv gen realm ttl (snd (select_credential gen d order s now cs))"
  using it
proof (cases rule: select_cases [where gen = gen and d = d and s = s])
  case (Reuse u c)
  then show ?thesis by (simp add: submap_inv [OF inv purge_submap])
next
  case New
  let ?p = "cs\<lparr>cs_entries := purge_expired now (cs_entries cs)\<rparr>"
  let ?c = "new_credential gen d cs s now"
  have rt: "cs_realm cs = realm" "cs_ttl cs = ttl" using inv by (simp_all add: cred_inv_def)
  have "cred_inv gen realm ttl (?p\<lparr>cs_entries := (cs_entries ?p)(cr_username ?c \<mapsto> ?c)\<rparr>)"
    by (rule new_inv [where s = s and now = now, OF submap_inv [OF inv purge_submap] ttl])
      (use New(2) rt fresh in \<open>auto simp: purge_None\<close>)
  with New(1) show ?thesis by simp
qed

lemma credentials_new_inv: "cred_inv gen realm ttl (credentials_new realm ttl)"
  by (simp add: cred_inv_def credentials_new_def cred_wf_def cred_spaced_def session_users_def)

lemma revoke_inv: "cred_inv gen realm ttl cs \<Longrightarrow> cred_inv gen realm ttl (snd (revoke order s cs))"
  by (simp add: revoke_def submap_inv retain_submap)

interpretation credential_system: invariant_system "cred_init realm ttl" "cred_step gen"
  "\<lambda>cs. 180 \<le> ttl \<longrightarrow> cred_inv gen realm ttl cs"
  for realm ttl gen
  by unfold_locales
    (auto simp: cred_init_def credentials_new_inv issue_snd elim!: cred_step.cases intro: issue_inv revoke_inv)

section \<open>Revocation as a contract\<close>

text \<open>
  What the session manager relies on: a revocation empties the session's credentials and no
  operation of another session brings them back. The environment of an operation (drawn UUIDs,
  iteration order, time) is its first argument.
\<close>

datatype ('i, 'r) store_op = Issue_op 'i string | Revoke_op 'r string

primrec store_op_session :: "('i, 'r) store_op \<Rightarrow> string" where
  "store_op_session (Issue_op e s) = s"
| "store_op_session (Revoke_op e s) = s"

locale credential_store =
  fixes users :: "'st \<Rightarrow> string \<Rightarrow> string set"
    and iss :: "'i \<Rightarrow> string \<Rightarrow> 'st \<Rightarrow> 'st"
    and rev :: "'r \<Rightarrow> string \<Rightarrow> 'st \<Rightarrow> 'st"
  assumes revoked_users: "users (rev r s st) t = (if t = s then {} else users st t)"
    and issue_others: "t \<noteq> s \<Longrightarrow> users (iss i s st) t \<subseteq> users st t"
begin

lemma revoked_stays_revoked:
  assumes "list_all (\<lambda>oper. store_op_session oper \<noteq> s) opers"
  shows "users (fold (\<lambda>oper. case oper of Issue_op i t \<Rightarrow> iss i t | Revoke_op r t \<Rightarrow> rev r t) opers (rev e s st)) s = {}"
proof -
  have "users (fold (\<lambda>oper. case oper of Issue_op i t \<Rightarrow> iss i t | Revoke_op r t \<Rightarrow> rev r t) opers st) s \<subseteq> users st s" for st
    using assms
  proof (induction opers arbitrary: st)
    case (Cons x xs)
    have "users ((case x of Issue_op i t \<Rightarrow> iss i t | Revoke_op r t \<Rightarrow> rev r t) st) s \<subseteq> users st s"
      using Cons.prems issue_others by (cases x) (auto simp: revoked_users dest!: subsetD [OF issue_others, rotated])
    with Cons.IH Cons.prems show ?case by fastforce
  qed simp
  from this [of "rev e s st"] show ?thesis by (simp add: revoked_users)
qed

end

text \<open>An issue and a revocation with their environment bundled.\<close>

type_synonym issue_args = "uuid_draw \<times> string list \<times> string list \<times> nat"

definition issue_op :: "auth_key_fn \<Rightarrow> issue_args \<Rightarrow> string \<Rightarrow> credentials \<Rightarrow> credentials" where
  "issue_op gen e session cs = (case e of (d, order, urls, now) \<Rightarrow> snd (issue_at gen d order session urls now cs))"

definition revoke_op :: "string list \<Rightarrow> string \<Rightarrow> credentials \<Rightarrow> credentials" where
  "revoke_op order session cs = snd (revoke order session cs)"

definition cred_apply :: "auth_key_fn \<Rightarrow> (issue_args, string list) store_op \<Rightarrow> credentials \<Rightarrow> credentials" where
  "cred_apply gen oper = (case oper of Issue_op e s \<Rightarrow> issue_op gen e s | Revoke_op e s \<Rightarrow> revoke_op e s)"

lemma issue_others_users: "t \<noteq> s \<Longrightarrow> session_users (issue_op gen e s cs) t \<subseteq> session_users cs t"
  by (cases e) (auto simp: issue_op_def issue_snd session_users_def select_credential_def Let_def split: option.splits if_splits)

lemma revoke_users: "session_users (revoke_op e s cs) t = (if t = s then {} else session_users cs t)"
  by (auto simp: revoke_op_def revoke_def session_users_def)

interpretation turn_credentials: credential_store session_users "issue_op gen" revoke_op for gen
  by unfold_locales (auto simp: revoke_users dest: issue_others_users [THEN subsetD])

text \<open>
  What \<open>issue_at\<close> hands out is usable: it expires more than 90 seconds ahead, every TURN URL
  carries one user name and password, and that name authenticates until the announced expiry.
\<close>

lemma issue_at_usable:
  assumes "cred_wf gen cs" and "iterates (purge_expired now (cs_entries cs)) order" and "90 < cs_ttl cs"
  shows "\<exists>e u p. fst (issue_at gen d order s urls now cs) =
      \<lparr>ic_ice_servers = map (\<lambda>url. \<lparr>is_urls = url,
           is_username = (if starts_with ''turn'' url then Some u else None),
           is_credential = (if starts_with ''turn'' url then Some p else None)\<rparr>) urls,
       ic_expires_at = Some e\<rparr> \<and> now + 90 < e \<and>
      (\<forall>t. authenticate_at u (cs_realm cs) t (snd (issue_at gen d order s urls now cs)) =
         (if t < e then Inr (gen u (cs_realm cs) p) else Inl ''expired or unknown session credential''))"
proof -
  obtain c cs' where sel: "select_credential gen d order s now cs = (c, cs')" by fastforce
  have in_store: "cs_entries cs' (cr_username c) = Some c \<and> now + 90 < cr_expires_at c
     \<and> cr_key c = gen (cr_username c) (cs_realm cs) (cr_password c) \<and> cs_realm cs' = cs_realm cs"
    using assms(2)
  proof (cases rule: select_cases [where gen = gen and d = d and s = s])
    case (Reuse u c2)
    with sel assms(1) show ?thesis by (auto simp: cred_wf_def)
  next
    case New
    with sel assms(3) show ?thesis by auto
  qed
  show ?thesis
    by (rule exI [of _ "cr_expires_at c"], rule exI [of _ "cr_username c"], rule exI [of _ "cr_password c"])
      (use in_store in \<open>auto simp: issue_at_def sel ice_server_for_def authenticate_at_def fun_eq_iff\<close>)
qed

text \<open>A revocation returns each user name of the session once and changes no other name.\<close>

lemma revoke_effect:
  assumes "keyed cs" and "iterates (cs_entries cs) order"
  shows "set (fst (revoke order s cs)) = session_users cs s \<and> distinct (fst (revoke order s cs)) \<and>
    (\<forall>u t. authenticate_at u (cs_realm cs) t (snd (revoke order s cs)) =
       (if u \<in> session_users cs s then Inl ''expired or unknown session credential''
        else authenticate_at u (cs_realm cs) t cs))"
proof -
  have wf: "\<And>u c. cs_entries cs u = Some c \<Longrightarrow> cr_username c = u" using assms(1) by (auto simp: keyed_def)
  have names: "map cr_username (filter (\<lambda>c. cr_session c = s) (hm_values (cs_entries cs) ks)) =
      filter (\<lambda>u. u \<in> session_users cs s) ks" for ks
    by (induction ks) (auto simp: session_users_def wf split: option.splits)
  have "distinct order" "set order = dom (cs_entries cs)" using assms(2) by (auto simp: iterates_def)
  moreover have "fst (revoke order s cs) = filter (\<lambda>u. u \<in> session_users cs s) order"
    by (simp add: revoke_def names)
  ultimately show ?thesis
    using session_users_subset [of cs s]
    by (auto simp: revoke_def authenticate_at_def session_users_def hm_retain_def split: option.split)
qed

section \<open>Properties of the credential store\<close>

text \<open>
  C5. Whatever sequence of refreshes and revocations is made, with a clock that may even jump,
  the store never keeps more than two credentials of one session when the TTL is at least 180
  seconds (the configuration demands 300): refreshing cannot grow the state. Every stored entry is filed under its own
  user name with the key derived from it.
\<close>

theorem live_credentials_bounded:
  assumes "reachable (cred_init realm ttl) (cred_step gen) cs" and "180 \<le> ttl"
  shows "card (session_users cs session) \<le> 2 \<and> cs_realm cs = realm \<and>
    (\<forall>u. case cs_entries cs u of None \<Rightarrow> True
         | Some c \<Rightarrow> cr_username c = u \<and> cr_key c = gen u realm (cr_password c))"
  using credential_system.reachable_inv [OF assms(1)] assms(2)
  by (auto simp: cred_inv_def cred_wf_def split: option.split)

definition demo_key :: auth_key_fn where
  "demo_key u r p = [of_nat (length u), of_nat (length r), of_nat (length p)]"

definition demo_draw :: uuid_draw where
  "demo_draw = \<lparr>ud_user = ''u1'', ud_pass1 = ''p1'', ud_pass2 = ''p2''\<rparr>"

lemma demo_reachable:
  "reachable (cred_init ''r'' 300) (cred_step demo_key)
     (snd (issue_at demo_key demo_draw [] ''alice'' [''turn:h''] 10 (credentials_new ''r'' 300)))"
  by (rule reachable_step, rule reachable_init [where s = "credentials_new ''r'' 300"], simp add: cred_init_def, rule cred_issue)
    (simp_all add: turn_simps)

theorem live_credentials_bounded_witness:
  "card (session_users (snd (issue_at demo_key demo_draw [] ''alice'' [''turn:h''] 10 (credentials_new ''r'' 300))) ''alice'') \<le> 2"
  using live_credentials_bounded [OF demo_reachable, of "''alice''"] by simp

text \<open>
  Once a session is revoked, no sequence of refreshes and revocations made for other sessions
  gives it a credential again, whatever UUIDs are drawn and in whatever order the map is walked.
\<close>

lemma revoked_session_stays_revoked:
  assumes "list_all (\<lambda>oper. store_op_session oper \<noteq> s) opers"
  shows "session_users (fold (cred_apply gen) opers (snd (revoke order s cs))) s = {}"
proof -
  have "cred_apply gen = (\<lambda>oper. case oper of Issue_op i t \<Rightarrow> issue_op gen i t | Revoke_op r t \<Rightarrow> revoke_op r t)"
    by (simp add: fun_eq_iff cred_apply_def)
  with turn_credentials.revoked_stays_revoked [OF assms, where gen = gen and e = order and st = cs]
  show ?thesis by (simp add: revoke_op_def)
qed

end
