(* ===== verification/Turn_Relay.thy ===== *)
theory Turn_Relay
  imports Net
begin

text \<open>
  \<open>src/src/turn/relay.rs\<close>: the relay sockets of the built-in TURN server. The socket below
  (\<open>Conn\<close> of the library) and the port-range allocator are parameters: \<open>conn_ops\<close> is the
  record of the operations the wrapper calls, each taking and returning the socket's state.
\<close>

record 'c conn_ops =
  co_connect :: "socket_addr \<Rightarrow> 'c \<Rightarrow> unit result \<times> 'c"
  co_recv_from :: "nat \<Rightarrow> 'c \<Rightarrow> (bytes \<times> socket_addr) result \<times> 'c"
  co_send :: "bytes \<Rightarrow> 'c \<Rightarrow> nat result \<times> 'c"
  co_send_to :: "bytes \<Rightarrow> socket_addr \<Rightarrow> 'c \<Rightarrow> nat result \<times> 'c"
  co_local_addr :: "'c \<Rightarrow> socket_addr result"
  co_remote_addr :: "'c \<Rightarrow> socket_addr option"
  co_close :: "'c \<Rightarrow> unit result \<times> 'c"

record 'g media_relay_generator =
  mg_inner :: 'g
  mg_min_port :: u16
  mg_max_port :: u16
  mg_public_ip :: ipv4
  mg_media_port :: u16

record 'c media_relay_conn =
  mr_conn :: 'c
  mr_public_ip :: ipv4
  mr_media_port :: u16

definition generator_validate :: "('g \<Rightarrow> unit result) \<Rightarrow> 'g media_relay_generator \<Rightarrow> unit result" where
  "generator_validate inner_validate g = inner_validate (mg_inner g)"

definition allocate_conn ::
  "(bool \<Rightarrow> u16 \<Rightarrow> 'g \<Rightarrow> ('c \<times> socket_addr) result \<times> 'g) \<Rightarrow> bool \<Rightarrow> u16 \<Rightarrow> 'g media_relay_generator
     \<Rightarrow> ('c media_relay_conn \<times> socket_addr) result \<times> 'g media_relay_generator" where
  "allocate_conn inner_allocate ipv4 port g =
     (if \<not> ipv4 \<or> port \<noteq> 0 \<and> \<not> (mg_min_port g \<le> port \<and> port \<le> mg_max_port g)
      then (Inl ''unsupported relay address or port'', g)
      else (case inner_allocate ipv4 port (mg_inner g) of
              (Inl e, i) \<Rightarrow> (Inl e, g\<lparr>mg_inner := i\<rparr>)
            | (Inr (c, a), i) \<Rightarrow>
                (Inr (\<lparr>mr_conn = c, mr_public_ip = mg_public_ip g, mr_media_port = mg_media_port g\<rparr>, a),
                 g\<lparr>mg_inner := i\<rparr>)))"

text \<open>
  What the library documents of \<open>RelayAddressGeneratorRanges\<close>: an allocation it grants is advertised under the relay address it was
  given, on the requested port or on one of its range.
\<close>

definition allocates_in_range :: "(bool \<Rightarrow> u16 \<Rightarrow> 'g \<Rightarrow> ('c \<times> socket_addr) result \<times> 'g) \<Rightarrow> ipv4 \<Rightarrow> u16 \<Rightarrow> u16 \<Rightarrow> bool" where
  "allocates_in_range inner_allocate ip lo hi \<longleftrightarrow>
     (\<forall>port i c a i'. inner_allocate True port i = (Inr (c, a), i') \<longrightarrow>
        (\<exists>p. a = Sock4 ip p \<and> (if port \<noteq> 0 then p = port else lo \<le> p \<and> p \<le> hi)))"

definition target :: "'c media_relay_conn \<Rightarrow> socket_addr \<Rightarrow> socket_addr result" where
  "target r addr =
     (if sock_port addr \<noteq> mr_media_port r \<or> sock_ip addr \<noteq> V4 (mr_public_ip r)
      then Inl ''TURN may relay only to MumDota media''
      else Inr (Sock4 LOCALHOST (mr_media_port r)))"

definition relay_connect :: "'c conn_ops \<Rightarrow> socket_addr \<Rightarrow> 'c media_relay_conn \<Rightarrow> unit result \<times> 'c media_relay_conn" where
  "relay_connect ops addr r =
     (case target r addr of
        Inl e \<Rightarrow> (Inl e, r)
      | Inr a \<Rightarrow> (let (x, c) = co_connect ops a (mr_conn r) in (x, r\<lparr>mr_conn := c\<rparr>)))"

text \<open>The loop drops datagrams of other senders; it returns nothing while only those arrive.\<close>

partial_function (option) relay_recv_from ::
  "'c conn_ops \<Rightarrow> nat \<Rightarrow> 'c media_relay_conn \<Rightarrow> ((bytes \<times> socket_addr) result \<times> 'c media_relay_conn) option" where
  "relay_recv_from ops buf r =
     (case co_recv_from ops buf (mr_conn r) of
        (Inl e, c) \<Rightarrow> Some (Inl e, r\<lparr>mr_conn := c\<rparr>)
      | (Inr (d, from), c) \<Rightarrow>
          if from = Sock4 LOCALHOST (mr_media_port r)
          then Some (Inr (d, Sock4 (mr_public_ip r) (mr_media_port r)), r\<lparr>mr_conn := c\<rparr>)
          else relay_recv_from ops buf (r\<lparr>mr_conn := c\<rparr>))"

definition relay_recv :: "'c conn_ops \<Rightarrow> nat \<Rightarrow> 'c media_relay_conn \<Rightarrow> (bytes result \<times> 'c media_relay_conn) option" where
  "relay_recv ops buf r =
     map_option (\<lambda>(x, r'). (map_sum id fst x, r')) (relay_recv_from ops buf r)"

definition relay_send :: "'c conn_ops \<Rightarrow> bytes \<Rightarrow> 'c media_relay_conn \<Rightarrow> nat result \<times> 'c media_relay_conn" where
  "relay_send ops d r = (let (x, c) = co_send ops d (mr_conn r) in (x, r\<lparr>mr_conn := c\<rparr>))"

definition relay_send_to :: "'c conn_ops \<Rightarrow> bytes \<Rightarrow> socket_addr \<Rightarrow> 'c media_relay_conn \<Rightarrow> nat result \<times> 'c media_relay_conn" where
  "relay_send_to ops d addr r =
     (case target r addr of
        Inl e \<Rightarrow> (Inl e, r)
      | Inr a \<Rightarrow> (let (x, c) = co_send_to ops d a (mr_conn r) in (x, r\<lparr>mr_conn := c\<rparr>)))"

definition relay_local_addr :: "'c conn_ops \<Rightarrow> 'c media_relay_conn \<Rightarrow> socket_addr result" where
  "relay_local_addr ops r = co_local_addr ops (mr_conn r)"

definition relay_remote_addr :: "'c conn_ops \<Rightarrow> 'c media_relay_conn \<Rightarrow> socket_addr option" where
  "relay_remote_addr ops r = co_remote_addr ops (mr_conn r)"

definition relay_close :: "'c conn_ops \<Rightarrow> 'c media_relay_conn \<Rightarrow> unit result \<times> 'c media_relay_conn" where
  "relay_close ops r = (let (x, c) = co_close ops (mr_conn r) in (x, r\<lparr>mr_conn := c\<rparr>))"

text \<open>The operations the TURN server may make on a relay socket, in any order.\<close>

datatype relay_op = R_connect socket_addr | R_recv nat | R_send bytes | R_send_to bytes socket_addr | R_close

inductive relay_step :: "'c conn_ops \<Rightarrow> 'c media_relay_conn \<Rightarrow> relay_op \<Rightarrow> 'c media_relay_conn \<Rightarrow> bool"
  for ops :: "'c conn_ops" where
  rs_connect: "relay_step ops r (R_connect a) (snd (relay_connect ops a r))"
| rs_recv: "relay_recv_from ops n r = Some (x, r') \<Longrightarrow> relay_step ops r (R_recv n) r'"
| rs_send: "relay_step ops r (R_send d) (snd (relay_send ops d r))"
| rs_send_to: "relay_step ops r (R_send_to d a) (snd (relay_send_to ops d a r))"
| rs_close: "relay_step ops r R_close (snd (relay_close ops r))"

definition relay_steps :: "'c conn_ops \<Rightarrow> 'c media_relay_conn \<Rightarrow> 'c media_relay_conn \<Rightarrow> bool" where
  "relay_steps ops = (\<lambda>r r'. \<exists>opr. relay_step ops r opr r')\<^sup>*\<^sup>*"

text \<open>
  A property of the socket below that holds as long as it only ever connects to or sends to the
  media port on the loopback interface.
\<close>

definition loopback_inv :: "'c conn_ops \<Rightarrow> u16 \<Rightarrow> ('c \<Rightarrow> bool) \<Rightarrow> bool" where
  "loopback_inv ops port I \<longleftrightarrow>
     (\<forall>c. I c \<longrightarrow> I (snd (co_connect ops (Sock4 LOCALHOST port) c)) \<and>
        (\<forall>n. I (snd (co_recv_from ops n c))) \<and> (\<forall>d. I (snd (co_send ops d c))) \<and>
        (\<forall>d. I (snd (co_send_to ops d (Sock4 LOCALHOST port) c))) \<and> I (snd (co_close ops c)))"

text \<open>The receptions the loop makes: \<open>foreign_run\<close> holds when the first \<open>n\<close> come from elsewhere.\<close>

fun foreign_run :: "'c conn_ops \<Rightarrow> nat \<Rightarrow> u16 \<Rightarrow> nat \<Rightarrow> 'c \<Rightarrow> 'c option" where
  "foreign_run ops buf port 0 c = Some c"
| "foreign_run ops buf port (Suc n) c =
     (case co_recv_from ops buf c of
        (Inr (d, from), c') \<Rightarrow> if from \<noteq> Sock4 LOCALHOST port then foreign_run ops buf port n c' else None
      | (Inl e, c') \<Rightarrow> None)"

section \<open>Confinement\<close>

lemma target_Inr [simp]: "target r a = Inr b \<longleftrightarrow> a = Sock4 (mr_public_ip r) (mr_media_port r) \<and> b = Sock4 LOCALHOST (mr_media_port r)"
  by (cases a) (auto simp: target_def)

lemma allocate_conn_granted:
  assumes "allocate_conn inner_allocate v4 port g = (Inr (r, a), g')"
  shows "v4 \<and> mr_public_ip r = mg_public_ip g \<and> mr_media_port r = mg_media_port g \<and>
    (port \<noteq> 0 \<longrightarrow> mg_min_port g \<le> port \<and> port \<le> mg_max_port g) \<and>
    (\<exists>i'. inner_allocate True port (mg_inner g) = (Inr (mr_conn r, a), i') \<and> g' = g\<lparr>mg_inner := i'\<rparr>)"
  using assms by (auto simp: allocate_conn_def split: if_splits prod.splits sum.splits)

lemma recv_from_keeps:
  assumes "relay_recv_from ops n r = Some y" and "loopback_inv ops (mr_media_port r) I" and "I (mr_conn r)"
  shows "I (mr_conn (snd y)) \<and> mr_public_ip (snd y) = mr_public_ip r \<and> mr_media_port (snd y) = mr_media_port r"
  using assms
proof (induction rule: relay_recv_from.raw_induct [rotated, consumes 1, case_names 1])
  case (1 relay ops n r y)
  have I: "I (snd (co_recv_from ops n (mr_conn r)))" using 1(3,4) by (auto simp: loopback_inv_def)
  obtain z c where z: "co_recv_from ops n (mr_conn r) = (z, c)" by fastforce
  show ?case using 1(2-4) I z 1(1) [of ops n "r\<lparr>mr_conn := c\<rparr>" y]
    by (auto split: sum.splits prod.splits if_splits)
qed

lemma relay_step_keeps:
  assumes "relay_step ops r opr r'" and "loopback_inv ops (mr_media_port r) I" and "I (mr_conn r)"
  shows "I (mr_conn r') \<and> mr_public_ip r' = mr_public_ip r \<and> mr_media_port r' = mr_media_port r"
  using assms
proof (cases rule: relay_step.cases)
  case (rs_connect a)
  with assms(2,3) show ?thesis
    by (auto simp: relay_connect_def loopback_inv_def case_prod_unfold Let_def split: sum.splits)
next
  case (rs_recv n x)
  then show ?thesis using recv_from_keeps [of ops n r "(x, r')" I] assms(2,3) by simp
next
  case (rs_send d)
  with assms(2,3) show ?thesis by (auto simp: relay_send_def loopback_inv_def case_prod_unfold Let_def)
next
  case (rs_send_to d a)
  with assms(2,3) show ?thesis
    by (auto simp: relay_send_to_def loopback_inv_def case_prod_unfold Let_def split: sum.splits)
next
  case rs_close
  with assms(2,3) show ?thesis by (auto simp: relay_close_def loopback_inv_def case_prod_unfold Let_def)
qed

interpretation relay_system: invariant_system
  "\<lambda>r. loopback_inv ops port I \<and> I (mr_conn r) \<and> mr_media_port r = port" "\<lambda>r r'. \<exists>opr. relay_step ops r opr r'"
  "\<lambda>r. loopback_inv ops port I \<and> I (mr_conn r) \<and> mr_media_port r = port"
  for ops port I
  by unfold_locales (auto dest: relay_step_keeps)

lemma foreign_run_recv:
  "foreign_run ops buf (mr_media_port r) n (mr_conn r) = Some c \<Longrightarrow>
     relay_recv_from ops buf r = relay_recv_from ops buf (r\<lparr>mr_conn := c\<rparr>)"
proof (induction n arbitrary: r)
  case (Suc n)
  from Suc.prems obtain d src c' where q: "co_recv_from ops buf (mr_conn r) = (Inr (d, src), c')"
    "src \<noteq> Sock4 LOCALHOST (mr_media_port r)" "foreign_run ops buf (mr_media_port r) n c' = Some c"
    by (auto split: prod.splits sum.splits if_splits)
  then have "relay_recv_from ops buf r = relay_recv_from ops buf (r\<lparr>mr_conn := c'\<rparr>)"
    by (subst relay_recv_from.simps) simp
  also have "\<dots> = relay_recv_from ops buf (r\<lparr>mr_conn := c', mr_conn := c\<rparr>)"
    using Suc.IH [of "r\<lparr>mr_conn := c'\<rparr>"] q(3) by simp
  finally show ?case by simp
qed auto

text \<open>A socket that delivers a queue of datagrams and records where it was told to send.\<close>

definition queue_conn :: "((bytes \<times> socket_addr) list \<times> socket_addr list) conn_ops" where
  "queue_conn = \<lparr>co_connect = (\<lambda>a (q, l). (Inr (), (q, a # l))),
     co_recv_from = (\<lambda>n (q, l). case q of [] \<Rightarrow> (Inl ''closed'', ([], l)) | (d, a) # q' \<Rightarrow> (Inr (take n d, a), (q', l))),
     co_send = (\<lambda>d (q, l). (Inr (length d), (q, l))),
     co_send_to = (\<lambda>d a (q, l). (Inr (length d), (q, a # l))),
     co_local_addr = (\<lambda>_. Inr (Sock4 LOCALHOST 49160)), co_remote_addr = (\<lambda>_. None),
     co_close = (\<lambda>(q, l). (Inr (), ([], l)))\<rparr>"

section \<open>Properties of the relay\<close>

text \<open>
  C4. The TURN server is not a general proxy. Whatever a client makes it do with a relay socket,
  any property of the real socket that holds while it only connects to and sends to the media port
  on the loopback interface stays true: no other destination is ever handed to it.
\<close>

theorem relay_confined:
  assumes "relay_steps ops r r'" and "loopback_inv ops (mr_media_port r) I" and "I (mr_conn r)"
  shows "I (mr_conn r')"
proof -
  have "(\<lambda>r r'. \<exists>opr. relay_step ops r opr r')\<^sup>*\<^sup>* r r'" using assms(1) by (simp add: relay_steps_def)
  from relay_system.rtranclp_inv [OF this, of "mr_media_port r" I] assms(2,3) show ?thesis by simp
qed

theorem relay_confined_witness:
  "set (snd (mr_conn (snd (relay_send_to queue_conn [1] (Sock4 9 80)
     \<lparr>mr_conn = ([], []), mr_public_ip = 7, mr_media_port = 50000\<rparr>)))) \<subseteq> {Sock4 LOCALHOST 50000}"
proof -
  let ?r = "\<lparr>mr_conn = ([], []), mr_public_ip = 7, mr_media_port = 50000\<rparr>"
  have st: "relay_steps queue_conn ?r (snd (relay_send_to queue_conn [1] (Sock4 9 80) ?r))"
    unfolding relay_steps_def by (rule r_into_rtranclp) (rule exI, rule rs_send_to)
  have inv: "loopback_inv queue_conn 50000 (\<lambda>c. set (snd c) \<subseteq> {Sock4 LOCALHOST 50000})"
    by (auto simp: loopback_inv_def queue_conn_def split: list.splits)
  show ?thesis using relay_confined [OF st, of "\<lambda>c. set (snd c) \<subseteq> {Sock4 LOCALHOST 50000}"] inv by simp
qed

text \<open>
  Receiving skips any number of datagrams that do not come from the media port on the loopback
  interface and returns the first that does, unchanged and with the public media address as its
  source; a reply sent to the reported source is passed on to the loopback media port.
\<close>

lemma relay_reply_path:
  assumes "foreign_run ops buf (mr_media_port r) n (mr_conn r) = Some c"
    and "co_recv_from ops buf c = (Inr (d, Sock4 LOCALHOST (mr_media_port r)), c')"
  shows "\<exists>source. relay_recv_from ops buf r = Some (Inr (d, source), r\<lparr>mr_conn := c'\<rparr>) \<and>
    sock_ip source = V4 (mr_public_ip r) \<and> sock_port source = mr_media_port r \<and>
    relay_send_to ops reply source (r\<lparr>mr_conn := c'\<rparr>) =
      (let (x, c'') = co_send_to ops reply (Sock4 LOCALHOST (mr_media_port r)) c' in (x, r\<lparr>mr_conn := c''\<rparr>))"
proof -
  have "relay_recv_from ops buf (r\<lparr>mr_conn := c\<rparr>) =
      Some (Inr (d, Sock4 (mr_public_ip r) (mr_media_port r)), r\<lparr>mr_conn := c'\<rparr>)"
    by (subst relay_recv_from.simps) (simp add: assms(2))
  with foreign_run_recv [OF assms(1)] show ?thesis
    by (intro exI [of _ "Sock4 (mr_public_ip r) (mr_media_port r)"])
      (simp add: relay_send_to_def target_def case_prod_unfold Let_def)
qed

end
