(* ===== verification/Turn_Stream.thy ===== *)
theory Turn_Stream
  imports Net
begin

text \<open>
  \<open>src/src/turn/stream.rs\<close>: TURN over TCP and TLS. The reader half is the list of bytes that have
  arrived and are not yet read; when a read wants more than that, \<open>stall\<close> says how the wait ends:
  the peer closes, ninety seconds pass, or the connection is closed locally. The writer half is
  the list of bytes written; \<open>write_env\<close> is the outcome of the socket writes, with the number of
  bytes that got out before a failure.
\<close>

record stream_conn =
  st_reader :: bytes
  st_writer :: bytes
  st_local :: socket_addr
  st_remote :: socket_addr
  st_closed :: bool
  st_shut :: bool

datatype stall = Eof | Idle | Closed_wait

datatype write_env = Write_ok | Write_timeout nat | Write_error string nat

definition stall_error :: "stall \<Rightarrow> string" where
  "stall_error w = (case w of Eof \<Rightarrow> ''early eof'' | Idle \<Rightarrow> ''idle TURN stream'' | Closed_wait \<Rightarrow> ''closed'')"

definition stream_new :: "bytes \<Rightarrow> socket_addr \<Rightarrow> socket_addr \<Rightarrow> stream_conn" where
  "stream_new incoming local remote =
     \<lparr>st_reader = incoming, st_writer = [], st_local = local, st_remote = remote, st_closed = False, st_shut = False\<rparr>"

definition from_be_bytes :: "u8 \<Rightarrow> u8 \<Rightarrow> nat" where
  "from_be_bytes hi lo = unat hi * 256 + unat lo"

text \<open>
  Frame length and padded length announced by a four byte header. Masking with \<open>!3\<close> clears the two
  low bits, which is rounding down to a multiple of four.
\<close>

definition frame_lengths :: "bytes \<Rightarrow> (nat \<times> nat) result" where
  "frame_lengths header =
     (let payload_len = from_be_bytes (header ! 2) (header ! 3);
          kind = drop_bit 6 (header ! 0)
      in if kind = 0 then
           (if payload_len mod 4 \<noteq> 0 then Inl ''unaligned STUN length''
            else Inr (20 + payload_len, 20 + payload_len))
         else if kind = 1 then Inr (4 + payload_len, (4 + payload_len + 3) div 4 * 4)
         else Inl ''invalid TURN frame type'')"

text \<open>
  \<open>read_frame\<close> returns the frame and the bytes left in the reader. A wait that does not end has consumed
  what had arrived.
\<close>

definition read_frame :: "nat \<Rightarrow> stall \<Rightarrow> bytes \<Rightarrow> bytes result \<times> bytes" where
  "read_frame buf_len w bs =
     (if length bs < 4 then (Inl (stall_error w), [])
      else (case frame_lengths (take 4 bs) of
              Inl e \<Rightarrow> (Inl e, drop 4 bs)
            | Inr (len, padded_len) \<Rightarrow>
                if len > buf_len then (Inl ''TURN frame exceeds MTU'', drop 4 bs)
                else if length bs < padded_len then (Inl (stall_error w), [])
                else (Inr (take len bs), drop padded_len bs)))"

definition stream_connect :: "socket_addr \<Rightarrow> stream_conn \<Rightarrow> unit result" where
  "stream_connect addr c =
     (if addr \<noteq> st_remote c then Inl ''connected TURN stream cannot change peer'' else Inr ())"

text \<open>
  \<open>recv\<close> races the read against the close notification; when both are ready either may win, which
  \<open>closed_wins\<close> decides.
\<close>

definition stream_recv :: "bool \<Rightarrow> nat \<Rightarrow> stall \<Rightarrow> stream_conn \<Rightarrow> bytes result \<times> stream_conn" where
  "stream_recv closed_wins buf_len w c =
     (if st_closed c \<and> closed_wins then (Inl ''closed'', c)
      else (let (r, rest) = read_frame buf_len w (st_reader c)
            in (r, c\<lparr>st_reader := rest, st_closed := (st_closed c \<or> \<not> is_ok r)\<rparr>)))"

definition stream_recv_from :: "bool \<Rightarrow> nat \<Rightarrow> stall \<Rightarrow> stream_conn \<Rightarrow> (bytes \<times> socket_addr) result \<times> stream_conn" where
  "stream_recv_from closed_wins buf_len w c =
     (let (r, c') = stream_recv closed_wins buf_len w c
      in (case r of Inl e \<Rightarrow> Inl e | Inr d \<Rightarrow> Inr (d, st_remote c), c'))"

definition padding :: "bytes \<Rightarrow> bytes" where
  "padding buf = (if buf \<noteq> [] \<and> drop_bit 6 (hd buf) = 1 then replicate ((4 - length buf mod 4) mod 4) 0 else [])"

definition stream_send :: "write_env \<Rightarrow> bytes \<Rightarrow> stream_conn \<Rightarrow> nat result \<times> stream_conn" where
  "stream_send env buf c =
     (case env of
        Write_ok \<Rightarrow> (Inr (length buf), c\<lparr>st_writer := st_writer c @ buf @ padding buf\<rparr>)
      | Write_timeout n \<Rightarrow>
          (Inl ''TURN write timed out'', c\<lparr>st_writer := st_writer c @ take n (buf @ padding buf), st_closed := True\<rparr>)
      | Write_error e n \<Rightarrow>
          (Inl e, c\<lparr>st_writer := st_writer c @ take n (buf @ padding buf), st_closed := True\<rparr>))"

definition stream_send_to :: "write_env \<Rightarrow> bytes \<Rightarrow> socket_addr \<Rightarrow> stream_conn \<Rightarrow> nat result \<times> stream_conn" where
  "stream_send_to env buf addr c =
     (case stream_connect addr c of Inl e \<Rightarrow> (Inl e, c) | Inr _ \<Rightarrow> stream_send env buf c)"

definition stream_local_addr :: "stream_conn \<Rightarrow> socket_addr result" where
  "stream_local_addr c = Inr (st_local c)"

definition stream_remote_addr :: "stream_conn \<Rightarrow> socket_addr option" where
  "stream_remote_addr c = Some (st_remote c)"

text \<open>The write half is shut down unless that takes more than a second.\<close>

definition stream_close :: "bool \<Rightarrow> stream_conn \<Rightarrow> unit result \<times> stream_conn" where
  "stream_close in_time c = (Inr (), c\<lparr>st_closed := True, st_shut := (st_shut c \<or> in_time)\<rparr>)"

section \<open>Frames\<close>

text \<open>
  The frames of RFC 5766 over a stream: a STUN message (two leading zero bits, a 20 byte header,
  an aligned body) or ChannelData (leading bits 01), padded on the wire to a multiple of four.
\<close>

definition turn_frame :: "bytes \<Rightarrow> bool" where
  "turn_frame f \<longleftrightarrow> 4 \<le> length f \<and>
     (drop_bit 6 (f ! 0) = 0 \<and> length f = 20 + from_be_bytes (f ! 2) (f ! 3) \<and> length f mod 4 = 0 \<or>
      drop_bit 6 (f ! 0) = 1 \<and> length f = 4 + from_be_bytes (f ! 2) (f ! 3))"

definition on_wire :: "bytes \<Rightarrow> bytes" where
  "on_wire f = f @ padding f"

definition read_opt :: "nat \<Rightarrow> bytes \<Rightarrow> (bytes \<times> bytes) option" where
  "read_opt buf_len bs = (case read_frame buf_len Eof bs of (Inr f, rest) \<Rightarrow> Some (f, rest) | (Inl e, rest) \<Rightarrow> None)"

definition pad_length :: "bytes \<Rightarrow> nat" where
  "pad_length f = (if drop_bit 6 (f ! 0) = 1 then (4 - length f mod 4) mod 4 else 0)"

lemma nth_take_4: "4 \<le> length bs \<Longrightarrow> i < 4 \<Longrightarrow> take 4 bs ! i = bs ! i"
  by simp

lemma round_up_4: "(7 + k) div 4 * 4 = 4 + k + (4 - k mod 4) mod (4 :: nat)"
proof -
  obtain q r where k: "k = 4 * q + r" "r < 4" by (metis mult_div_mod_eq mod_less_divisor zero_less_numeral)
  then have "r = 0 \<or> r = 1 \<or> r = 2 \<or> r = 3" by auto
  then have "(7 + k) div 4 = Suc q + (if r = 0 then 0 else 1)" "k mod 4 = r" using k(1) by auto
  with k \<open>r = 0 \<or> _\<close> show ?thesis by auto
qed

lemma add_mod_4: "(20 + k) mod 4 = k mod (4 :: nat)" "(4 + k) mod 4 = k mod (4 :: nat)"
  by presburger+

lemma frame_lengths_Inr:
  assumes "4 \<le> length bs" and "frame_lengths (take 4 bs) = Inr (len, padded)" and "len \<le> length bs"
  shows "turn_frame (take len bs) \<and> padded = len + pad_length (take len bs) \<and> 4 \<le> len"
proof -
  have len4: "4 \<le> len" using assms by (auto simp: frame_lengths_def Let_def split: if_splits)
  have n: "take len bs ! i = bs ! i" if "i < 4" for i using that len4 by simp
  have l: "length (take len bs) = len" using assms(3) by simp
  show ?thesis
    using assms(2) len4 unfolding frame_lengths_def turn_frame_def pad_length_def l
    by (auto simp: nth_take_4 [OF assms(1)] n Let_def round_up_4 add_mod_4 simp del: mod_0_imp_dvd split: if_splits)
qed

lemma frame_lengths_frame:
  assumes "turn_frame f"
  shows "frame_lengths (take 4 (f @ rest)) = Inr (length f, length f + pad_length f)"
proof -
  have "4 \<le> length f" using assms by (simp add: turn_frame_def)
  then have n: "take 4 (f @ rest) ! i = f ! i" if "i < 4" for i using that by (simp add: nth_append)
  from assms show ?thesis
    unfolding frame_lengths_def turn_frame_def pad_length_def
    by (elim conjE disjE) (simp_all add: n Let_def round_up_4 add_mod_4 del: mod_0_imp_dvd)
qed

lemma padding_pad_length: "turn_frame f \<Longrightarrow> length (padding f) = pad_length f"
  by (cases f) (simp_all add: padding_def pad_length_def turn_frame_def)


lemma read_frame_on_wire:
  assumes "turn_frame f" and "length f \<le> mtu" and "length pad = pad_length f"
  shows "read_frame mtu w (f @ pad @ rest) = (Inr f, rest)"
proof -
  have "4 \<le> length f" using assms(1) by (simp add: turn_frame_def)
  with frame_lengths_frame [OF assms(1), of "pad @ rest"] assms(2,3) show ?thesis
    by (simp add: read_frame_def)
qed

lemma read_frame_Inr:
  assumes "read_frame mtu w bs = (Inr f, rest)"
  shows "turn_frame f \<and> length f \<le> mtu \<and> (\<exists>pad. length pad = pad_length f \<and> bs = f @ pad @ rest)"
proof -
  from assms obtain len padded where l: "4 \<le> length bs" "frame_lengths (take 4 bs) = Inr (len, padded)"
    "len \<le> mtu" "padded \<le> length bs" "f = take len bs" "rest = drop padded bs"
    by (auto simp: read_frame_def split: if_splits sum.splits)
  have le: "len \<le> padded" using l(2) by (auto simp: frame_lengths_def Let_def round_up_4 split: if_splits)
  with l have "turn_frame f \<and> padded = len + pad_length f" using frame_lengths_Inr [OF l(1,2)] by simp
  moreover have "bs = f @ take (padded - len) (drop len bs) @ rest"
    using l le by (metis append_assoc append_take_drop_id le_add_diff_inverse take_add)
  ultimately show ?thesis using l le by (intro conjI exI [of _ "take (padded - len) (drop len bs)"]) auto
qed

interpretation turn_framing: framing "\<lambda>f. turn_frame f \<and> length f \<le> mtu" on_wire "read_opt mtu" for mtu
  by unfold_locales (simp add: on_wire_def read_opt_def read_frame_on_wire padding_pad_length)

lemma read_opt_Some: "read_opt mtu bs = Some (f, r) \<longleftrightarrow> read_frame mtu Eof bs = (Inr f, r)"
  by (auto simp: read_opt_def split: prod.splits sum.splits)

text \<open>Sending a list of frames, and receiving until a given number of frames has arrived.\<close>

definition send_all :: "bytes list \<Rightarrow> stream_conn \<Rightarrow> stream_conn" where
  "send_all fs c = fold (\<lambda>f c. snd (stream_send Write_ok f c)) fs c"

fun recv_all :: "nat \<Rightarrow> nat \<Rightarrow> stream_conn \<Rightarrow> (bytes list \<times> stream_conn) option" where
  "recv_all mtu 0 c = Some ([], c)"
| "recv_all mtu (Suc n) c =
     (case stream_recv False mtu Eof c of
        (Inl e, c') \<Rightarrow> None
      | (Inr f, c') \<Rightarrow> map_option (\<lambda>(fs, c''). (f # fs, c'')) (recv_all mtu n c'))"

lemma send_all_writer: "st_writer (send_all fs c) = st_writer c @ concat (map on_wire fs)"
  unfolding send_all_def by (induction fs arbitrary: c) (simp_all add: stream_send_def on_wire_def)

lemma recv_all_frames:
  "read_frames (read_opt mtu) n (st_reader c) = Some (fs, rest) \<Longrightarrow> recv_all mtu n c = Some (fs, c\<lparr>st_reader := rest\<rparr>)"
proof (induction n arbitrary: c fs)
  case (Suc n)
  from Suc.prems obtain f r gs where r: "read_frame mtu Eof (st_reader c) = (Inr f, r)" "fs = f # gs"
    "read_frames (read_opt mtu) n r = Some (gs, rest)"
    by (auto simp: read_opt_Some split: option.splits)
  then have "stream_recv False mtu Eof c = (Inr f, c\<lparr>st_reader := r\<rparr>)" by (simp add: stream_recv_def)
  with Suc.IH [of "c\<lparr>st_reader := r\<rparr>"] r show ?case by simp
qed auto

section \<open>Properties of the stream transport\<close>

text \<open>
  C32. \<open>read_frame\<close> is exactly the frame grammar: it returns a frame and a remainder if and only if
  the received bytes are that frame, its padding and the remainder, the frame is well formed, and
  it fits the buffer.
\<close>

theorem read_frame_grammar:
  "read_frame mtu w bs = (Inr f, rest) \<longleftrightarrow>
     turn_frame f \<and> length f \<le> mtu \<and> (\<exists>pad. length pad = pad_length f \<and> bs = f @ pad @ rest)"
  using read_frame_Inr [of mtu w bs f rest] read_frame_on_wire by blast

text \<open>
  C10. Frames sent one after the other arrive as the same frames in the same order, whatever the
  network does to segment boundaries, with nothing left over and the receiving connection open.
\<close>

theorem stream_roundtrip:
  assumes "list_all (\<lambda>f. turn_frame f \<and> length f \<le> mtu) fs"
  shows "recv_all mtu (length fs) (stream_new (st_writer (send_all fs (stream_new [] a b))) b a) =
    Some (fs, stream_new [] b a)"
proof -
  have "st_writer (send_all fs (stream_new [] a b)) = concat (map on_wire fs)"
    by (simp add: send_all_writer) (simp add: stream_new_def)
  with turn_framing.read_frames_concat [OF assms, of "[]"]
    recv_all_frames [of mtu "length fs" "stream_new (concat (map on_wire fs)) b a" fs "[]"]
  show ?thesis by (simp add: stream_new_def)
qed

theorem stream_roundtrip_witness:
  "recv_all 1500 2 (stream_new (st_writer (send_all [[0x40, 0, 0, 1, 7], replicate 20 0] (stream_new [] (Sock4 1 2) (Sock4 3 4)))) (Sock4 3 4) (Sock4 1 2)) =
     Some ([[0x40, 0, 0, 1, 7], replicate 20 0], stream_new [] (Sock4 3 4) (Sock4 1 2))"
proof -
  have "list_all (\<lambda>f. turn_frame f \<and> length f \<le> 1500) [[0x40, 0, 0, 1, 7], replicate 20 0]"
    by (simp add: turn_frame_def from_be_bytes_def drop_bit_eq_div)
  from stream_roundtrip [OF this, of "Sock4 1 2" "Sock4 3 4"] show ?thesis by (simp only: list.size numeral_2_eq_2 add_0 add_Suc)
qed

text \<open>
  A failed receive or send closes the connection and no later operation opens it again; a
  send that succeeds has put the whole padded frame on the wire; the peer never changes.
\<close>

lemma stream_failure_closes:
  "(case stream_recv cw n w c of (r, c') \<Rightarrow> st_closed c' = (st_closed c \<or> \<not> is_ok r) \<and> st_remote c' = st_remote c \<and> st_writer c' = st_writer c) \<and>
   (case stream_send_to env d a c of (r, c') \<Rightarrow>
      st_closed c' = (st_closed c \<or> \<not> is_ok r \<and> a = st_remote c) \<and> st_remote c' = st_remote c \<and> st_reader c' = st_reader c \<and>
      (if is_ok r then a = st_remote c \<and> st_writer c' = st_writer c @ on_wire d
       else \<exists>k. st_writer c' = st_writer c @ take k (on_wire d)))"
  by (auto simp: stream_recv_def stream_send_to_def stream_connect_def stream_send_def on_wire_def
      case_prod_unfold Let_def split: write_env.splits)

end
