(* ===== verification/Turn_Service.thy ===== *)
theory Turn_Service
  imports Config Turn_Credentials Turn_Relay Turn_Stream
begin

text \<open>
  \<open>src/src/turn/mod.rs\<close>: the built-in TURN server. The TURN library's \<open>Server\<close>, sockets and TLS are
  outside: a server is known by a number, \<open>make_server\<close> returns the settings it is created with,
  and revocation returns the calls of \<open>delete_allocations_by_username\<close> it makes. \<open>ts_servers\<close> are
  the weak references; a reference is live while some task still owns the server, which the
  argument \<open>strong\<close> decides.
\<close>

record turn_service =
  ts_config :: config
  ts_credentials :: credentials
  ts_servers :: "nat list"
  ts_shutdown :: bool
  ts_tasks :: nat

record server_settings =
  ss_relay_address :: ipv4
  ss_address :: ipv4
  ss_min_port :: u16
  ss_max_port :: u16
  ss_max_retries :: nat
  ss_public_ip :: ipv4
  ss_media_port :: u16
  ss_realm :: string
  ss_channel_bind_timeout_secs :: nat

text \<open>Outcomes of the operating system calls made when the service starts.\<close>

record start_env =
  se_bind_udp :: "unit result"
  se_bind_tcp :: "unit result"
  se_tls_identity :: "unit result"
  se_bind_tls :: "unit result"
  se_new_server :: "unit result"

text \<open>
  \<open>make_server\<close> has three parts, with a wait before the second and the third: the settings, the library's \<open>Server::new\<close>,
  and the registration, which drops the references whose server is gone.
\<close>

definition settings_for :: "turn_service \<Rightarrow> server_settings result" where
  "settings_for ts =
     (let t = cf_turn (ts_config ts)
      in case tc_public_ip t of
           None \<Rightarrow> Inl ''TURN public IP is missing''
         | Some ip \<Rightarrow>
             Inr \<lparr>ss_relay_address = ip, ss_address = LOCALHOST, ss_min_port = tc_relay_min_port t,
                  ss_max_port = tc_relay_max_port t, ss_max_retries = 100, ss_public_ip = ip,
                  ss_media_port = wc_udp_port (cf_webrtc (ts_config ts)), ss_realm = tc_realm t,
                  ss_channel_bind_timeout_secs = 600\<rparr>)"

definition register_server :: "(nat \<Rightarrow> bool) \<Rightarrow> nat \<Rightarrow> turn_service \<Rightarrow> turn_service" where
  "register_server strong srv ts = ts\<lparr>ts_servers := filter strong (ts_servers ts) @ [srv]\<rparr>"

definition make_server :: "(nat \<Rightarrow> bool) \<Rightarrow> unit result \<Rightarrow> nat \<Rightarrow> turn_service \<Rightarrow> server_settings result \<times> turn_service" where
  "make_server strong new_server srv ts =
     (case settings_for ts of
        Inl e \<Rightarrow> (Inl e, ts)
      | Inr settings \<Rightarrow> (case new_server of
          Inl e \<Rightarrow> (Inl e, ts)
        | Inr _ \<Rightarrow> (Inr settings, register_server strong srv ts)))"

lemmas make_server_unfold = make_server_def settings_for_def register_server_def Let_def

text \<open>The generator of relay sockets the settings hand to the library; \<open>inner\<close> is the library's own allocator.\<close>

definition relay_generator :: "server_settings \<Rightarrow> 'g \<Rightarrow> 'g media_relay_generator" where
  "relay_generator st inner = \<lparr>mg_inner = inner, mg_min_port = ss_min_port st, mg_max_port = ss_max_port st,
     mg_public_ip = ss_public_ip st, mg_media_port = ss_media_port st\<rparr>"

text \<open>
  \<open>start\<close> binds every listener before it spawns anything: the UDP closer, the TCP accept loop and, with a
  certificate and a key, the TLS accept loop.
\<close>

definition turn_start :: "start_env \<Rightarrow> config \<Rightarrow> turn_service result" where
  "turn_start env c =
    (case validate c of Inl e \<Rightarrow> Inl e
     | Inr _ \<Rightarrow>
     if \<not> tc_enabled (cf_turn c) then Inl ''TURN is disabled''
     else case se_bind_udp env of Inl e \<Rightarrow> Inl ''bind TURN UDP''
     | Inr _ \<Rightarrow> (case se_bind_tcp env of Inl e \<Rightarrow> Inl ''bind TURN TCP''
     | Inr _ \<Rightarrow>
       (let has_tls = (tc_tls_cert (cf_turn c) \<noteq> None \<and> tc_tls_key (cf_turn c) \<noteq> None);
            tls = (if has_tls then (case se_tls_identity env of Inl e \<Rightarrow> Inl e | Inr _ \<Rightarrow> se_bind_tls env) else Inr ())
        in case tls of Inl e \<Rightarrow> Inl e
        | Inr _ \<Rightarrow>
          (let ts = \<lparr>ts_config = c, ts_credentials = credentials_new (tc_realm (cf_turn c)) (tc_credential_ttl_secs (cf_turn c)),
                     ts_servers = [], ts_shutdown = False, ts_tasks = 0\<rparr>
           in case make_server (\<lambda>_. True) (se_new_server env) 0 ts of
                (Inl e, _) \<Rightarrow> Inl e
              | (Inr _, ts') \<Rightarrow> Inr (ts'\<lparr>ts_tasks := (if has_tls then 3 else 2)\<rparr>)))))"

section \<open>The accept loop\<close>

text \<open>
  One accept loop owns a semaphore of twice the connection limit; each accepted stream holds a
  permit until its task ends.
\<close>

record accept_state =
  ac_slots :: semaphore
  ac_clients :: "nat list"
  ac_stopped :: bool

datatype accept_event = Ev_shutdown | Ev_accepted nat | Ev_accept_error | Ev_client_done nat

definition accept_start :: "turn_service \<Rightarrow> accept_state" where
  "accept_start ts = \<lparr>ac_slots = sem_new (sc_max_connections (cf_server (ts_config ts)) * 2), ac_clients = [], ac_stopped = False\<rparr>"

definition accept_step :: "accept_event \<Rightarrow> accept_state \<Rightarrow> accept_state" where
  "accept_step ev a = (case ev of
     Ev_shutdown \<Rightarrow> a\<lparr>ac_stopped := True\<rparr>
   | Ev_accept_error \<Rightarrow> a\<lparr>ac_stopped := True\<rparr>
   | Ev_accepted client \<Rightarrow>
       if ac_stopped a then a
       else (case try_acquire_owned (ac_slots a) of
               None \<Rightarrow> a
             | Some slots \<Rightarrow> a\<lparr>ac_slots := slots, ac_clients := client # ac_clients a\<rparr>)
   | Ev_client_done client \<Rightarrow>
       if client \<in> set (ac_clients a)
       then a\<lparr>ac_slots := drop_permit (ac_slots a), ac_clients := remove1 client (ac_clients a)\<rparr>
       else a)"

section \<open>ICE configuration, revocation, shutdown\<close>

definition turn_urls :: "turn_config \<Rightarrow> string list" where
  "turn_urls t =
     [''stun:'' @ tc_public_host t @ '':'' @ dec (unat (tc_port t)),
      ''turn:'' @ tc_public_host t @ '':'' @ dec (unat (tc_port t)) @ ''?transport=udp'',
      ''turn:'' @ tc_public_host t @ '':'' @ dec (unat (tc_port t)) @ ''?transport=tcp''] @
     (if tc_tls_cert t \<noteq> None
      then [''turns:'' @ tc_public_host t @ '':'' @ dec (unat (tc_tls_port t)) @ ''?transport=tcp''] else [])"

definition turn_ice_config :: "auth_key_fn \<Rightarrow> uuid_draw \<Rightarrow> string list \<Rightarrow> nat \<Rightarrow> string \<Rightarrow> turn_service \<Rightarrow> ice_config \<times> turn_service" where
  "turn_ice_config gen d order now session ts =
     (let (ic, cs) = issue_at gen d order session (turn_urls (cf_turn (ts_config ts))) now (ts_credentials ts)
      in (ic, ts\<lparr>ts_credentials := cs\<rparr>))"

definition turn_revoke :: "(nat \<Rightarrow> bool) \<Rightarrow> string list \<Rightarrow> string \<Rightarrow> turn_service \<Rightarrow> (string \<times> nat) list \<times> turn_service" where
  "turn_revoke strong order session ts =
     (let (usernames, cs) = revoke order session (ts_credentials ts);
          servers = filter strong (ts_servers ts)
      in (concat (map (\<lambda>username. map (\<lambda>server. (username, server)) servers) usernames),
          ts\<lparr>ts_credentials := cs\<rparr>))"

definition turn_close :: "turn_service \<Rightarrow> turn_service" where
  "turn_close ts = ts\<lparr>ts_shutdown := True, ts_tasks := 0\<rparr>"

section \<open>Slots\<close>

definition accept_inv :: "nat \<Rightarrow> accept_state \<Rightarrow> bool" where
  "accept_inv n a \<longleftrightarrow> available_permits (ac_slots a) + length (ac_clients a) = n"

lemma accept_step_inv: "accept_inv n a \<Longrightarrow> accept_inv n (accept_step ev a)"
proof (cases ev)
  case (Ev_accepted client)
  assume "accept_inv n a"
  with Ev_accepted show ?thesis
    by (auto simp: accept_step_def accept_inv_def split: option.split dest: tokio_semaphore.acquire_Some)
next
  case (Ev_client_done client)
  assume "accept_inv n a"
  with Ev_client_done show ?thesis
    by (cases "client \<in> set (ac_clients a)")
      (auto simp: accept_step_def accept_inv_def tokio_semaphore.avail_release length_remove1 Suc_pred
        dest!: length_pos_if_in_set)
qed (simp_all add: accept_step_def accept_inv_def)

lemma accept_start_inv: "accept_inv (2 * sc_max_connections (cf_server (ts_config ts))) (accept_start ts)"
  by (simp add: accept_start_def accept_inv_def tokio_semaphore.avail_new)

definition accept_pool :: "accept_state \<Rightarrow> slot_pool" where
  "accept_pool a = \<lparr>po_reserved = 0, po_used = length (ac_clients a)\<rparr>"

lemma accept_step_pool:
  assumes "accept_inv n a"
  shows "accept_pool (accept_step ev a) = accept_pool a \<or> pool_step n (accept_pool a) (accept_pool (accept_step ev a))"
proof (cases ev)
  case (Ev_accepted client)
  show ?thesis
  proof (cases "try_acquire_owned (ac_slots a)")
    case (Some slots)
    have "pool_taken (accept_pool a) < n"
      using assms tokio_semaphore.acquire_Some [OF Some] by (simp add: accept_inv_def accept_pool_def pool_taken_def)
    from pool_admit [OF this] Some Ev_accepted show ?thesis by (simp add: accept_step_def accept_pool_def)
  qed (use Ev_accepted in \<open>simp add: accept_step_def\<close>)
next
  case (Ev_client_done client)
  show ?thesis
  proof (cases "client \<in> set (ac_clients a)")
    case True
    then have "0 < po_used (accept_pool a)" by (auto simp: accept_pool_def length_pos_if_in_set)
    from pool_free [OF this] True Ev_client_done show ?thesis by (simp add: accept_step_def accept_pool_def length_remove1)
  qed (use Ev_client_done in \<open>simp add: accept_step_def\<close>)
qed (simp_all add: accept_step_def accept_pool_def)

interpretation accept_system: simulation "\<lambda>a. a = accept_start ts" "\<lambda>a b. \<exists>ev. b = accept_step ev a"
  "accept_inv (2 * sc_max_connections (cf_server (ts_config ts)))"
  "\<lambda>q. q = pool_empty" "pool_step (2 * sc_max_connections (cf_server (ts_config ts)))" accept_pool for ts
proof unfold_locales
  fix a :: accept_state
  assume a: "a = accept_start ts"
  show "accept_inv (2 * sc_max_connections (cf_server (ts_config ts))) a" using a accept_start_inv by simp
  show "accept_pool a = pool_empty" using a by (simp add: accept_pool_def pool_empty_def accept_start_def)
qed (auto intro: accept_step_inv dest: accept_step_pool)

lemma accept_stopped: "ac_stopped a \<Longrightarrow> ac_stopped (accept_step ev a) \<and> set (ac_clients (accept_step ev a)) \<subseteq> set (ac_clients a)"
  by (cases ev) (auto simp: accept_step_def dest: subsetD [OF set_remove1_subset])

lemma accept_stopped_run:
  "ac_stopped a \<Longrightarrow> set (ac_clients (fold accept_step evs a)) \<subseteq> set (ac_clients a)"
  by (induction evs arbitrary: a) (use accept_stopped in \<open>fastforce+\<close>)

definition demo_turn_config :: config where
  "demo_turn_config = \<lparr>
     cf_server = \<lparr>sc_listen_addr = ''0.0.0.0'', sc_listen_port = 8080, sc_max_connections = 10, sc_allowed_origins = []\<rparr>,
     cf_mumble = \<lparr>mc_host = ''mumble'', mc_port = 64738, mc_accept_invalid_certs = False\<rparr>,
     cf_webrtc = \<lparr>wc_stun_servers = [], wc_udp_port = 50000, wc_public_ip = Some 0x01020304\<rparr>,
     cf_turn = turn_config_default\<lparr>tc_enabled := True, tc_public_ip := Some 0x01020304, tc_public_host := ''h''\<rparr>\<rparr>"

definition demo_turn_service :: turn_service where
  "demo_turn_service = \<lparr>ts_config = demo_turn_config, ts_credentials = credentials_new ''mumdota'' 3600,
     ts_servers = [0], ts_shutdown = False, ts_tasks = 2\<rparr>"

lemma demo_turn_config_ok: "config_ok demo_turn_config"
  by (auto intro!: exI [of _ 49160] simp: config_ok_def turn_ok_def demo_turn_config_def turn_config_default_def UNSPECIFIED_def
      is_multicast_def relay_ports_def valid_host_def is_ascii_alphanumeric_def drop_bit_eq_div of_char_def)

text \<open>A service that started has a valid configuration and a store made from it.\<close>

lemma turn_start_Inr:
  assumes "turn_start env c = Inr ts"
  shows "config_ok c \<and> tc_enabled (cf_turn c) \<and> ts_config ts = c \<and>
    ts_servers ts = [0] \<and>
    ts_credentials ts = credentials_new (tc_realm (cf_turn c)) (tc_credential_ttl_secs (cf_turn c))"
proof -
  have v: "validate c = Inr ()" "tc_enabled (cf_turn c)"
    using assms by (auto simp: turn_start_def split: sum.splits if_splits)
  from assms v show ?thesis
    by (auto simp: turn_start_def make_server_unfold validate_config_ok [of c "()", symmetric]
        split: sum.splits if_splits option.splits)
qed

definition demo_start_env :: start_env where
  "demo_start_env = \<lparr>se_bind_udp = Inr (), se_bind_tcp = Inr (), se_tls_identity = Inl ''none'', se_bind_tls = Inl ''none'', se_new_server = Inr ()\<rparr>"

lemma demo_turn_start: "turn_start demo_start_env demo_turn_config = Inr demo_turn_service"
proof -
  have "validate demo_turn_config = Inr ()" by (simp add: validate_config_ok demo_turn_config_ok)
  then show ?thesis
    by (simp add: turn_start_def demo_start_env_def make_server_unfold demo_turn_service_def demo_turn_config_def turn_config_default_def)
qed

section \<open>Properties of the TURN service\<close>

text \<open>
  C35. The ICE configuration of a session lists the STUN URL, the UDP and TCP TURN URLs and, with
  TLS, the TURNS URL, in this order; the STUN entry carries no credential, and the others carry
  one user name and password that the TURN server accepts until the announced expiry, more than
  ninety seconds ahead.
\<close>

theorem turn_ice_config_usable:
  assumes "cred_wf gen (ts_credentials ts)" and "iterates (purge_expired now (cs_entries (ts_credentials ts))) order"
    and "90 < cs_ttl (ts_credentials ts)"
  shows "\<exists>e u p. let (ic, ts') = turn_ice_config gen d order now s ts in
     map is_urls (ic_ice_servers ic) = turn_urls (cf_turn (ts_config ts)) \<and>
     map is_username (ic_ice_servers ic) = None # replicate (length (turn_urls (cf_turn (ts_config ts))) - 1) (Some u) \<and>
     map is_credential (ic_ice_servers ic) = None # replicate (length (turn_urls (cf_turn (ts_config ts))) - 1) (Some p) \<and>
     ic_expires_at ic = Some e \<and> now + 90 < e \<and>
     (\<forall>t. authenticate_at u (cs_realm (ts_credentials ts)) t (ts_credentials ts') =
        (if t < e then Inr (gen u (cs_realm (ts_credentials ts)) p) else Inl ''expired or unknown session credential''))"
proof -
  let ?urls = "turn_urls (cf_turn (ts_config ts))"
  obtain e u p where iss: "fst (issue_at gen d order s ?urls now (ts_credentials ts)) =
      \<lparr>ic_ice_servers = map (\<lambda>url. \<lparr>is_urls = url,
           is_username = (if starts_with ''turn'' url then Some u else None),
           is_credential = (if starts_with ''turn'' url then Some p else None)\<rparr>) ?urls,
       ic_expires_at = Some e\<rparr>" "now + 90 < e"
    "\<forall>t. authenticate_at u (cs_realm (ts_credentials ts)) t (snd (issue_at gen d order s ?urls now (ts_credentials ts))) =
         (if t < e then Inr (gen u (cs_realm (ts_credentials ts)) p) else Inl ''expired or unknown session credential'')"
    using issue_at_usable [OF assms, of d s ?urls] by blast
  then show ?thesis
    by (intro exI [of _ e] exI [of _ u] exI [of _ p])
      (simp add: turn_ice_config_def case_prod_unfold Let_def turn_urls_def numeral_eq_Suc)
qed

theorem turn_ice_config_usable_witness:
  "map is_urls (ic_ice_servers (fst (turn_ice_config demo_key demo_draw [] 10 ''alice'' demo_turn_service))) =
     [''stun:h:3478'', ''turn:h:3478?transport=udp'', ''turn:h:3478?transport=tcp'']"
proof -
  have "cred_wf demo_key (ts_credentials demo_turn_service)"
    "iterates (purge_expired 10 (cs_entries (ts_credentials demo_turn_service))) []"
    "90 < cs_ttl (ts_credentials demo_turn_service)"
    by (simp_all add: demo_turn_service_def cred_wf_def turn_simps)
  from turn_ice_config_usable [OF this, of demo_draw "''alice''"]
  have "map is_urls (ic_ice_servers (fst (turn_ice_config demo_key demo_draw [] 10 ''alice'' demo_turn_service))) =
      turn_urls (cf_turn (ts_config demo_turn_service))"
    by (auto simp: case_prod_unfold Let_def)
  then show ?thesis
    by (simp add: demo_turn_service_def demo_turn_config_def turn_config_default_def turn_urls_def dec.simps char_of_def bit_Suc_0_iff)
qed

text \<open>
  Revoking a session takes every one of its user names out of the credential store, so that none authenticates
  again, leaves all other user names alone, and asks every live TURN server to delete the
  allocations of exactly those user names.
\<close>

lemma turn_revoke_complete:
  assumes "keyed (ts_credentials ts)" and "iterates (cs_entries (ts_credentials ts)) order"
  shows "let (calls, ts') = turn_revoke strong order s ts in
     set calls = session_users (ts_credentials ts) s \<times> {srv \<in> set (ts_servers ts). strong srv} \<and>
     session_users (ts_credentials ts') s = {} \<and>
     (\<forall>u t. authenticate_at u (cs_realm (ts_credentials ts)) t (ts_credentials ts') =
        (if u \<in> session_users (ts_credentials ts) s then Inl ''expired or unknown session credential''
         else authenticate_at u (cs_realm (ts_credentials ts)) t (ts_credentials ts)))"
proof -
  have "session_users (snd (revoke order s (ts_credentials ts))) s = {}"
    using revoke_users [of order s "ts_credentials ts" s] by (simp add: revoke_op_def)
  with revoke_effect [OF assms, of s] show ?thesis
    by (auto simp: turn_revoke_def case_prod_unfold Let_def)
qed

text \<open>
  An accept loop never serves more than twice the configured number of connections at once,
  and every stream that ends gives its slot back: free slots and running streams always add up.
\<close>

lemma accept_slots_conserved:
  assumes "reachable (\<lambda>a. a = accept_start ts) (\<lambda>a b. \<exists>ev. b = accept_step ev a) a"
  shows "available_permits (ac_slots a) + length (ac_clients a) = 2 * sc_max_connections (cf_server (ts_config ts))"
  using accept_system.reachable_inv [OF assms] by (simp add: accept_inv_def)

text \<open>
  A single failed \<open>accept\<close> ends the loop for good: whatever happens afterwards, no further
  stream is served on that listener, although the service was not shut down.
\<close>

lemma accept_error_is_final:
  "set (ac_clients (fold accept_step evs (accept_step Ev_accept_error a))) \<subseteq> set (ac_clients a)"
  using accept_stopped_run [of "accept_step Ev_accept_error a" evs] by (simp add: accept_step_def)

end
