(* ===== verification/Opus.thy ===== *)
theory Opus
  imports Prelude
begin

text \<open>
  The Opus packet header functions of \<open>src/src/bridge.rs\<close>: number of frames, samples per frame,
  total samples, duration. The reference is the configuration table of the Opus specification
  (RFC 6716, section 3.1), written as a list of frame durations; the lemmas show that the code's
  shifts and divisions compute that table, that no 32-bit product overflows, and which packets
  are refused.
\<close>

datatype opus_error = EmptyPacket | MissingCountByte | ZeroFrames | InvalidCode | TooLong

definition OPUS_SAMPLE_RATE :: u32 where
  "OPUS_SAMPLE_RATE = 48000"

definition MAX_OPUS_PACKET_SAMPLES :: u32 where
  "MAX_OPUS_PACKET_SAMPLES = (OPUS_SAMPLE_RATE div 1000) * 120"

definition opus_packet_frame_count :: "bytes \<Rightarrow> opus_error + u8" where
  "opus_packet_frame_count packet =
     (case packet of
        [] \<Rightarrow> Inl EmptyPacket
      | toc # _ \<Rightarrow>
          (let code = toc AND 0x03
           in if code = 0 then Inr 1
              else if code = 1 \<or> code = 2 then Inr 2
              else if code = 3 then
                (if length packet \<le> 1 then Inl MissingCountByte
                 else (let frame_count = packet ! 1 AND 0x3F
                       in if frame_count = 0 then Inl ZeroFrames else Inr frame_count))
              else Inl InvalidCode))"

definition opus_packet_samples_per_frame :: "bytes \<Rightarrow> opus_error + u32" where
  "opus_packet_samples_per_frame packet =
     (case packet of
        [] \<Rightarrow> Inl EmptyPacket
      | toc # _ \<Rightarrow>
          (let config = drop_bit 3 toc
           in Inr (if config \<ge> 16 then push_bit (unat (config AND 0x03)) OPUS_SAMPLE_RATE div 400
                   else if config \<ge> 12 then push_bit (unat (config AND 0x01)) OPUS_SAMPLE_RATE div 100
                   else if config AND 0x03 = 0x03 then (OPUS_SAMPLE_RATE * 60) div 1000
                   else push_bit (unat (config AND 0x03)) OPUS_SAMPLE_RATE div 100)))"

definition opus_packet_total_samples :: "bytes \<Rightarrow> opus_error + u32" where
  "opus_packet_total_samples packet =
     (case opus_packet_frame_count packet of
        Inl e \<Rightarrow> Inl e
      | Inr frame_count \<Rightarrow>
          (case opus_packet_samples_per_frame packet of
             Inl e \<Rightarrow> Inl e
           | Inr samples_per_frame \<Rightarrow>
               (let total_samples = (ucast frame_count :: u32) * samples_per_frame
                in if total_samples > MAX_OPUS_PACKET_SAMPLES then Inl TooLong
                   else Inr total_samples)))"

definition opus_packet_duration :: "bytes \<Rightarrow> opus_error + nat" where
  "opus_packet_duration packet =
     (case opus_packet_total_samples packet of
        Inl e \<Rightarrow> Inl e
      | Inr total_samples \<Rightarrow>
          Inr (unat ((1000000000 * (ucast total_samples :: u64)) div (ucast OPUS_SAMPLE_RATE :: u64))))"

text \<open>
  RFC 6716, table 2: the frame duration in microseconds of each of the 32 configurations, and the
  number of frames of a packet by its code and count byte.
\<close>

definition rfc6716_frame_us :: "nat list" where
  "rfc6716_frame_us =
     [10000, 20000, 40000, 60000, 10000, 20000, 40000, 60000, 10000, 20000, 40000, 60000,
      10000, 20000, 10000, 20000,
      2500, 5000, 10000, 20000, 2500, 5000, 10000, 20000,
      2500, 5000, 10000, 20000, 2500, 5000, 10000, 20000]"

definition rfc6716_frames :: "bytes \<Rightarrow> nat" where
  "rfc6716_frames packet =
     (case packet of [] \<Rightarrow> 0
      | [toc] \<Rightarrow> (case unat toc mod 4 of 0 \<Rightarrow> 1 | Suc n \<Rightarrow> if n < 2 then 2 else 0)
      | toc # m # _ \<Rightarrow> (case unat toc mod 4 of 0 \<Rightarrow> 1 | Suc n \<Rightarrow> if n < 2 then 2 else unat m mod 64))"

definition rfc6716_packet_us :: "bytes \<Rightarrow> nat" where
  "rfc6716_packet_us packet =
     (case packet of [] \<Rightarrow> 0
      | toc # _ \<Rightarrow> rfc6716_frames packet * rfc6716_frame_us ! (unat toc div 8))"

text \<open>The samples of one frame by configuration number, in closed form.\<close>

definition config_samples :: "nat \<Rightarrow> nat" where
  "config_samples n =
     (if 16 \<le> n then 120 * 2 ^ (n mod 4) else if 12 \<le> n then 480 * 2 ^ (n mod 2)
      else if n mod 4 = 3 then 2880 else 480 * 2 ^ (n mod 4))"

section \<open>The header fields as numbers\<close>

lemma and_mask_unat: "unat (x AND mask n :: 'a::len word) = unat x mod 2 ^ n"
  by (simp flip: take_bit_eq_mask take_bit_nat_def add: unsigned_take_bit_eq)

lemma and_1_unat: "unat (x AND 1 :: u8) = unat x mod 2"
  using and_mask_unat [of x 1] by (simp add: mask_eq_exp_minus_1)

lemma and_3_unat: "unat (x AND 3 :: u8) = unat x mod 4"
  using and_mask_unat [of x 2] by (simp add: mask_eq_exp_minus_1)

lemma and_63_unat: "unat (x AND 63 :: u8) = unat x mod 64"
  using and_mask_unat [of x 6] by (simp add: mask_eq_exp_minus_1)

lemma unat_drop_bit: "unat (drop_bit n x :: 'a::len word) = unat x div 2 ^ n"
  by (simp add: unat_drop_bit_eq drop_bit_nat_def)

lemma word_eq_numeral_unat:
  "(x :: u8) = 0 \<longleftrightarrow> unat x = 0" "(x :: u8) = 1 \<longleftrightarrow> unat x = 1" "(x :: u8) = 2 \<longleftrightarrow> unat x = 2"
  "(x :: u8) = 3 \<longleftrightarrow> unat x = 3"
  by (simp_all add: word_unat_eq_iff)

lemma shift_rate: "k < 4 \<Longrightarrow> unat (push_bit k OPUS_SAMPLE_RATE) = 48000 * 2 ^ k"
proof -
  assume "k < 4"
  then consider "k = 0" | "k = 1" | "k = 2" | "k = 3" by linarith
  then show ?thesis by cases (simp_all add: OPUS_SAMPLE_RATE_def)
qed

lemma config_samples_table: "n < 32 \<Longrightarrow> config_samples n * 1000000 = 48000 * rfc6716_frame_us ! n"
proof -
  let ?cs = "[0,1,2,3,4,5,6,7,8,9,10,11,12,13,14,15,16,17,18,19,20,21,22,23,24,25,26,27,28,29,30,31] :: nat list"
  assume "n < 32"
  then have "n \<in> set ?cs"
    by (simp only: set_simps insert_iff empty_iff simp_thms) presburger
  moreover have "list_all (\<lambda>n. config_samples n * 1000000 = 48000 * rfc6716_frame_us ! n) ?cs"
    by (simp add: config_samples_def rfc6716_frame_us_def)
  ultimately show ?thesis unfolding list_all_iff by blast
qed

lemma config_samples_le: "config_samples n \<le> 2880"
proof -
  have "(2::nat) ^ (n mod 4) \<le> 2 ^ 3" by (intro power_increasing) auto
  moreover have "(2::nat) ^ (n mod 2) \<le> 2 ^ 1" by (intro power_increasing) auto
  moreover have "(2::nat) ^ (n mod 4) \<le> 2 ^ 2" if "n mod 4 \<noteq> 3"
    using that by (intro power_increasing) auto
  ultimately show ?thesis by (auto simp: config_samples_def)
qed

section \<open>The code computes the reference table\<close>

lemma samples_per_frame_unat:
  "opus_packet_samples_per_frame (toc # rest) = Inr s \<Longrightarrow> unat s = config_samples (unat toc div 8)"
proof -
  let ?c = "drop_bit 3 toc :: u8"
  assume "opus_packet_samples_per_frame (toc # rest) = Inr s"
  then have s: "s = (if ?c \<ge> 16 then push_bit (unat (?c AND 0x03)) OPUS_SAMPLE_RATE div 400
                   else if ?c \<ge> 12 then push_bit (unat (?c AND 0x01)) OPUS_SAMPLE_RATE div 100
                   else if ?c AND 0x03 = 0x03 then (OPUS_SAMPLE_RATE * 60) div 1000
                   else push_bit (unat (?c AND 0x03)) OPUS_SAMPLE_RATE div 100)"
    by (simp add: opus_packet_samples_per_frame_def Let_def)
  have c: "unat ?c = unat toc div 8" by (simp add: unat_drop_bit)
  have "(48000 * 2 ^ k) div 400 = (120 * 2 ^ k :: nat)" and "(48000 * 2 ^ k) div 100 = (480 * 2 ^ k :: nat)"
    for k :: nat
    by linarith+
  moreover have "unat (OPUS_SAMPLE_RATE * 60) = 2880000" by (simp add: OPUS_SAMPLE_RATE_def)
  ultimately show ?thesis
    unfolding s
    by (auto simp: word_le_nat_alt c and_3_unat and_1_unat shift_rate unat_div word_eq_numeral_unat
        config_samples_def)
qed

lemma samples_per_frame_total: "\<exists>s. opus_packet_samples_per_frame (toc # rest) = Inr s"
  by (simp add: opus_packet_samples_per_frame_def Let_def)

lemma frame_count_unat:
  "opus_packet_frame_count p = Inr n \<Longrightarrow> unat n = rfc6716_frames p \<and> 0 < unat n \<and> unat n < 64"
  by (auto simp: opus_packet_frame_count_def rfc6716_frames_def Let_def word_eq_numeral_unat
      and_3_unat and_63_unat split: list.splits if_splits nat.splits)

lemma frame_count_error:
  "opus_packet_frame_count p = Inl e \<Longrightarrow> rfc6716_frames p = 0"
  by (auto simp: opus_packet_frame_count_def rfc6716_frames_def Let_def word_eq_numeral_unat
      and_3_unat and_63_unat split: list.splits if_splits nat.splits)

lemma total_samples_product:
  assumes "opus_packet_frame_count (toc # rest) = Inr fc" and "opus_packet_samples_per_frame (toc # rest) = Inr spf"
  shows "unat (ucast fc * spf :: u32) = unat fc * unat spf"
proof -
  have "unat fc < 64" "unat spf \<le> 2880"
    using frame_count_unat [OF assms(1)] samples_per_frame_unat [OF assms(2)]
      config_samples_le [of "unat toc div 8"] by simp_all
  then have "unat fc * unat spf \<le> 64 * 2880" by (intro mult_mono) auto
  moreover have "unat (ucast fc :: u32) = unat fc" by (simp add: unsigned_ucast_eq take_bit_nat_eq_self_iff unsigned_less [THEN less_trans])
  ultimately show ?thesis by (simp add: unat_word_ariths)
qed

lemma max_samples_unat: "unat MAX_OPUS_PACKET_SAMPLES = 5760"
  by (simp add: MAX_OPUS_PACKET_SAMPLES_def OPUS_SAMPLE_RATE_def)

lemma packet_us_samples:
  assumes "opus_packet_frame_count (toc # rest) = Inr fc" and "opus_packet_samples_per_frame (toc # rest) = Inr spf"
  shows "unat fc * unat spf * 1000000 = 48000 * rfc6716_packet_us (toc # rest)"
proof -
  have "unat toc < 256" using unsigned_less [of toc] by simp
  then have "config_samples (unat toc div 8) * 1000000 = 48000 * rfc6716_frame_us ! (unat toc div 8)"
    by (intro config_samples_table) linarith
  then show ?thesis
    using frame_count_unat [OF assms(1)] samples_per_frame_unat [OF assms(2)]
    by (simp add: rfc6716_packet_us_def algebra_simps)
qed

text \<open>
  C8. \<open>opus_packet_total_samples\<close> accepts exactly the packets whose RFC 6716 header announces at
  least one frame and at most 120 ms, and then returns the duration in 48 kHz samples; in
  particular the 32-bit product never wraps.
\<close>

theorem opus_total_samples_rfc6716:
  "opus_packet_total_samples p = Inr n \<longleftrightarrow>
     0 < rfc6716_frames p \<and> rfc6716_packet_us p \<le> 120000 \<and> unat n * 1000000 = 48000 * rfc6716_packet_us p"
proof (cases p)
  case Nil
  then show ?thesis
    by (simp add: opus_packet_total_samples_def opus_packet_frame_count_def rfc6716_frames_def)
next
  case (Cons toc rest)
  obtain spf where spf: "opus_packet_samples_per_frame p = Inr spf"
    using samples_per_frame_total Cons by blast
  show ?thesis
  proof (cases "opus_packet_frame_count p")
    case (Inl e)
    with frame_count_error show ?thesis by (auto simp: opus_packet_total_samples_def)
  next
    case (Inr fc)
    note prod = total_samples_product [of toc rest, folded Cons, OF Inr spf]
    note us = packet_us_samples [of toc rest, folded Cons, OF Inr spf]
    have "opus_packet_total_samples p = Inr n \<longleftrightarrow> unat fc * unat spf \<le> 5760 \<and> unat n = unat fc * unat spf"
      by (auto simp: opus_packet_total_samples_def Inr spf Let_def word_less_nat_alt prod max_samples_unat
          word_unat_eq_iff)
    moreover have "0 < rfc6716_frames p" using frame_count_unat [OF Inr] by simp
    ultimately show ?thesis using us by (auto simp: algebra_simps)
  qed
qed

lemma total_samples_bounds:
  "opus_packet_total_samples p = Inr n \<Longrightarrow> unat n \<le> 5760 \<and> p \<noteq> []"
  by (auto simp: opus_packet_total_samples_def opus_packet_frame_count_def Let_def
      word_less_nat_alt not_less max_samples_unat split: sum.splits if_splits)

end
