(* ===== verification/Media_Types.thy ===== *)
theory Media_Types
  imports Opus
begin

text \<open>
  The packet types that pass between the Mumble voice socket, the audio bridge and the WebRTC
  tracks (\<open>mumble/voice.rs\<close>, \<open>webrtc/audio.rs\<close>), and the operations of the WebRTC library that
  MumDota calls on a peer connection. The library is a parameter: \<open>peer_ops\<close> is the record of
  its operations on an abstract peer state \<open>'p\<close> with RTP senders \<open>'snd\<close>; each operation
  returns a result and the new peer state.
\<close>

record mumble_voice_data =
  mv_session_id :: u32
  mv_seq_num :: u64
  mv_opus_data :: bytes
  mv_last_frame :: bool
  mv_received_at :: instant

record webrtc_voice_data =
  wv_seq_num :: u64
  wv_opus_data :: bytes
  wv_last_frame :: bool

record incoming_audio_packet =
  ia_opus_data :: bytes
  ia_seq_num :: u16
  ia_timestamp :: u32
  ia_received_at :: instant

record rtp_header =
  rh_version :: nat
  rh_sequence_number :: u16
  rh_timestamp :: u32
  rh_marker :: bool

record rtp_packet =
  rp_header :: rtp_header
  rp_payload :: bytes

record rtp_track =
  tr_mime_type :: string
  tr_clock_rate :: nat
  tr_channels :: nat
  tr_fmtp :: string
  tr_id :: string
  tr_stream_id :: string

record ice_candidate_init =
  ic_candidate :: string
  ic_sdp_mid :: "string option"
  ic_sdp_mline_index :: "u16 option"

datatype signaling_state =
  Stable | HaveLocalOffer | HaveRemoteOffer | HaveLocalPranswer | HaveRemotePranswer | ClosedSignaling

datatype peer_connection_state =
  PcUnspecified | PcNew | PcConnecting | PcConnected | PcDisconnected | PcFailed | PcClosed

record ('p, 'snd) peer_ops =
  signaling_state :: "'p \<Rightarrow> signaling_state"
  remote_description :: "'p \<Rightarrow> string option"
  create_offer :: "bool \<Rightarrow> 'p \<Rightarrow> string result \<times> 'p"
  set_local_description :: "string \<Rightarrow> 'p \<Rightarrow> unit result \<times> 'p"
  answer_description :: "string \<Rightarrow> string result"
  set_remote_description :: "string \<Rightarrow> 'p \<Rightarrow> unit result \<times> 'p"
  peer_add_ice_candidate :: "ice_candidate_init \<Rightarrow> 'p \<Rightarrow> unit result \<times> 'p"
  add_track :: "rtp_track \<Rightarrow> 'p \<Rightarrow> 'snd result \<times> 'p"
  remove_track :: "'snd \<Rightarrow> 'p \<Rightarrow> unit result \<times> 'p"
  write_rtp :: "rtp_track \<Rightarrow> rtp_packet \<Rightarrow> 'p \<Rightarrow> unit result \<times> 'p"
  peer_close :: "'p \<Rightarrow> unit result \<times> 'p"

datatype webrtc_event =
    ConnectionStateChanged peer_connection_state
  | IceCandidateEvent ice_candidate_init
  | NegotiationNeeded

definition opus_error_message :: "opus_error \<Rightarrow> string" where
  "opus_error_message e =
     (case e of
        EmptyPacket \<Rightarrow> ''empty Opus packet''
      | MissingCountByte \<Rightarrow> ''Opus packet with VBR/CBR frame count is missing the count byte''
      | ZeroFrames \<Rightarrow> ''Opus packet declares zero frames''
      | InvalidCode \<Rightarrow> ''invalid Opus frame count code''
      | TooLong \<Rightarrow> ''Opus packet duration exceeds 120ms'')"

text \<open>
  A concrete in-memory peer, used to instantiate the parameter in the closed examples: it follows
  the offer/answer states and records what it is handed.
\<close>

record sim_peer =
  sim_signaling :: signaling_state
  sim_remote :: "string option"
  sim_tracks :: "rtp_track list"
  sim_rtp :: "(string \<times> rtp_packet) list"
  sim_candidates :: "ice_candidate_init list"

definition sim_peer_new :: sim_peer where
  "sim_peer_new = \<lparr>sim_signaling = Stable, sim_remote = None, sim_tracks = [], sim_rtp = [], sim_candidates = []\<rparr>"

definition sim_peer_ops :: "(sim_peer, nat) peer_ops" where
  "sim_peer_ops = \<lparr>
     signaling_state = sim_signaling,
     remote_description = sim_remote,
     create_offer = (\<lambda>restart p. (Inr (if restart then ''offer-restart'' else ''offer''), p)),
     set_local_description = (\<lambda>sdp p. (Inr (), p\<lparr>sim_signaling := HaveLocalOffer\<rparr>)),
     answer_description = (\<lambda>sdp. if sdp = [] then Inl ''empty sdp'' else Inr sdp),
     set_remote_description = (\<lambda>sdp p.
       if sim_signaling p = HaveLocalOffer
       then (Inr (), p\<lparr>sim_signaling := Stable, sim_remote := Some sdp\<rparr>)
       else (Inl ''invalid state'', p)),
     peer_add_ice_candidate = (\<lambda>c p. (Inr (), p\<lparr>sim_candidates := sim_candidates p @ [c]\<rparr>)),
     add_track = (\<lambda>tr p. (Inr (length (sim_tracks p)), p\<lparr>sim_tracks := sim_tracks p @ [tr]\<rparr>)),
     remove_track = (\<lambda>sender p. (Inr (), p)),
     write_rtp = (\<lambda>tr pkt p. (Inr (), p\<lparr>sim_rtp := sim_rtp p @ [(tr_stream_id tr, pkt)]\<rparr>)),
     peer_close = (\<lambda>p. (Inr (), p\<lparr>sim_signaling := ClosedSignaling\<rparr>))\<rparr>"

end
