(* ===== verification/Messages.thy ===== *)
theory Messages
  imports Turn_Credentials Media_Types
begin

text \<open>
  \<open>src/src/ws/messages.rs\<close>: the messages of the WebSocket protocol. The JSON encoding that the
  derive macros generate is a parameter of \<open>to_json\<close>.
\<close>

record connect_data = cd_username :: string

record offer_data = od_sdp :: string

record ice_candidate_data =
  id_candidate :: string
  id_sdp_mid :: "string option"
  id_sdp_mline_index :: "u16 option"

record chat_send_data =
  csd_channel_id :: u32
  csd_message :: string

record channel_join_data = cj_channel_id :: u32

record mute_data = md_muted :: bool

record deafen_data = dd_deafened :: bool

record answer_data = ad_sdp :: string

datatype client_message =
  Connect connect_data
| Disconnect
| Offer offer_data
| Answer answer_data
| StartVoice
| IceRestart
| IceRefresh
| IceCandidate ice_candidate_data
| ChatSend chat_send_data
| ChannelJoin channel_join_data
| Mute mute_data
| Deafen deafen_data

record channel_info =
  ch_id :: u32
  ch_name :: string
  ch_parent_id :: u32
  ch_description :: string

record user_info =
  ui_session_id :: u32
  ui_name :: string
  ui_channel_id :: u32
  ui_mute :: bool
  ui_deaf :: bool
  ui_self_mute :: bool
  ui_self_deaf :: bool

record connected_data =
  cn_protocol_version :: u8
  cn_ice :: ice_config
  cn_session_id :: u32
  cn_channels :: "channel_info list"
  cn_users :: "user_info list"

record user_left_data = ul_session_id :: u32

record user_state_data =
  us_session_id :: u32
  us_channel_id :: "u32 option"
  us_name :: "string option"
  us_mute :: "bool option"
  us_deaf :: "bool option"
  us_self_mute :: "bool option"
  us_self_deaf :: "bool option"

record chat_received_data =
  cr_sender_session :: u32
  cr_sender_name :: string
  cr_channel_id :: u32
  cr_message :: string
  cr_timestamp :: nat

record channel_updated_data = cu_channels :: "channel_info list"

record error_data =
  ed_code :: string
  ed_message :: string

datatype server_message =
  SOffer offer_data
| SIceCandidate ice_candidate_data
| SIceConfig ice_config
| SConnected connected_data
| SUserJoined user_info
| SUserLeft user_left_data
| SUserState user_state_data
| SChatReceived chat_received_data
| SChannelUpdated channel_updated_data
| SError error_data

definition server_error :: "string \<Rightarrow> string \<Rightarrow> server_message" where
  "server_error code message = SError \<lparr>ed_code = code, ed_message = message\<rparr>"

text \<open>The double quote, which a HOL string literal cannot contain directly.\<close>

definition dq :: string where
  "dq = [char_of (34 :: nat)]"

definition to_json :: "(server_message \<Rightarrow> string result) \<Rightarrow> server_message \<Rightarrow> string" where
  "to_json ser m = (case ser m of
     Inr s \<Rightarrow> s
   | Inl e \<Rightarrow> ''{'' @ dq @ ''type'' @ dq @ '':'' @ dq @ ''error'' @ dq @ '','' @ dq @ ''data'' @ dq @ '':{'' @
       dq @ ''code'' @ dq @ '':'' @ dq @ ''serialize_error'' @ dq @ '','' @ dq @ ''message'' @ dq @ '':'' @ dq @ e @ dq @ ''}}'')"

definition error_code :: "server_message \<Rightarrow> string option" where
  "error_code m = (case m of SError e \<Rightarrow> Some (ed_code e) | _ \<Rightarrow> None)"

lemma error_code_server_error [simp]: "error_code (server_error c t) = Some c"
  by (simp add: error_code_def server_error_def)

end
