(* ===== verification/Mumble_Client.thy ===== *)
theory Mumble_Client
  imports Messages
begin

text \<open>
  \<open>src/src/mumble/proto.rs\<close> and \<open>src/src/mumble/client.rs\<close>: the control connection to the Mumble
  server. A protobuf message is a record of the fields the sources read or write, each an option
  that is \<open>None\<close> when absent; a getter returns the field or its protobuf default. TLS, the
  framing codec and the cipher are outside: a crypt state is the three byte arrays it is made from, the order
  of a hash map's values is an argument, and a send to the server may fail.
\<close>

section \<open>Protobuf messages\<close>

record version_msg =
  ve_version :: "u32 option"
  ve_release :: "string option"
  ve_os :: "string option"
  ve_os_version :: "string option"

record authenticate_msg =
  au_username :: "string option"
  au_opus :: "bool option"

record text_message_msg =
  tm_actor :: "u32 option"
  tm_channel_id :: "u32 list"
  tm_message :: "string option"

record user_state_msg =
  um_session :: "u32 option"
  um_name :: "string option"
  um_channel_id :: "u32 option"
  um_mute :: "bool option"
  um_deaf :: "bool option"
  um_self_mute :: "bool option"
  um_self_deaf :: "bool option"

record channel_state_msg =
  cm_channel_id :: "u32 option"
  cm_name :: "string option"
  cm_parent :: "u32 option"
  cm_description :: "string option"

record crypt_setup_msg =
  cy_key :: "bytes option"
  cy_client_nonce :: "bytes option"
  cy_server_nonce :: "bytes option"

text \<open>\<open>rj_type\<close> is the debug text of the rejection's type.\<close>

record reject_msg =
  rj_type :: string
  rj_reason :: "string option"

record ping_msg = pm_timestamp :: "nat option"

definition get_u32 :: "u32 option \<Rightarrow> u32" where
  "get_u32 f = (case f of Some x \<Rightarrow> x | None \<Rightarrow> 0)"

definition get_str :: "string option \<Rightarrow> string" where
  "get_str f = (case f of Some x \<Rightarrow> x | None \<Rightarrow> [])"

definition get_bool :: "bool option \<Rightarrow> bool" where
  "get_bool f = (case f of Some x \<Rightarrow> x | None \<Rightarrow> False)"

definition get_bytes :: "bytes option \<Rightarrow> bytes" where
  "get_bytes f = (case f of Some x \<Rightarrow> x | None \<Rightarrow> [])"

definition empty_user_state :: user_state_msg where
  "empty_user_state = \<lparr>um_session = None, um_name = None, um_channel_id = None, um_mute = None, um_deaf = None,
     um_self_mute = None, um_self_deaf = None\<rparr>"

definition build_version_message :: version_msg where
  "build_version_message = \<lparr>ve_version = Some 0x00010400, ve_release = Some ''mumdota 0.1.0'', ve_os = Some ''Linux'', ve_os_version = Some ''Rust''\<rparr>"

definition build_authenticate_message :: "string \<Rightarrow> authenticate_msg" where
  "build_authenticate_message username = \<lparr>au_username = Some username, au_opus = Some True\<rparr>"

definition build_text_message :: "u32 \<Rightarrow> string \<Rightarrow> text_message_msg" where
  "build_text_message channel_id message = \<lparr>tm_actor = None, tm_channel_id = [channel_id], tm_message = Some message\<rparr>"

definition build_user_state_channel :: "u32 \<Rightarrow> user_state_msg" where
  "build_user_state_channel channel_id = empty_user_state\<lparr>um_channel_id := Some channel_id\<rparr>"

definition build_user_state_mute :: "bool \<Rightarrow> user_state_msg" where
  "build_user_state_mute self_mute = empty_user_state\<lparr>um_self_mute := Some self_mute\<rparr>"

definition build_user_state_deaf :: "bool \<Rightarrow> user_state_msg" where
  "build_user_state_deaf self_deaf =
     (let msg = empty_user_state\<lparr>um_self_deaf := Some self_deaf\<rparr>
      in if self_deaf then msg\<lparr>um_self_mute := Some True\<rparr> else msg)"

definition build_ping :: "nat \<Rightarrow> ping_msg" where
  "build_ping now = \<lparr>pm_timestamp = Some now\<rparr>"

section \<open>The client\<close>

datatype mumble_event =
  M_connected u32 "channel_info list" "user_info list"
| M_user_joined user_info
| M_user_left u32
| M_user_state_changed user_state_data
| M_channel_added channel_info
| M_channel_updated channel_info
| M_channel_removed u32
| M_chat_message u32 u32 string
| M_disconnected string

datatype mumble_command =
  C_send_chat u32 string
| C_join_channel u32
| C_set_mute bool
| C_set_deaf bool
| C_disconnect

datatype control_packet =
  P_channel_state channel_state_msg
| P_channel_remove u32
| P_user_state user_state_msg
| P_user_remove u32
| P_crypt_setup crypt_setup_msg
| P_server_sync "u32 option"
| P_text_message text_message_msg
| P_reject reject_msg
| P_other

datatype server_packet =
  S_version version_msg
| S_authenticate authenticate_msg
| S_text text_message_msg
| S_user_state user_state_msg
| S_ping ping_msg

record crypt_state =
  ks_key :: bytes
  ks_client_nonce :: bytes
  ks_server_nonce :: bytes

text \<open>The sizes of the cipher (OCB2 with AES-128) that the protocol library exports.\<close>

definition KEY_SIZE :: nat where "KEY_SIZE = 16"

definition BLOCK_SIZE :: nat where "BLOCK_SIZE = 16"

definition fixed_size_bytes :: "nat \<Rightarrow> bytes \<Rightarrow> string \<Rightarrow> bytes result" where
  "fixed_size_bytes n b field_name =
     (if length b = n then Inr b
      else Inl (''Invalid '' @ field_name @ '' size from server: expected '' @ dec n @ '' bytes, got '' @ dec (length b)))"

definition crypt_state_from_message :: "crypt_setup_msg \<Rightarrow> crypt_state result" where
  "crypt_state_from_message msg =
     (case fixed_size_bytes KEY_SIZE (get_bytes (cy_key msg)) ''key'' of
        Inl e \<Rightarrow> Inl e
      | Inr key \<Rightarrow> (case fixed_size_bytes BLOCK_SIZE (get_bytes (cy_client_nonce msg)) ''client nonce'' of
          Inl e \<Rightarrow> Inl e
        | Inr client_nonce \<Rightarrow> (case fixed_size_bytes BLOCK_SIZE (get_bytes (cy_server_nonce msg)) ''server nonce'' of
            Inl e \<Rightarrow> Inl e
          | Inr server_nonce \<Rightarrow>
              Inr \<lparr>ks_key = key, ks_client_nonce = client_nonce, ks_server_nonce = server_nonce\<rparr>)))"

definition or_else :: "'a option \<Rightarrow> 'a \<Rightarrow> 'a" where
  "or_else f old = (case f of Some x \<Rightarrow> x | None \<Rightarrow> old)"

definition merge_user_state :: "user_info \<Rightarrow> user_state_msg \<Rightarrow> user_info" where
  "merge_user_state existing msg =
     \<lparr>ui_session_id = ui_session_id existing,
      ui_name = or_else (um_name msg) (ui_name existing),
      ui_channel_id = or_else (um_channel_id msg) (ui_channel_id existing),
      ui_mute = or_else (um_mute msg) (ui_mute existing),
      ui_deaf = or_else (um_deaf msg) (ui_deaf existing),
      ui_self_mute = or_else (um_self_mute msg) (ui_self_mute existing),
      ui_self_deaf = or_else (um_self_deaf msg) (ui_self_deaf existing)\<rparr>"

text \<open>
  The locals of the connection task: the crypt state received so far, whether the one-shot sender
  is still unused, the two maps and the flag. \<open>mc_delivered\<close> is what the one-shot delivered, and
  \<open>mc_events\<close> is the event channel, oldest first.
\<close>

record mumble_conn =
  mc_crypt_state :: "crypt_state option"
  mc_crypt_tx :: bool
  mc_delivered :: "crypt_state option"
  mc_channels :: "u32 \<rightharpoonup> channel_info"
  mc_users :: "u32 \<rightharpoonup> user_info"
  mc_connected :: bool
  mc_events :: "mumble_event list"

definition emit :: "mumble_event \<Rightarrow> mumble_conn \<Rightarrow> mumble_conn" where
  "emit e c = c\<lparr>mc_events := mc_events c @ [e]\<rparr>"

definition channel_info_of :: "channel_state_msg \<Rightarrow> channel_info" where
  "channel_info_of msg = \<lparr>ch_id = get_u32 (cm_channel_id msg), ch_name = get_str (cm_name msg),
     ch_parent_id = get_u32 (cm_parent msg), ch_description = get_str (cm_description msg)\<rparr>"

definition user_info_of :: "user_state_msg \<Rightarrow> user_info" where
  "user_info_of msg = \<lparr>ui_session_id = get_u32 (um_session msg), ui_name = get_str (um_name msg),
     ui_channel_id = get_u32 (um_channel_id msg), ui_mute = get_bool (um_mute msg), ui_deaf = get_bool (um_deaf msg),
     ui_self_mute = get_bool (um_self_mute msg), ui_self_deaf = get_bool (um_self_deaf msg)\<rparr>"

definition user_state_data_of :: "user_state_msg \<Rightarrow> user_state_data" where
  "user_state_data_of msg = \<lparr>us_session_id = get_u32 (um_session msg), us_channel_id = um_channel_id msg,
     us_name = um_name msg, us_mute = um_mute msg, us_deaf = um_deaf msg,
     us_self_mute = um_self_mute msg, us_self_deaf = um_self_deaf msg\<rparr>"

text \<open>The handler's result says whether the connection goes on.\<close>

definition handle_control_packet :: "u32 list \<Rightarrow> u32 list \<Rightarrow> control_packet \<Rightarrow> mumble_conn \<Rightarrow> bool \<times> mumble_conn" where
  "handle_control_packet ch_order user_order packet c = (case packet of
     P_channel_state msg \<Rightarrow>
       (let info = channel_info_of msg;
            id = ch_id info;
            c' = c\<lparr>mc_channels := (mc_channels c)(id \<mapsto> info)\<rparr>
        in (True, if \<not> mc_connected c then c'
                  else if mc_channels c id \<noteq> None then emit (M_channel_updated info) c'
                  else emit (M_channel_added info) c'))
   | P_channel_remove channel_id \<Rightarrow>
       (let c' = c\<lparr>mc_channels := (mc_channels c)(channel_id := None)\<rparr>
        in (True, if mc_connected c then emit (M_channel_removed channel_id) c' else c'))
   | P_user_state msg \<Rightarrow>
       (let info = user_info_of msg; session_id = get_u32 (um_session msg)
        in (True,
            if \<not> mc_connected c then c\<lparr>mc_users := (mc_users c)(session_id \<mapsto> info)\<rparr>
            else (case mc_users c session_id of
                    Some existing \<Rightarrow>
                      emit (M_user_state_changed (user_state_data_of msg))
                        (c\<lparr>mc_users := (mc_users c)(session_id \<mapsto> merge_user_state existing msg)\<rparr>)
                  | None \<Rightarrow> emit (M_user_joined info) (c\<lparr>mc_users := (mc_users c)(session_id \<mapsto> info)\<rparr>))))
   | P_user_remove session_id \<Rightarrow>
       (let c' = c\<lparr>mc_users := (mc_users c)(session_id := None)\<rparr>
        in (True, if mc_connected c then emit (M_user_left session_id) c' else c'))
   | P_crypt_setup msg \<Rightarrow>
       (case crypt_state_from_message msg of
          Inr cs \<Rightarrow> (True, c\<lparr>mc_crypt_state := Some cs\<rparr>)
        | Inl reason \<Rightarrow> (False, emit (M_disconnected reason) c))
   | P_server_sync s \<Rightarrow>
       (let c1 = c\<lparr>mc_connected := True\<rparr>;
            c2 = (case mc_crypt_state c1 of
                    None \<Rightarrow> c1
                  | Some cs \<Rightarrow>
                      if mc_crypt_tx c1 then c1\<lparr>mc_crypt_state := None, mc_crypt_tx := False, mc_delivered := Some cs\<rparr>
                      else c1\<lparr>mc_crypt_state := None\<rparr>)
        in (True, emit (M_connected (get_u32 s) (hm_values (mc_channels c2) ch_order) (hm_values (mc_users c2) user_order)) c2))
   | P_text_message msg \<Rightarrow>
       (True, emit (M_chat_message (get_u32 (tm_actor msg))
          (case tm_channel_id msg of [] \<Rightarrow> 0 | x # _ \<Rightarrow> x) (get_str (tm_message msg))) c)
   | P_reject msg \<Rightarrow>
       (True, emit (M_disconnected (''Rejected: '' @ rj_type msg @ '': '' @ get_str (rj_reason msg))) c)
   | P_other \<Rightarrow> (True, c))"

section \<open>The connection task\<close>

text \<open>
  One turn of the \<open>select!\<close> loop handles a packet, the end of the stream, a command (\<open>None\<close> when every
  sender is gone) or a ping tick. The flag of a command or a tick is whether the send succeeds;
  a failure is only logged. \<open>mt_sends\<close> are the sends attempted, oldest first, with their outcome.
\<close>

record mumble_task =
  mt_conn :: mumble_conn
  mt_sends :: "(server_packet \<times> bool) list"
  mt_running :: bool

datatype task_input =
  In_packet "u32 list" "u32 list" control_packet
| In_stream_error string
| In_stream_end
| In_command "mumble_command option" bool
| In_ping nat bool

definition mumble_conn_new :: mumble_conn where
  "mumble_conn_new = \<lparr>mc_crypt_state = None, mc_crypt_tx = True, mc_delivered = None, mc_channels = Map.empty,
     mc_users = Map.empty, mc_connected = False, mc_events = []\<rparr>"

text \<open>The packet a command is translated to; \<open>None\<close> ends the loop.\<close>

primrec command_packet :: "mumble_command \<Rightarrow> server_packet option" where
  "command_packet (C_send_chat channel_id message) = Some (S_text (build_text_message channel_id message))"
| "command_packet (C_join_channel channel_id) = Some (S_user_state (build_user_state_channel channel_id))"
| "command_packet (C_set_mute muted) = Some (S_user_state (build_user_state_mute muted))"
| "command_packet (C_set_deaf deafened) = Some (S_user_state (build_user_state_deaf deafened))"
| "command_packet C_disconnect = None"

text \<open>The task up to its loop: a failed send of \<open>Version\<close> or \<open>Authenticate\<close> ends it.\<close>

definition mumble_task_start :: "unit result \<Rightarrow> unit result \<Rightarrow> string \<Rightarrow> mumble_task" where
  "mumble_task_start version_sent auth_sent username =
     (case version_sent of
        Inl e \<Rightarrow> \<lparr>mt_conn = emit (M_disconnected e) mumble_conn_new, mt_sends = [(S_version build_version_message, False)], mt_running = False\<rparr>
      | Inr _ \<Rightarrow> (case auth_sent of
          Inl e \<Rightarrow> \<lparr>mt_conn = emit (M_disconnected e) mumble_conn_new,
             mt_sends = [(S_version build_version_message, True), (S_authenticate (build_authenticate_message username), False)], mt_running = False\<rparr>
        | Inr _ \<Rightarrow> \<lparr>mt_conn = mumble_conn_new,
             mt_sends = [(S_version build_version_message, True), (S_authenticate (build_authenticate_message username), True)], mt_running = True\<rparr>))"

definition mumble_task_step :: "task_input \<Rightarrow> mumble_task \<Rightarrow> mumble_task" where
  "mumble_task_step inp t =
     (if \<not> mt_running t then t
      else (case inp of
        In_packet ch_order user_order packet \<Rightarrow>
          (let (go, c) = handle_control_packet ch_order user_order packet (mt_conn t)
           in t\<lparr>mt_conn := c, mt_running := go\<rparr>)
      | In_stream_error e \<Rightarrow> t\<lparr>mt_conn := emit (M_disconnected e) (mt_conn t), mt_running := False\<rparr>
      | In_stream_end \<Rightarrow> t\<lparr>mt_conn := emit (M_disconnected ''Connection closed'') (mt_conn t), mt_running := False\<rparr>
      | In_command None _ \<Rightarrow> t\<lparr>mt_running := False\<rparr>
      | In_command (Some cmd) sent \<Rightarrow>
          (case command_packet cmd of
             None \<Rightarrow> t\<lparr>mt_running := False\<rparr>
           | Some packet \<Rightarrow> t\<lparr>mt_sends := mt_sends t @ [(packet, sent)]\<rparr>)
      | In_ping now sent \<Rightarrow> t\<lparr>mt_sends := mt_sends t @ [(S_ping (build_ping now), sent)]\<rparr>))"

text \<open>
  \<open>MumbleClient::connect\<close> up to the spawn: the outcomes of the TCP connection, the TLS connector and the
  handshake; \<open>send_command\<close> fails when the task has dropped its receiver.
\<close>

definition mumble_connect :: "unit result \<Rightarrow> unit result \<Rightarrow> unit result \<Rightarrow> (unit result \<times> unit result) \<Rightarrow> string \<Rightarrow> mumble_task result" where
  "mumble_connect tcp tls_build tls_connect sends username =
     (case tcp of Inl _ \<Rightarrow> Inl ''Failed to connect to Mumble server''
      | Inr _ \<Rightarrow> (case tls_build of Inl _ \<Rightarrow> Inl ''Failed to create TLS connector''
      | Inr _ \<Rightarrow> (case tls_connect of Inl _ \<Rightarrow> Inl ''TLS handshake failed''
      | Inr _ \<Rightarrow> Inr (mumble_task_start (fst sends) (snd sends) username))))"

definition send_command :: "bool \<Rightarrow> mumble_command \<Rightarrow> mumble_command list \<Rightarrow> mumble_command list result" where
  "send_command receiver_alive cmd queue =
     (if receiver_alive then Inr (queue @ [cmd]) else Inl ''Mumble client disconnected'')"

section \<open>The command queue\<close>

text \<open>The commands among the inputs of the task, the packets sent for commands, and the inputs that end the loop on their own.\<close>

definition input_commands :: "task_input list \<Rightarrow> mumble_command list" where
  "input_commands ins = concat (map (\<lambda>i. case i of In_command (Some cmd) _ \<Rightarrow> [cmd] | _ \<Rightarrow> []) ins)"

definition command_sends :: "(server_packet \<times> bool) list \<Rightarrow> server_packet list" where
  "command_sends sends = filter (\<lambda>p. case p of S_text _ \<Rightarrow> True | S_user_state _ \<Rightarrow> True | _ \<Rightarrow> False) (map fst sends)"

definition peaceful :: "task_input \<Rightarrow> bool" where
  "peaceful i = (case i of
     In_packet _ _ (P_crypt_setup msg) \<Rightarrow> is_ok (crypt_state_from_message msg)
   | In_stream_error _ \<Rightarrow> False
   | In_stream_end \<Rightarrow> False
   | In_command None _ \<Rightarrow> False
   | _ \<Rightarrow> True)"

definition command_packets :: "mumble_command list \<Rightarrow> server_packet list" where
  "command_packets cs = concat (map (\<lambda>c. case command_packet c of None \<Rightarrow> [] | Some p \<Rightarrow> [p]) cs)"

lemma mumble_stopped: "\<not> mt_running t \<Longrightarrow> fold mumble_task_step ins t = t"
  by (induction ins) (simp_all add: mumble_task_step_def)

lemma packet_step_commands:
  "mt_running t \<Longrightarrow> mt_sends (mumble_task_step (In_packet co uo p) t) = mt_sends t \<and>
     (peaceful (In_packet co uo p) \<longrightarrow> mt_running (mumble_task_step (In_packet co uo p) t))"
  by (cases p) (auto simp: mumble_task_step_def peaceful_def handle_control_packet_def Let_def split: prod.split sum.split)

lemma command_step:
  assumes "mt_running t"
  shows "command_sends (mt_sends (mumble_task_step (In_command (Some cmd) b) t)) =
      command_sends (mt_sends t) @ command_packets [cmd] \<and>
    mt_running (mumble_task_step (In_command (Some cmd) b) t) = (cmd \<noteq> C_disconnect)"
  using assms by (cases cmd) (simp_all add: mumble_task_step_def command_sends_def command_packets_def)

lemma mumble_drain:
  assumes "mt_running t" and "input_commands ins = cs @ [C_disconnect]" and "C_disconnect \<notin> set cs"
  shows "\<not> mt_running (fold mumble_task_step ins t) \<and>
    prefix (command_sends (mt_sends (fold mumble_task_step ins t))) (command_sends (mt_sends t) @ command_packets cs) \<and>
    (list_all peaceful ins \<longrightarrow> command_sends (mt_sends (fold mumble_task_step ins t)) = command_sends (mt_sends t) @ command_packets cs)"
  using assms
proof (induction ins arbitrary: t cs)
  case (Cons i ins)
  let ?t = "mumble_task_step i t"
  have stop: ?case if "\<not> mt_running ?t" "mt_sends ?t = mt_sends t" "\<not> peaceful i" using that by (simp add: mumble_stopped)
  have skip: ?case if "mt_running ?t" "command_sends (mt_sends ?t) = command_sends (mt_sends t)" "input_commands (i # ins) = input_commands ins" "peaceful i"
    using Cons.IH [OF that(1), of cs] Cons.prems that by simp
  show ?case
  proof (cases i)
    case (In_packet co uo p)
    then have e: "input_commands (i # ins) = input_commands ins" by (simp add: input_commands_def)
    note st = packet_step_commands [OF Cons.prems(1), of co uo p]
    show ?thesis
    proof (cases "mt_running ?t")
      case True
      with Cons.IH [OF True, of cs] Cons.prems(2,3) e st In_packet show ?thesis by simp
    qed (use stop st In_packet in auto)
  next
    case (In_command oc b)
    show ?thesis
    proof (cases oc)
      case None
      with stop In_command Cons.prems(1) show ?thesis by (simp add: mumble_task_step_def peaceful_def)
    next
      case (Some cmd)
      note st = command_step [OF Cons.prems(1), of cmd b]
      have e: "cmd # input_commands ins = cs @ [C_disconnect]" using Cons.prems(2) In_command Some by (simp add: input_commands_def)
      show ?thesis
      proof (cases cs)
        case Nil
        with e In_command Some st show ?thesis by (simp add: mumble_stopped command_packets_def)
      next
        case (Cons c cs')
        with e Cons.prems(3) have c: "cmd = c" "input_commands ins = cs' @ [C_disconnect]" "C_disconnect \<notin> set cs'" "cmd \<noteq> C_disconnect" by auto
        with st In_command Some have run: "mt_running ?t" and sent: "command_sends (mt_sends ?t) = command_sends (mt_sends t) @ command_packets [c]" by auto
        have "command_packets (c # cs') = command_packets [c] @ command_packets cs'" by (simp add: command_packets_def)
        with Cons.IH [OF run c(2,3)] sent Cons show ?thesis by simp
      qed
    qed
  next
    case (In_ping now b)
    with skip Cons.prems(1) show ?thesis
      by (simp add: mumble_task_step_def input_commands_def peaceful_def command_sends_def)
  qed (use stop Cons.prems(1) in \<open>simp_all add: mumble_task_step_def peaceful_def\<close>)
qed (simp add: input_commands_def)

section \<open>What the events tell a listener\<close>

text \<open>
  A listener that only sees the events keeps its own copy of the two maps: a snapshot when
  connected, then the increments.
\<close>

type_synonym replica = "(u32 \<rightharpoonup> channel_info) \<times> (u32 \<rightharpoonup> user_info)"

definition apply_user_state :: "user_state_data \<Rightarrow> user_info \<Rightarrow> user_info" where
  "apply_user_state st u =
     \<lparr>ui_session_id = ui_session_id u, ui_name = or_else (us_name st) (ui_name u),
      ui_channel_id = or_else (us_channel_id st) (ui_channel_id u), ui_mute = or_else (us_mute st) (ui_mute u),
      ui_deaf = or_else (us_deaf st) (ui_deaf u), ui_self_mute = or_else (us_self_mute st) (ui_self_mute u),
      ui_self_deaf = or_else (us_self_deaf st) (ui_self_deaf u)\<rparr>"

primrec apply_event :: "mumble_event \<Rightarrow> replica \<Rightarrow> replica" where
  "apply_event (M_connected s chs us) r =
     (map_of (map (\<lambda>ch. (ch_id ch, ch)) chs), map_of (map (\<lambda>u. (ui_session_id u, u)) us))"
| "apply_event (M_user_joined u) r = (fst r, (snd r)(ui_session_id u \<mapsto> u))"
| "apply_event (M_user_left s) r = (fst r, (snd r)(s := None))"
| "apply_event (M_user_state_changed st) r =
     (fst r, (snd r)(us_session_id st := map_option (apply_user_state st) (snd r (us_session_id st))))"
| "apply_event (M_channel_added ch) r = ((fst r)(ch_id ch \<mapsto> ch), snd r)"
| "apply_event (M_channel_updated ch) r = ((fst r)(ch_id ch \<mapsto> ch), snd r)"
| "apply_event (M_channel_removed i) r = ((fst r)(i := None), snd r)"
| "apply_event (M_chat_message s c m) r = r"
| "apply_event (M_disconnected e) r = r"

definition replay :: "mumble_event list \<Rightarrow> replica" where
  "replay es = fold apply_event es (Map.empty, Map.empty)"

text \<open>A packet is handled with some iteration orders of the two maps.\<close>

inductive packet_step :: "mumble_conn \<Rightarrow> mumble_conn \<Rightarrow> bool" where
  "iterates (mc_channels c) ch_order \<Longrightarrow> iterates (mc_users c) user_order \<Longrightarrow>
   packet_step c (snd (handle_control_packet ch_order user_order packet c))"

inductive_simps packet_step_iff: "packet_step c c'"

definition crypt_sizes :: "crypt_state \<Rightarrow> bool" where
  "crypt_sizes k \<longleftrightarrow> length (ks_key k) = 16 \<and> length (ks_client_nonce k) = 16 \<and> length (ks_server_nonce k) = 16"

definition conn_inv :: "mumble_conn \<Rightarrow> bool" where
  "conn_inv c \<longleftrightarrow>
     (\<forall>k ch. mc_channels c k = Some ch \<longrightarrow> ch_id ch = k) \<and>
     (\<forall>k u. mc_users c k = Some u \<longrightarrow> ui_session_id u = k) \<and>
     (mc_connected c \<longrightarrow> replay (mc_events c) = (mc_channels c, mc_users c)) \<and>
     (\<forall>k. mc_crypt_state c = Some k \<longrightarrow> crypt_sizes k) \<and>
     (\<forall>k. mc_delivered c = Some k \<longrightarrow> crypt_sizes k) \<and>
     (mc_delivered c = None \<longleftrightarrow> mc_crypt_tx c) \<and> (mc_delivered c \<noteq> None \<longrightarrow> mc_connected c)"

lemma replay_emit [simp]: "replay (es @ [e]) = apply_event e (replay es)"
  by (simp add: replay_def)

lemma emit_fields [simp]:
  "mc_channels (emit e c) = mc_channels c" "mc_users (emit e c) = mc_users c" "mc_connected (emit e c) = mc_connected c"
  "mc_events (emit e c) = mc_events c @ [e]" "mc_crypt_state (emit e c) = mc_crypt_state c"
  "mc_delivered (emit e c) = mc_delivered c" "mc_crypt_tx (emit e c) = mc_crypt_tx c"
  by (simp_all add: emit_def)

lemma info_ids [simp]: "ui_session_id (user_info_of msg) = get_u32 (um_session msg)"
  "ui_session_id (merge_user_state u msg) = ui_session_id u"
  "us_session_id (user_state_data_of msg) = get_u32 (um_session msg)"
  by (simp_all add: user_info_of_def merge_user_state_def user_state_data_of_def)

lemma apply_user_state_merge [simp]: "apply_user_state (user_state_data_of msg) u = merge_user_state u msg"
  by (simp add: apply_user_state_def user_state_data_of_def merge_user_state_def)

lemma crypt_state_from_message_iff:
  "crypt_state_from_message msg = Inr k \<longleftrightarrow> crypt_sizes k \<and> ks_key k = get_bytes (cy_key msg) \<and>
     ks_client_nonce k = get_bytes (cy_client_nonce msg) \<and> ks_server_nonce k = get_bytes (cy_server_nonce msg)"
  by (cases k) (auto simp: crypt_state_from_message_def fixed_size_bytes_def KEY_SIZE_def BLOCK_SIZE_def crypt_sizes_def)

lemma snapshot_map:
  assumes "iterates m ks" and "\<And>k v. m k = Some v \<Longrightarrow> f v = k"
  shows "map_of (map (\<lambda>v. (f v, v)) (hm_values m ks)) = m"
proof -
  have "map_of (map (\<lambda>v. (f v, v)) (hm_values m ks)) k = (if k \<in> set ks then m k else None)" for k
    by (induction ks) (auto simp: assms(2) split: option.splits)
  with assms(1) show ?thesis by (auto simp: iterates_def domIff fun_eq_iff)
qed


lemmas [mumble_simps] = handle_control_packet_def Let_def

lemma handle_inv:
  assumes inv: "conn_inv c" and ord: "iterates (mc_channels c) co" "iterates (mc_users c) uo"
  shows "conn_inv (snd (handle_control_packet co uo packet c))"
proof (cases packet)
  case (P_channel_state msg)
  with inv show ?thesis by (auto simp: mumble_simps conn_inv_def)
next
  case (P_channel_remove i)
  with inv show ?thesis by (auto simp: mumble_simps conn_inv_def)
next
  case (P_user_state msg)
  with inv show ?thesis by (auto simp: mumble_simps conn_inv_def split: option.split)
next
  case (P_user_remove i)
  with inv show ?thesis by (auto simp: mumble_simps conn_inv_def)
next
  case (P_crypt_setup msg)
  with inv show ?thesis
    by (auto simp: handle_control_packet_def conn_inv_def crypt_state_from_message_iff split: sum.split)
next
  case (P_server_sync sid)
  have "map_of (map (\<lambda>ch. (ch_id ch, ch)) (hm_values (mc_channels c) co)) = mc_channels c"
    "map_of (map (\<lambda>u. (ui_session_id u, u)) (hm_values (mc_users c) uo)) = mc_users c"
    using inv by (auto intro!: snapshot_map ord simp: conn_inv_def)
  with P_server_sync inv show ?thesis
    by (auto simp: mumble_simps conn_inv_def split: option.splits)
qed (use inv in \<open>auto simp: handle_control_packet_def conn_inv_def\<close>)

lemma mumble_conn_new_inv: "conn_inv mumble_conn_new"
  by (simp add: conn_inv_def mumble_conn_new_def)

interpretation mumble_packets: invariant_system "\<lambda>c. c = mumble_conn_new" packet_step conn_inv
  by unfold_locales (auto simp: mumble_conn_new_inv packet_step_iff intro: handle_inv)

lemma handle_delivered:
  "mc_delivered c = Some k \<Longrightarrow> \<not> mc_crypt_tx c \<Longrightarrow> mc_delivered (snd (handle_control_packet co uo packet c)) = Some k"
  by (cases packet) (auto simp: mumble_simps split: option.split sum.split)

lemma delivered_stays: "mc_delivered c = Some k \<Longrightarrow> conn_inv c \<Longrightarrow> packet_step c c' \<Longrightarrow> mc_delivered c' = Some k"
  by (auto simp: packet_step_iff conn_inv_def handle_delivered)

lemma delivered_stays_run:
  assumes "packet_step\<^sup>*\<^sup>* c c'" and "conn_inv c" and "mc_delivered c = Some k"
  shows "mc_delivered c' = Some k"
proof -
  have "mc_delivered c' = Some k \<and> conn_inv c'"
    using assms by (induction rule: rtranclp_induct) (auto intro: delivered_stays mumble_packets.step_inv)
  then show ?thesis ..
qed

definition demo_user_state :: user_state_msg where
  "demo_user_state = empty_user_state\<lparr>um_session := Some 4, um_name := Some ''Bob''\<rparr>"

text \<open>A login: one user, then \<open>ServerSync\<close>.\<close>

definition demo_synced :: mumble_conn where
  "demo_synced = snd (handle_control_packet [] [4] (P_server_sync (Some 9))
     (snd (handle_control_packet [] [] (P_user_state demo_user_state) mumble_conn_new)))"

lemma demo_synced_eq:
  "demo_synced = \<lparr>mc_crypt_state = None, mc_crypt_tx = True, mc_delivered = None, mc_channels = Map.empty,
     mc_users = [4 \<mapsto> user_info_of demo_user_state], mc_connected = True,
     mc_events = [M_connected 9 [] [user_info_of demo_user_state]]\<rparr>"
  by (simp add: demo_synced_def handle_control_packet_def mumble_conn_new_def emit_def Let_def get_u32_def
      demo_user_state_def empty_user_state_def)

lemma demo_synced_reachable: "reachable (\<lambda>c. c = mumble_conn_new) packet_step demo_synced"
proof -
  let ?c = "snd (handle_control_packet [] [] (P_user_state demo_user_state) mumble_conn_new)"
  have "packet_step mumble_conn_new ?c"
    by (rule packet_step.intros) (simp_all add: mumble_conn_new_def iterates_def)
  moreover have "packet_step ?c demo_synced"
    unfolding demo_synced_def
    by (rule packet_step.intros)
      (simp_all add: mumble_conn_new_def iterates_def mumble_simps demo_user_state_def empty_user_state_def get_u32_def)
  ultimately show ?thesis by (metis (mono_tags) reachable_init reachable_step)
qed

section \<open>Properties of the control connection\<close>

text \<open>
  C3. The events are a faithful replica: a listener that takes the snapshot of \<open>Connected\<close> and
  then applies the increments of the later events holds, at every moment after login, exactly the
  channels and users the connection knows, whatever packets the server sends in whatever order.
\<close>

theorem mumble_events_replicate:
  assumes "reachable (\<lambda>c. c = mumble_conn_new) packet_step c" and "mc_connected c"
  shows "replay (mc_events c) = (mc_channels c, mc_users c)"
  using mumble_packets.reachable_inv [OF assms(1)] assms(2) by (simp add: conn_inv_def)

theorem mumble_events_replicate_witness:
  "replay (mc_events demo_synced) = (Map.empty, [4 \<mapsto> user_info_of demo_user_state])"
  using mumble_events_replicate [OF demo_synced_reachable] by (simp add: demo_synced_eq)

text \<open>
  A crypt state reaches the voice side only if its key and nonces have sixteen bytes each, only after login, and at most once:
  what was delivered is never replaced.
\<close>

lemma crypt_state_delivered_once:
  assumes "reachable (\<lambda>c. c = mumble_conn_new) packet_step c" and "mc_delivered c = Some k" and "packet_step\<^sup>*\<^sup>* c c'"
  shows "crypt_sizes k \<and> mc_connected c \<and> mc_delivered c' = Some k"
proof -
  have "conn_inv c" by (rule mumble_packets.reachable_inv [OF assms(1)])
  with assms(2) delivered_stays_run [OF assms(3)] show ?thesis by (auto simp: conn_inv_def)
qed

text \<open>
  A channel update is not merged: after login, a \<open>ChannelState\<close> that carries only a new description
  (as the server sends for a partial change) blanks the channel's name and moves it under the
  root, and the listener is told so. User updates are merged instead.
\<close>

lemma channel_update_overwrites:
  assumes "mc_connected c" and "mc_channels c i = Some old"
  shows "handle_control_packet co uo (P_channel_state \<lparr>cm_channel_id = Some i, cm_name = None, cm_parent = None, cm_description = Some d\<rparr>) c =
     (True, emit (M_channel_updated \<lparr>ch_id = i, ch_name = [], ch_parent_id = 0, ch_description = d\<rparr>)
        (c\<lparr>mc_channels := (mc_channels c)(i \<mapsto> \<lparr>ch_id = i, ch_name = [], ch_parent_id = 0, ch_description = d\<rparr>)\<rparr>))"
  using assms by (simp add: handle_control_packet_def channel_info_of_def get_u32_def get_str_def Let_def)

text \<open>
  The end of the connection task is announced: a turn of the loop that ends it either appends
  one \<open>Disconnected\<close> event, or was the \<open>Disconnect\<close> command or the loss of every command sender,
  and then no event is sent. No other turn, apart from a rejected login, sends \<open>Disconnected\<close>.
\<close>

lemma mumble_task_end_announced:
  "case (mt_running t, mumble_task_step inp t) of
     (False, t') \<Rightarrow> t' = t
   | (True, t') \<Rightarrow>
       if mt_running t' then
         (\<exists>r m co uo. mc_events (mt_conn t') = mc_events (mt_conn t) @ [M_disconnected r] \<and> inp = In_packet co uo (P_reject m)) \<or>
         (\<forall>r. mc_events (mt_conn t') \<noteq> mc_events (mt_conn t) @ [M_disconnected r])
       else
         (\<exists>r. mc_events (mt_conn t') = mc_events (mt_conn t) @ [M_disconnected r]) \<or>
         mt_conn t' = mt_conn t \<and> (\<exists>sent. inp = In_command None sent \<or> inp = In_command (Some C_disconnect) sent)"
proof (cases "mt_running t")
  case True
  show ?thesis
  proof (cases inp)
    case (In_packet co uo p)
    with True show ?thesis
      by (cases p) (auto simp: mumble_task_step_def mumble_simps split: option.split sum.split)
  next
    case (In_command cmd sent)
    show ?thesis
    proof (cases cmd)
      case (Some x)
      with True In_command show ?thesis by (cases x) (auto simp: mumble_task_step_def)
    qed (use True In_command in \<open>auto simp: mumble_task_step_def\<close>)
  qed (use True in \<open>auto simp: mumble_task_step_def\<close>)
qed (simp add: mumble_task_step_def)

end
