(* ===== verification/Mumble_Voice.thy ===== *)
theory Mumble_Voice
  imports Mumble_Client Net
begin

text \<open>
  \<open>src/src/mumble/voice.rs\<close>: the encrypted UDP voice socket. The cipher and the packet codec are
  outside; a turn of the task's loop is a ping tick, a packet from the socket, or data from the
  bridge. \<open>vt_sends\<close> are the packets handed to the socket, oldest first; \<open>vt_forwarded\<close> is what
  entered the bounded channel to the bridge.
\<close>

definition VOICE_CHANNEL_CAPACITY :: nat where
  "VOICE_CHANNEL_CAPACITY = 128"

datatype voice_payload = Opus bytes bool | Other_codec

datatype voice_packet =
  V_ping u64
| V_audio_in u32 u64 voice_payload
| V_audio_out nat u64 voice_payload

record mumble_voice =
  vo_task :: bool
  vo_rx :: bool
  vo_tx :: bool

definition is_ipv6 :: "socket_addr \<Rightarrow> bool" where
  "is_ipv6 a = (case a of Sock4 _ _ \<Rightarrow> False | Sock6 _ _ _ _ \<Rightarrow> True)"

definition voice_bind_addr :: "socket_addr \<Rightarrow> socket_addr" where
  "voice_bind_addr server_addr = (if is_ipv6 server_addr then Sock6 0 0 0 0 else Sock4 UNSPECIFIED 0)"

text \<open>
  The local address is read for a debug message only; without that log level \<open>local_addr\<close> is not called, which is
  the same as its succeeding.
\<close>

definition voice_start :: "(socket_addr \<Rightarrow> unit result) \<Rightarrow> (socket_addr \<Rightarrow> unit result) \<Rightarrow> socket_addr \<Rightarrow> mumble_voice result" where
  "voice_start bind local_addr server_addr =
     (case bind (voice_bind_addr server_addr) of
        Inl e \<Rightarrow> Inl (''Failed to bind UDP socket: '' @ e)
      | Inr _ \<Rightarrow> (case local_addr (voice_bind_addr server_addr) of
          Inl e \<Rightarrow> Inl e
        | Inr _ \<Rightarrow> Inr \<lparr>vo_task = True, vo_rx = True, vo_tx = True\<rparr>))"

definition take_channels :: "mumble_voice \<Rightarrow> unit result \<times> mumble_voice" where
  "take_channels v =
     (if \<not> vo_rx v then (Inl ''Voice receiver already taken'', v)
      else if \<not> vo_tx v then (Inl ''Voice sender already taken'', v\<lparr>vo_rx := False\<rparr>)
      else (Inr (), v\<lparr>vo_rx := False, vo_tx := False\<rparr>))"

definition voice_shutdown :: "mumble_voice \<Rightarrow> mumble_voice" where
  "voice_shutdown v = v\<lparr>vo_rx := False, vo_tx := False, vo_task := False\<rparr>"

section \<open>The voice task\<close>

record voice_task =
  vt_sends :: "voice_packet list"
  vt_forwarded :: "mumble_voice_data list"
  vt_running :: bool

datatype voice_input =
  Vi_tick u64
| Vi_packet voice_packet instant bool
| Vi_packet_error string
| Vi_socket_end
| Vi_outgoing webrtc_voice_data
| Vi_outgoing_closed

definition voice_run_start :: "bool \<Rightarrow> voice_task" where
  "voice_run_start init_sent = \<lparr>vt_sends = [V_ping 0], vt_forwarded = [], vt_running = init_sent\<rparr>"

definition outgoing_packet :: "webrtc_voice_data \<Rightarrow> voice_packet" where
  "outgoing_packet d = V_audio_out 0 (wv_seq_num d) (Opus (wv_opus_data d) (wv_last_frame d))"

text \<open>The flag of a packet is whether \<open>try_send\<close> finds room in the channel; a full channel drops the packet.\<close>

definition voice_run_step :: "voice_input \<Rightarrow> voice_task \<Rightarrow> voice_task" where
  "voice_run_step inp t =
     (if \<not> vt_running t then t
      else (case inp of
        Vi_tick timestamp \<Rightarrow> t\<lparr>vt_sends := vt_sends t @ [V_ping timestamp]\<rparr>
      | Vi_packet (V_audio_in session_id seq_num (Opus data last_frame)) now room \<Rightarrow>
          if room then t\<lparr>vt_forwarded := vt_forwarded t @ [\<lparr>mv_session_id = session_id, mv_seq_num = seq_num,
            mv_opus_data = data, mv_last_frame = last_frame, mv_received_at = now\<rparr>]\<rparr>
          else t
      | Vi_packet _ _ _ \<Rightarrow> t
      | Vi_packet_error e \<Rightarrow> t
      | Vi_socket_end \<Rightarrow> t\<lparr>vt_running := False\<rparr>
      | Vi_outgoing d \<Rightarrow> t\<lparr>vt_sends := vt_sends t @ [outgoing_packet d]\<rparr>
      | Vi_outgoing_closed \<Rightarrow> t\<lparr>vt_running := False\<rparr>))"

definition voice_run :: "voice_input list \<Rightarrow> voice_task \<Rightarrow> voice_task" where
  "voice_run inps t = fold voice_run_step inps t"

section \<open>What the task owes its two sides\<close>

definition ends_voice :: "voice_input \<Rightarrow> bool" where
  "ends_voice inp \<longleftrightarrow> inp = Vi_socket_end \<or> inp = Vi_outgoing_closed"

definition expected_send :: "voice_input \<Rightarrow> voice_packet list" where
  "expected_send inp = (case inp of Vi_tick ts \<Rightarrow> [V_ping ts] | Vi_outgoing d \<Rightarrow> [outgoing_packet d] | _ \<Rightarrow> [])"

definition expected_forward :: "voice_input \<Rightarrow> mumble_voice_data list" where
  "expected_forward inp = (case inp of
     Vi_packet (V_audio_in s n (Opus d l)) now room \<Rightarrow>
       if room then [\<lparr>mv_session_id = s, mv_seq_num = n, mv_opus_data = d, mv_last_frame = l, mv_received_at = now\<rparr>] else []
   | _ \<Rightarrow> [])"

definition expected_sends :: "voice_input list \<Rightarrow> voice_packet list" where
  "expected_sends inps = concat (map expected_send inps)"

definition expected_forwards :: "voice_input list \<Rightarrow> mumble_voice_data list" where
  "expected_forwards inps = concat (map expected_forward inps)"

lemma voice_run_stopped: "\<not> vt_running t \<Longrightarrow> voice_run inps t = t"
  unfolding voice_run_def by (induction inps) (simp_all add: voice_run_step_def)

lemma voice_run_Cons: "voice_run (i # inps) t = voice_run inps (voice_run_step i t)"
  by (simp add: voice_run_def)

lemma voice_step_running: "vt_running t \<Longrightarrow> vt_running (voice_run_step i t) \<longleftrightarrow> \<not> ends_voice i"
  by (cases i) (auto simp: voice_run_step_def ends_voice_def split: voice_packet.split voice_payload.split)

lemma voice_step_sends: "vt_running t \<Longrightarrow> \<not> ends_voice i \<Longrightarrow>
    vt_sends (voice_run_step i t) = vt_sends t @ expected_send i \<and>
    vt_forwarded (voice_run_step i t) = vt_forwarded t @ expected_forward i"
  by (cases i)
    (auto simp: voice_run_step_def ends_voice_def expected_send_def expected_forward_def
      split: voice_packet.split voice_payload.split)

lemma voice_run_spec:
  "vt_running t \<Longrightarrow>
     vt_sends (voice_run inps t) = vt_sends t @ expected_sends (takeWhile (\<lambda>i. \<not> ends_voice i) inps) \<and>
     vt_forwarded (voice_run inps t) = vt_forwarded t @ expected_forwards (takeWhile (\<lambda>i. \<not> ends_voice i) inps) \<and>
     (vt_running (voice_run inps t) \<longleftrightarrow> list_all (\<lambda>i. \<not> ends_voice i) inps)"
proof (induction inps arbitrary: t)
  case (Cons i inps)
  show ?case
  proof (cases "ends_voice i")
    case True
    then have "\<not> vt_running (voice_run_step i t)" using voice_step_running [OF Cons.prems] by simp
    moreover have "vt_sends (voice_run_step i t) = vt_sends t \<and> vt_forwarded (voice_run_step i t) = vt_forwarded t"
      using True Cons.prems by (auto simp: voice_run_step_def ends_voice_def)
    ultimately show ?thesis using True by (simp add: voice_run_Cons voice_run_stopped expected_sends_def expected_forwards_def)
  next
    case False
    then have run: "vt_running (voice_run_step i t)" using voice_step_running [OF Cons.prems] by simp
    from Cons.IH [OF run] voice_step_sends [OF Cons.prems False] False show ?thesis
      by (simp add: voice_run_Cons expected_sends_def expected_forwards_def)
  qed
qed (simp add: voice_run_def expected_sends_def expected_forwards_def)

section \<open>Properties of the voice socket\<close>

text \<open>
  The voice task sends one opening ping and then, in order, every frame the bridge hands it with its number,
  bytes and end flag unchanged, and its periodic pings; it forwards every Opus packet of the
  server that finds room, in order and unchanged, and nothing else. Bad datagrams, foreign codecs
  and echoed pings neither stop it nor cause a send; only the end of the socket or of the bridge
  stops it.
\<close>

lemma voice_task_forwards_in_order:
  "vt_sends (voice_run inps (voice_run_start True)) = V_ping 0 # expected_sends (takeWhile (\<lambda>i. \<not> ends_voice i) inps) \<and>
   vt_forwarded (voice_run inps (voice_run_start True)) = expected_forwards (takeWhile (\<lambda>i. \<not> ends_voice i) inps) \<and>
   (vt_running (voice_run inps (voice_run_start True)) \<longleftrightarrow> list_all (\<lambda>i. \<not> ends_voice i) inps)"
  using voice_run_spec [of "voice_run_start True" inps] by (simp add: voice_run_start_def)

end
