(* ===== verification/F64.thy ===== *)
theory F64
  imports Prelude Complex_Main "HOL-Library.Log_Nat"
begin

text \<open>
  The double-precision arithmetic behind \<open>Duration::as_secs_f64\<close> and the saturating cast
  \<open>as u32\<close>, on the non-negative values the media clock feeds it: a value is the rational it
  stands for, and every operation rounds its exact result to 53 significant bits, ties to even.
  The values are zero or at least a nanosecond, so the exponent never reaches the subnormal range;
  \<open>f64_exp\<close> reads the exponent of any value of at least \<open>2 ^ -64\<close>.
\<close>

definition round_half_even :: "rat \<Rightarrow> int" where
  "round_half_even x =
     (let f = \<lfloor>x\<rfloor>; d = x - of_int f
      in if d < 1 / 2 then f else if d > 1 / 2 then f + 1 else if even f then f else f + 1)"

definition f64_exp :: "rat \<Rightarrow> int" where
  "f64_exp q = bitlen \<lfloor>q * 2 ^ 64\<rfloor> - 65"

definition f64 :: "rat \<Rightarrow> rat" where
  "f64 q =
     (if q \<le> 0 then 0
      else (let e = f64_exp q - 52
            in if 0 \<le> e then of_int (round_half_even (q / 2 ^ nat e)) * 2 ^ nat e
               else of_int (round_half_even (q * 2 ^ nat (- e))) / 2 ^ nat (- e)))"

definition as_secs_f64 :: "nat \<Rightarrow> rat" where
  "as_secs_f64 d =
     f64 (f64 (of_nat (d div 1000000000)) + f64 (f64 (of_nat (d mod 1000000000)) / f64 1000000000))"

definition f64_as_u32 :: "rat \<Rightarrow> u32" where
  "f64_as_u32 q = (if 4294967295 \<le> q then 4294967295 else word_of_int \<lfloor>q\<rfloor>)"

section \<open>Rounding error\<close>

lemma round_half_even_int [simp]: "round_half_even (of_int n) = n"
  by (simp add: round_half_even_def)

lemma round_half_even_error: "\<bar>of_int (round_half_even x) - x\<bar> \<le> 1 / 2"
proof -
  have "of_int \<lfloor>x\<rfloor> \<le> x" "x < of_int \<lfloor>x\<rfloor> + 1" by linarith+
  then show ?thesis unfolding round_half_even_def Let_def abs_le_iff
    by (cases "x - of_int \<lfloor>x\<rfloor> < 1 / 2"; cases "x - of_int \<lfloor>x\<rfloor> > 1 / 2"; cases "even \<lfloor>x\<rfloor>"; linarith?; simp; linarith)
qed

lemma f64_exp_bounds:
  assumes "1 / 2 ^ 64 \<le> q"
  shows "(2::rat) ^ nat (f64_exp q + 64) \<le> q * 2 ^ 64" and "- 64 \<le> f64_exp q"
proof -
  have "1 \<le> q * 2 ^ 64" using assms by (simp add: field_simps)
  then have p: "1 \<le> \<lfloor>q * 2 ^ 64\<rfloor>" by simp
  then have "0 < bitlen \<lfloor>q * 2 ^ 64\<rfloor>" using bitlen_eq_zero_iff [of "\<lfloor>q * 2 ^ 64\<rfloor>"] bitlen_nonneg [of "\<lfloor>q * 2 ^ 64\<rfloor>"] by linarith
  then show "- 64 \<le> f64_exp q" by (simp add: f64_exp_def)
  have "(2::int) ^ nat (bitlen \<lfloor>q * 2 ^ 64\<rfloor> - 1) \<le> \<lfloor>q * 2 ^ 64\<rfloor>"
    using bitlen_bounds [of "\<lfloor>q * 2 ^ 64\<rfloor>"] p by simp
  then have "of_int ((2::int) ^ nat (bitlen \<lfloor>q * 2 ^ 64\<rfloor> - 1)) \<le> q * 2 ^ 64"
    by (simp only: le_floor_iff)
  then show "(2::rat) ^ nat (f64_exp q + 64) \<le> q * 2 ^ 64"
    by (simp add: f64_exp_def)
qed

lemma f64_error:
  assumes "1 / 2 ^ 64 \<le> q"
  shows "\<bar>f64 q - q\<bar> \<le> q / 2 ^ 53"
proof -
  define e where "e = f64_exp q - 52"
  have pos: "0 < q" by (rule less_le_trans [OF _ assms]) simp
  have low: "- 116 \<le> e" using f64_exp_bounds(2) [OF assms] by (simp add: e_def)
  have b: "(2::rat) ^ nat (e + 116) \<le> q * 2 ^ 64"
    using f64_exp_bounds(1) [OF assms] by (simp add: e_def algebra_simps)
  show ?thesis
  proof (cases "0 \<le> e")
    case True
    let ?r = "of_int (round_half_even (q / 2 ^ nat e)) :: rat"
    have f: "f64 q = ?r * 2 ^ nat e" using pos True by (simp add: f64_def Let_def e_def)
    have "nat (e + 116) = nat e + 116" using True by simp
    with b have "(2::rat) ^ nat e \<le> q / 2 ^ 52" by (simp add: power_add)
    moreover have "f64 q - q = (?r - q / 2 ^ nat e) * 2 ^ nat e" by (simp add: f field_simps)
    then have "\<bar>f64 q - q\<bar> = \<bar>?r - q / 2 ^ nat e\<bar> * 2 ^ nat e" by (simp add: abs_mult)
    moreover have "\<bar>?r - q / 2 ^ nat e\<bar> * 2 ^ nat e \<le> 1 / 2 * 2 ^ nat e"
      using round_half_even_error [of "q / 2 ^ nat e"] by (intro mult_right_mono) auto
    moreover have "1 / 2 * 2 ^ nat e \<le> q / 2 ^ 53" using calculation(1) by simp
    ultimately show ?thesis by (metis order_trans)
  next
    case False
    define k where "k = nat (- e)"
    let ?r = "of_int (round_half_even (q * 2 ^ k)) :: rat"
    have f: "f64 q = ?r / 2 ^ k" using pos False by (simp add: f64_def Let_def e_def k_def)
    have "nat (e + 116) + k = 116" using False low by (simp add: k_def)
    then have "(2::rat) ^ nat (e + 116) * 2 ^ k = 2 ^ 116" by (simp only: power_add [symmetric])
    then have "(2::rat) ^ 116 \<le> q * 2 ^ 64 * 2 ^ k"
      using mult_right_mono [OF b, of "2 ^ k"] by simp
    then have "1 / 2 ^ k \<le> q / 2 ^ 52" by (simp add: field_simps)
    moreover have "f64 q - q = (?r - q * 2 ^ k) / 2 ^ k" by (simp add: f field_simps)
    then have "\<bar>f64 q - q\<bar> = \<bar>?r - q * 2 ^ k\<bar> * (1 / 2 ^ k)" by (simp add: abs_mult)
    moreover have "\<bar>?r - q * 2 ^ k\<bar> * (1 / 2 ^ k) \<le> 1 / 2 * (1 / 2 ^ k)"
      using round_half_even_error [of "q * 2 ^ k"] by (intro mult_right_mono) auto
    moreover have "1 / 2 * (1 / 2 ^ k) \<le> q / 2 ^ 53" using calculation(1) by simp
    ultimately show ?thesis by (metis order_trans)
  qed
qed

lemma f64_nat:
  assumes "n < 2 ^ 53"
  shows "f64 (of_nat n) = of_nat n"
proof (cases "n = 0")
  case False
  have "\<lfloor>(of_nat n :: rat) * 2 ^ 64\<rfloor> = int n * 2 ^ 64"
    using floor_of_int [of "int n * 2 ^ 64", where ?'a = rat] by simp
  then have ex: "f64_exp (of_nat n) = bitlen (int n) - 1"
    using False bitlen_pow2 [of "int n" 64] by (simp add: f64_exp_def)
  have "bitlen (int n) \<le> 53" using assms less_power_nat_iff_bitlen [of n 53] by simp
  then have e: "f64_exp (of_nat n) - 52 \<le> 0" by (simp add: ex)
  define k where "k = nat (- (f64_exp (of_nat n) - 52))"
  have "(of_nat n :: rat) * 2 ^ k = of_int (int n * 2 ^ k)" by simp
  then have "round_half_even ((of_nat n :: rat) * 2 ^ k) = int n * 2 ^ k"
    by (simp only: round_half_even_int)
  then show ?thesis using e False by (auto simp: f64_def Let_def k_def)
qed (simp add: f64_def)

text \<open>
  For pauses below \<open>2 ^ 16\<close> seconds (18 hours) the product of the seconds by the sample rate
  lies within a quarter sample of the exact value, so the truncated count is at most one sample
  below it and never more than a quarter sample above it.
\<close>

lemma as_secs_f64_error:
  assumes "d < 2 ^ 16 * 1000000000"
  shows "\<bar>as_secs_f64 d - of_nat d / 1000000000\<bar> \<le> 1 / 2 ^ 35"
proof -
  define s where "s = d div 1000000000"
  define n where "n = d mod 1000000000"
  have s: "s < 2 ^ 16" using assms by (simp add: s_def div_less_iff_less_mult)
  have n: "n < 1000000000" by (simp add: n_def)
  have d: "(of_nat d :: rat) = of_nat s * 1000000000 + of_nat n"
    using arg_cong [OF div_mult_mod_eq [of d 1000000000], of "of_nat :: nat \<Rightarrow> rat"]
    by (simp only: s_def n_def of_nat_add of_nat_mult of_nat_numeral)
  have fs: "f64 (of_nat s) = of_nat s" "f64 (of_nat n) = of_nat n" "f64 1000000000 = 1000000000"
    using s n f64_nat [of s] f64_nat [of n] f64_nat [of 1000000000] by simp_all
  define a where "a = f64 (of_nat n / 1000000000 :: rat)"
  have a: "\<bar>a - of_nat n / 1000000000\<bar> \<le> 1 / 2 ^ 53"
  proof (cases "n = 0")
    case False
    then have "(1 :: rat) / 2 ^ 64 \<le> of_nat n / 1000000000" by (simp add: field_simps)
    from f64_error [OF this] have "\<bar>a - of_nat n / 1000000000\<bar> \<le> of_nat n / 1000000000 / 2 ^ 53"
      by (simp add: a_def)
    moreover have "(of_nat n / 1000000000 :: rat) / 2 ^ 53 \<le> 1 / 2 ^ 53" using n by (simp add: field_simps)
    ultimately show ?thesis by linarith
  qed (simp add: a_def f64_def)
  have as: "as_secs_f64 d = f64 (of_nat s + a)"
    using fs by (simp add: as_secs_f64_def s_def [symmetric] n_def [symmetric] a_def)
  show ?thesis
  proof (cases "d = 0")
    case True
    then show ?thesis by (simp add: as_secs_f64_def f64_def)
  next
    case False
    have d': "of_nat d / 1000000000 = of_nat s + (of_nat n / 1000000000 :: rat)" by (simp add: d field_simps)
    have al: "of_nat n / 1000000000 - 1 / 2 ^ 53 \<le> a" "a \<le> of_nat n / 1000000000 + 1 / 2 ^ 53"
      using a unfolding abs_le_iff by linarith+
    have "(1 :: rat) / 1000000000 \<le> of_nat d / 1000000000" using False by (simp add: field_simps)
    moreover have "(1 :: rat) / 2 ^ 64 \<le> 1 / 1000000000 - 1 / 2 ^ 53" by simp
    ultimately have q: "(1 :: rat) / 2 ^ 64 \<le> of_nat s + a" using al(1) d' by linarith
    have "of_nat s + a \<le> 2 ^ 17"
    proof -
      have "(of_nat s :: rat) \<le> of_nat (2 ^ 16)" using s by (simp only: of_nat_le_iff less_imp_le)
      then have "(of_nat s :: rat) \<le> 2 ^ 16" by simp
      moreover have "(of_nat n / 1000000000 :: rat) \<le> 1" using n by simp
      moreover have "(2 :: rat) ^ 16 + 1 + 1 / 2 ^ 53 \<le> 2 ^ 17" by simp
      ultimately show ?thesis using al(2) by linarith
    qed
    then have "(of_nat s + a) / 2 ^ 53 \<le> 1 / 2 ^ 36" by (simp add: field_simps)
    with f64_error [OF q] have "\<bar>as_secs_f64 d - (of_nat s + a)\<bar> \<le> 1 / 2 ^ 36" unfolding as by linarith
    moreover have "(1 :: rat) / 2 ^ 36 + 1 / 2 ^ 53 \<le> 1 / 2 ^ 35" by simp
    ultimately show ?thesis using al d' unfolding abs_le_iff by linarith
  qed
qed

end
