(* ===== verification/Speakers.thy ===== *)
theory Speakers
  imports Media_Types F64 Interfaces
begin

text \<open>
  \<open>src/src/webrtc/speakers.rs\<close>: the RTP clock of one Mumble speaker and the table of speaker
  tracks of a WebRTC session. The table and the peer connection it adds tracks to form one record;
  the mutex around the table makes each operation a single step. The RTCP reader task of a speaker
  only drains incoming reports and is not modelled.
\<close>

record media_clock =
  mc_last_frame :: "u64 option"
  mc_timestamp :: u32
  mc_sequence :: u16
  mc_samples :: u32
  mc_ended :: bool
  mc_received_at :: "instant option"

definition media_clock_default :: media_clock where
  "media_clock_default = \<lparr>mc_last_frame = None, mc_timestamp = 0, mc_sequence = 0, mc_samples = 0,
     mc_ended = False, mc_received_at = None\<rparr>"

text \<open>\<open>(now.duration_since(t).as_secs_f64() * 48000.0) as u32\<close>\<close>

definition elapsed_samples :: "nat \<Rightarrow> u32" where
  "elapsed_samples d = f64_as_u32 (f64 (as_secs_f64 d * 48000))"

definition new_talk :: "media_clock \<Rightarrow> instant \<Rightarrow> bool" where
  "new_talk c now \<longleftrightarrow>
     mc_last_frame c = None \<or> mc_ended c
     \<or> (case mc_received_at c of None \<Rightarrow> False | Some prev \<Rightarrow> as_millis (now - prev) > 500)"

definition media_clock_packet ::
  "media_clock \<Rightarrow> u64 \<Rightarrow> u32 \<Rightarrow> bool \<Rightarrow> instant \<Rightarrow> (u16 \<times> u32 \<times> bool) option \<times> media_clock" where
  "media_clock_packet c frame samples ended now =
     (let fresh = new_talk c now;
          accept = (\<lambda>timestamp.
            let c' = c\<lparr>mc_last_frame := Some frame, mc_timestamp := timestamp, mc_samples := samples,
                       mc_ended := ended, mc_received_at := Some now, mc_sequence := mc_sequence c + 1\<rparr>
            in (Some (mc_sequence c', mc_timestamp c', fresh), c'))
      in case mc_last_frame c of
           None \<Rightarrow> accept (mc_timestamp c)
         | Some prev \<Rightarrow>
             if fresh then
               (let elapsed = (case mc_received_at c of None \<Rightarrow> 0 | Some t \<Rightarrow> elapsed_samples (now - t))
                in accept (mc_timestamp c + max elapsed (mc_samples c)))
             else if frame \<le> prev then (None, c)
             else accept (mc_timestamp c + ucast ((frame - prev) * 480)))"

record 'snd speaker =
  sp_track :: rtp_track
  sp_sender :: 'snd
  sp_clock :: media_clock

record ('p, 'snd) speaker_tracks =
  st_peer :: 'p
  st_speakers :: "u32 \<rightharpoonup> 'snd speaker"

definition speaker_track :: "u32 \<Rightarrow> rtp_track" where
  "speaker_track session = \<lparr>tr_mime_type = ''audio/opus'', tr_clock_rate = 48000, tr_channels = 2,
     tr_fmtp = ''minptime=10;useinbandfec=1'',
     tr_id = ''mumble-user-'' @ dec (unat session), tr_stream_id = ''mumble-stream-'' @ dec (unat session)\<rparr>"

definition speakers_new :: "'p \<Rightarrow> ('p, 'snd) speaker_tracks" where
  "speakers_new peer = \<lparr>st_peer = peer, st_speakers = Map.empty\<rparr>"

definition speakers_add ::
  "('p, 'snd) peer_ops \<Rightarrow> u32 \<Rightarrow> ('p, 'snd) speaker_tracks \<Rightarrow> unit result \<times> ('p, 'snd) speaker_tracks" where
  "speakers_add ops session t =
     (if st_speakers t session \<noteq> None then (Inr (), t)
      else (case add_track ops (speaker_track session) (st_peer t) of
              (Inl e, p) \<Rightarrow> (Inl e, t\<lparr>st_peer := p\<rparr>)
            | (Inr sender, p) \<Rightarrow>
                (Inr (), t\<lparr>st_peer := p,
                   st_speakers := (st_speakers t)(session \<mapsto>
                     \<lparr>sp_track = speaker_track session, sp_sender = sender, sp_clock = media_clock_default\<rparr>)\<rparr>)))"

definition speakers_remove ::
  "('p, 'snd) peer_ops \<Rightarrow> u32 \<Rightarrow> ('p, 'snd) speaker_tracks \<Rightarrow> unit result \<times> ('p, 'snd) speaker_tracks" where
  "speakers_remove ops session t =
     (case st_speakers t session of
        None \<Rightarrow> (Inr (), t)
      | Some sp \<Rightarrow>
          (case remove_track ops (sp_sender sp) (st_peer t) of
             (r, p) \<Rightarrow> (r, t\<lparr>st_peer := p, st_speakers := (st_speakers t)(session := None)\<rparr>)))"

definition speakers_write ::
  "('p, 'snd) peer_ops \<Rightarrow> mumble_voice_data \<Rightarrow> instant \<Rightarrow> instant \<Rightarrow>
     ('p, 'snd) speaker_tracks \<Rightarrow> unit result \<times> ('p, 'snd) speaker_tracks" where
  "speakers_write ops data now_check now_clock t =
     (if as_millis (now_check - mv_received_at data) > 120 then (Inr (), t)
      else (case st_speakers t (mv_session_id data) of
        None \<Rightarrow> (Inr (), t)
      | Some sp \<Rightarrow>
          if mv_opus_data data = [] then
            (Inr (), t\<lparr>st_speakers := (st_speakers t)(mv_session_id data \<mapsto>
               sp\<lparr>sp_clock := (sp_clock sp)\<lparr>mc_ended := mc_ended (sp_clock sp) \<or> mv_last_frame data\<rparr>\<rparr>)\<rparr>)
          else (case opus_packet_total_samples (mv_opus_data data) of
            Inl e \<Rightarrow> (Inl (opus_error_message e), t)
          | Inr samples \<Rightarrow>
              (case media_clock_packet (sp_clock sp) (mv_seq_num data) samples (mv_last_frame data) now_clock of
                 (None, c) \<Rightarrow> (Inr (), t\<lparr>st_speakers := (st_speakers t)(mv_session_id data \<mapsto> sp\<lparr>sp_clock := c\<rparr>)\<rparr>)
               | (Some (sequence_number, timestamp, marker), c) \<Rightarrow>
                   (case write_rtp ops (sp_track sp)
                      \<lparr>rp_header = \<lparr>rh_version = 2, rh_sequence_number = sequence_number,
                                    rh_timestamp = timestamp, rh_marker = marker\<rparr>,
                       rp_payload = mv_opus_data data\<rparr> (st_peer t) of
                      (r, p) \<Rightarrow> (r, t\<lparr>st_peer := p,
                         st_speakers := (st_speakers t)(mv_session_id data \<mapsto> sp\<lparr>sp_clock := c\<rparr>)\<rparr>))))))"

text \<open>
  A packet as the clock sees it: frame number, samples, end-of-talk flag, arrival time. \<open>in_talk\<close>
  describes the continuation of a talk spurt after frame \<open>f\<close> at time \<open>t\<close>: frame numbers
  increase, no gap of more than 500 ms, only the final packet may carry the end flag.
\<close>

type_synonym media_input = "u64 \<times> u32 \<times> bool \<times> instant"

definition media_step :: "media_clock \<Rightarrow> media_input \<Rightarrow> (u16 \<times> u32 \<times> bool) option \<times> media_clock" where
  "media_step c x = (case x of (frame, samples, ended, now) \<Rightarrow> media_clock_packet c frame samples ended now)"

fun in_talk :: "u64 \<Rightarrow> instant \<Rightarrow> media_input list \<Rightarrow> bool" where
  "in_talk f t [] = True"
| "in_talk f t ((f', s, e, n) # xs) \<longleftrightarrow>
     f < f' \<and> as_millis (n - t) \<le> 500 \<and> (xs \<noteq> [] \<longrightarrow> \<not> e) \<and> in_talk f' n xs"

section \<open>The clock of one speaker\<close>

lemmas media_clock_defs [clock_simps] =
  media_clock_packet_def new_talk_def media_clock_default_def

lemma media_clock_reject:
  "media_clock_packet c frame samples ended now = (None, c') \<Longrightarrow>
     c' = c \<and> \<not> new_talk c now \<and> (\<exists>prev. mc_last_frame c = Some prev \<and> frame \<le> prev)"
  by (auto simp: media_clock_packet_def Let_def split: option.splits if_splits)

lemma media_clock_accept:
  assumes "media_clock_packet c frame samples ended now = (Some (sq, ts, marker), c')"
  shows "sq = mc_sequence c + 1" and "marker = new_talk c now"
    and "mc_sequence c' = sq" and "mc_timestamp c' = ts" and "mc_last_frame c' = Some frame"
    and "mc_samples c' = samples" and "mc_ended c' = ended" and "mc_received_at c' = Some now"
  using assms by (auto simp: media_clock_packet_def Let_def split: option.splits if_splits)

text \<open>
  The advance of the RTP timestamp between two accepted packets of a talk spurt, on the natural
  numbers: with fewer than \<open>2 ^ 32\<close> samples between them nothing wraps.
\<close>

section \<open>Elapsed samples\<close>

lemma f64_as_u32_unat: "0 \<le> q \<Longrightarrow> q < 4294967295 \<Longrightarrow> int (unat (f64_as_u32 q)) = \<lfloor>q\<rfloor>"
proof -
  assume q: "0 \<le> q" "q < 4294967295"
  then have "0 \<le> \<lfloor>q\<rfloor>" "\<lfloor>q\<rfloor> < 4294967296" by linarith+
  then show ?thesis using q by (simp add: f64_as_u32_def unsigned_of_int take_bit_int_eq_self_iff)
qed

lemma elapsed_samples_accuracy:
  assumes "d < 2 ^ 16 * 1000000000"
  shows "\<bar>of_nat (unat (elapsed_samples d)) - (48000 * of_nat d / 1000000000 :: rat)\<bar> \<le> 1 + 1 / 2 ^ 18"
proof -
  let ?x = "48000 * of_nat d / 1000000000 :: rat"
  define q where "q = as_secs_f64 d * 48000"
  have "as_secs_f64 d \<le> of_nat d / 1000000000 + 1 / 2 ^ 35" "of_nat d / 1000000000 - 1 / 2 ^ 35 \<le> as_secs_f64 d"
    using as_secs_f64_error [OF assms] unfolding abs_le_iff by linarith+
  then have "q \<le> (of_nat d / 1000000000 + 1 / 2 ^ 35) * 48000" "(of_nat d / 1000000000 - 1 / 2 ^ 35) * 48000 \<le> q"
    unfolding q_def by (auto intro!: mult_right_mono)
  then have qx: "q \<le> ?x + 1 / 2 ^ 19" "?x - 1 / 2 ^ 19 \<le> q" by (simp_all add: field_simps)
  have "(of_nat d :: rat) \<le> of_nat (2 ^ 16 * 1000000000)" using assms by (simp only: of_nat_le_iff less_imp_le)
  then have x: "?x \<le> 3145728000" by simp
  show ?thesis
  proof (cases "d = 0")
    case True
    then show ?thesis by (simp add: elapsed_samples_def as_secs_f64_def f64_def f64_as_u32_def)
  next
    case False
    then have "(48000 :: rat) / 1000000000 \<le> ?x" by (simp add: field_simps)
    then have q64: "1 / 2 ^ 64 \<le> q" using qx(2) by simp
    have "q / 2 ^ 53 \<le> 1 / 2 ^ 20" using qx(1) x by simp
    then have f: "f64 q \<le> q + 1 / 2 ^ 20" "q - 1 / 2 ^ 20 \<le> f64 q"
      using f64_error [OF q64] unfolding abs_le_iff by linarith+
    have "0 \<le> f64 q" using f64_error [OF q64] q64 unfolding abs_le_iff by (simp add: field_simps)
    moreover have "f64 q < 4294967295" using f(1) qx(1) x by simp
    ultimately have "int (unat (elapsed_samples d)) = \<lfloor>f64 q\<rfloor>"
      unfolding elapsed_samples_def q_def by (rule f64_as_u32_unat)
    then have "(of_nat (unat (elapsed_samples d)) :: rat) = of_int \<lfloor>f64 q\<rfloor>" by (metis of_int_of_nat_eq)
    moreover have "of_int \<lfloor>f64 q\<rfloor> \<le> f64 q" "f64 q < of_int \<lfloor>f64 q\<rfloor> + 1" by linarith+
    moreover have "(1 :: rat) / 2 ^ 19 + 1 / 2 ^ 20 \<le> 1 / 2 ^ 18" by simp
    ultimately show ?thesis using f qx unfolding abs_le_iff by linarith
  qed
qed

section \<open>Runs of the clock\<close>

lemma ucast_add_down: "(ucast (a + b :: u64) :: u32) = ucast a + ucast b"
proof transfer
  fix a b :: int
  have "take_bit 32 (take_bit 64 a + take_bit 64 b)
      = take_bit 32 (take_bit 32 (take_bit 64 a) + take_bit 32 (take_bit 64 b))"
    by (simp only: take_bit_add)
  then show "take_bit LENGTH(32) (take_bit LENGTH(64) (a + b))
      = take_bit LENGTH(32) (take_bit LENGTH(64) a + take_bit LENGTH(64) b)"
    by (simp add: take_bit_add)
qed

lemma media_run_sequences:
  "clock_run media_step c xs = (os, c') \<Longrightarrow>
     map fst os = map (\<lambda>i. mc_sequence c + of_nat (Suc i)) [0..<length os] \<and> mc_sequence c' = mc_sequence c + of_nat (length os)"
proof (induction xs arbitrary: c os c')
  case Nil
  then show ?case by simp
next
  case (Cons x xs)
  obtain frame samples ended now where x: "x = (frame, samples, ended, now)" by (cases x)
  obtain o1 c1 where s: "media_step c x = (o1, c1)" by fastforce
  obtain os2 c2 where r: "clock_run media_step c1 xs = (os2, c2)" by fastforce
  note ih = Cons.IH [OF r]
  show ?case
  proof (cases o1)
    case None
    then have "c1 = c" using s by (auto simp: media_step_def x dest: media_clock_reject)
    then show ?thesis using ih Cons.prems s r None by auto
  next
    case (Some y)
    obtain sq ts m where y: "y = (sq, ts, m)" by (cases y)
    have c1: "sq = mc_sequence c + 1" "mc_sequence c1 = mc_sequence c + 1"
      using s media_clock_accept(1,3) [of c frame samples ended now sq ts m c1] by (simp_all add: media_step_def x Some y)
    have os: "os = y # os2" "c' = c2" using Cons.prems s r Some by auto
    have "[0..<length os] = 0 # map Suc [0..<length os2]" by (metis os(1) length_Cons map_Suc_upt upt_conv_Cons zero_less_Suc)
    then show ?thesis using ih c1 by (simp add: os y ac_simps)
  qed
qed

lemma media_run_in_talk:
  assumes "mc_last_frame c = Some f" and "\<not> mc_ended c" and "mc_received_at c = Some t" and "in_talk f t xs"
  shows "\<exists>os c'. clock_run media_step c xs = (os, c') \<and>
    map snd os = map (\<lambda>(f', _). (mc_timestamp c + ucast ((f' - f) * 480), False)) xs"
  using assms
proof (induction xs arbitrary: c f t)
  case Nil
  then show ?case by simp
next
  case (Cons x xs)
  obtain f' s e n where x: "x = (f', s, e, n)" by (cases x)
  let ?c = "c\<lparr>mc_last_frame := Some f', mc_timestamp := mc_timestamp c + ucast ((f' - f) * 480), mc_samples := s,
    mc_ended := e, mc_received_at := Some n, mc_sequence := mc_sequence c + 1\<rparr>"
  have talk: "f < f'" "as_millis (n - t) \<le> 500" "xs \<noteq> [] \<longrightarrow> \<not> e" "in_talk f' n xs"
    using Cons.prems(4) by (auto simp: x)
  have s1: "media_step c x = (Some (mc_sequence c + 1, mc_timestamp c + ucast ((f' - f) * 480), False), ?c)"
    using Cons.prems(1-3) talk(1,2) by (simp add: media_step_def x media_clock_packet_def Let_def new_talk_def)
  show ?case
  proof (cases "xs = []")
    case True
    then show ?thesis using s1 by (simp add: x)
  next
    case False
    then have "mc_last_frame ?c = Some f'" "\<not> mc_ended ?c" "mc_received_at ?c = Some n" using talk(3) by simp_all
    from Cons.IH [OF this talk(4)] obtain os c' where r: "clock_run media_step ?c xs = (os, c')"
      and o: "map snd os = map (\<lambda>(g, _). (mc_timestamp ?c + ucast ((g - f') * 480), False)) xs" by blast
    have shift: "mc_timestamp ?c + ucast ((g - f') * 480) = mc_timestamp c + ucast ((g - f) * 480)" for g :: u64
      by (simp add: ac_simps flip: ucast_add_down)
    from o have "map snd os = map (\<lambda>(g, _). (mc_timestamp c + ucast ((g - f) * 480), False)) xs"
      by (simp only: shift)
    then show ?thesis using s1 r by (simp add: x)
  qed
qed

section \<open>The table of speakers\<close>

lemma speaker_clock_self [simp]: "\<exists>c. sp = sp\<lparr>sp_clock := c\<rparr>"
  by (rule exI [of _ "sp_clock sp"]) simp

lemma speakers_add_dom:
  "speakers_add ops s t = (r, t') \<Longrightarrow>
     dom (st_speakers t') = (if is_ok r then insert s (dom (st_speakers t)) else dom (st_speakers t))"
  by (auto simp: speakers_add_def split: if_splits prod.splits sum.splits)

lemma speakers_add_keeps:
  "speakers_add ops s t = (r, t') \<Longrightarrow> st_speakers t k = Some sp \<Longrightarrow> st_speakers t' k = Some sp"
  by (auto simp: speakers_add_def split: if_splits prod.splits sum.splits)

lemma speakers_remove_dom:
  "speakers_remove ops s t = (r, t') \<Longrightarrow> dom (st_speakers t') = dom (st_speakers t) - {s}"
  by (auto simp: speakers_remove_def split: option.splits prod.splits if_splits)

lemma speakers_write_frame:
  assumes "speakers_write ops d n1 n2 t = (r, t')"
  shows "dom (st_speakers t') = dom (st_speakers t)"
    and "k \<noteq> mv_session_id d \<Longrightarrow> st_speakers t' k = st_speakers t k"
    and "st_speakers t k = Some sp \<Longrightarrow> \<exists>sp'. st_speakers t' k = Some sp' \<and> sp_track sp' = sp_track sp \<and> sp_sender sp' = sp_sender sp"
  using assms
  by (auto simp: speakers_write_def split: if_splits option.splits sum.splits prod.splits)

text \<open>
  One talk spurt, from a new speaker: every packet is forwarded, with consecutive sequence numbers, timestamps of 480
  samples per Mumble frame after the first, and the marker on the first packet only.
\<close>

lemma media_talk_run:
  assumes "in_talk f t xs" and "xs \<noteq> [] \<longrightarrow> \<not> e"
  shows "\<exists>os c. clock_run media_step media_clock_default ((f, s, e, t) # xs) = (os, c) \<and>
    length os = Suc (length xs) \<and>
    map fst os = map (\<lambda>i. of_nat (Suc i)) [0..<Suc (length xs)] \<and>
    map snd os = (0, True) # map (\<lambda>(f', _). (ucast ((f' - f) * 480), False)) xs"
proof -
  let ?c = "media_clock_default\<lparr>mc_last_frame := Some f, mc_samples := s, mc_ended := e,
    mc_received_at := Some t, mc_sequence := 1\<rparr>"
  have s1: "media_step media_clock_default (f, s, e, t) = (Some (1, 0, True), ?c)"
    by (simp add: media_step_def clock_simps)
  obtain os c where r: "clock_run media_step ?c xs = (os, c)"
    and snds: "map snd os = map (\<lambda>(f', _). (ucast ((f' - f) * 480), False)) xs"
  proof (cases "xs = []")
    case False
    with assms show thesis
      using that media_run_in_talk [of ?c f t xs] by (auto simp: media_clock_default_def)
  qed (use that in simp)
  have all: "clock_run media_step media_clock_default ((f, s, e, t) # xs) = ((1, 0, True) # os, c)"
    using s1 r by simp
  have len: "length os = length xs" using snds by (metis length_map)
  from media_run_sequences [OF all] len show ?thesis
    using all snds by (simp add: media_clock_default_def)
qed

text \<open>
  A new talk spurt of a known speaker continues the same RTP clock: it sets the marker and
  advances the timestamp by the duration of the pause (48 kHz, within a sample and a quarter
  thousandth, for pauses below 18 hours) or by the previous packet's samples if that is more, so
  the new packet never overlaps the previous one.
\<close>

lemma media_new_talk_continues_clock:
  assumes "mc_last_frame c = Some prev" and "mc_received_at c = Some t" and "new_talk c now"
    and "now - t < 2 ^ 16 * 1000000000"
  shows "\<exists>ts c' adv. media_clock_packet c frame samples ended now = (Some (mc_sequence c + 1, ts, True), c') \<and>
    ts = mc_timestamp c + adv \<and> mc_samples c \<le> adv \<and>
    (adv = mc_samples c \<or> \<bar>of_nat (unat adv) - (48000 * of_nat (now - t) / 1000000000 :: rat)\<bar> \<le> 1 + 1 / 2 ^ 18)"
proof -
  let ?adv = "max (elapsed_samples (now - t)) (mc_samples c)"
  obtain c' where "media_clock_packet c frame samples ended now = (Some (mc_sequence c + 1, mc_timestamp c + ?adv, True), c')"
    using assms by (simp add: media_clock_packet_def Let_def)
  moreover have "mc_samples c \<le> ?adv" by simp
  moreover have "?adv = mc_samples c \<or> ?adv = elapsed_samples (now - t)" by (simp add: max_def)
  ultimately show ?thesis using elapsed_samples_accuracy [OF assms(4)] by metis
qed

text \<open>
  Speakers are independent: forwarding a Mumble packet never adds or drops a speaker, leaves
  every other speaker's track, sender and clock untouched, and when it reports an error it has
  changed nothing but, at most, handed a packet to the speaker's own track.
\<close>

lemma speakers_write_isolated:
  assumes "speakers_write ops d now1 now2 t = (r, t')"
  shows "dom (st_speakers t') = dom (st_speakers t)
    \<and> (\<forall>k. k \<noteq> mv_session_id d \<longrightarrow> st_speakers t' k = st_speakers t k)
    \<and> (\<forall>sp. st_speakers t (mv_session_id d) = Some sp \<longrightarrow>
        (\<exists>c. st_speakers t' (mv_session_id d) = Some (sp\<lparr>sp_clock := c\<rparr>)))
    \<and> (\<not> is_ok r \<longrightarrow> t' = t \<or> is_ok (opus_packet_total_samples (mv_opus_data d)))"
  using assms
  by (auto simp: speakers_write_def split: if_splits option.splits sum.splits prod.splits)

end
