(* ===== verification/Webrtc_Session.thy ===== *)
theory Webrtc_Session
  imports Speakers Config
begin

text \<open>
  \<open>src/src/webrtc/mod.rs\<close> and \<open>src/src/webrtc/audio.rs\<close>: offers, answers and ICE candidates of one
  peer connection, and the reader of the browser's audio track. The peer is shared with the
  speaker tracks, which hold its state; the library is the record of operations \<open>ops\<close>.
\<close>

section \<open>The media engine\<close>

text \<open>
  The settings \<open>create_api\<close> gives the library: IPv4 only, no multicast DNS, one UDP socket for all
  sessions, and the public address advertised for host candidates. The test network is absent. The outcomes of the codec
  registration and of binding the socket are arguments.
\<close>

record media_api =
  ma_udp4_only :: bool
  ma_mdns :: bool
  ma_include_loopback :: bool
  ma_nat_1to1 :: "ipv4 list"
  ma_socket :: "socket_addr option"

definition is_loopback :: "ipv4 \<Rightarrow> bool" where
  "is_loopback a \<longleftrightarrow> drop_bit 24 a = 127"

definition create_api :: "unit result \<Rightarrow> (socket_addr \<Rightarrow> unit result) \<Rightarrow> webrtc_config \<Rightarrow> media_api result" where
  "create_api codecs bind config =
     (case codecs of
        Inl e \<Rightarrow> Inl e
      | Inr _ \<Rightarrow> (case bind (Sock4 UNSPECIFIED (wc_udp_port config)) of
          Inl e \<Rightarrow> Inl ''bind WebRTC UDP media port''
        | Inr _ \<Rightarrow> Inr \<lparr>ma_udp4_only = True, ma_mdns = False,
            ma_include_loopback = (case wc_public_ip config of Some ip \<Rightarrow> is_loopback ip | None \<Rightarrow> False),
            ma_nat_1to1 = (case wc_public_ip config of Some ip \<Rightarrow> [ip] | None \<Rightarrow> []),
            ma_socket = Some (Sock4 UNSPECIFIED (wc_udp_port config))\<rparr>))"

definition media_api_close :: "media_api \<Rightarrow> media_api" where
  "media_api_close a = a\<lparr>ma_socket := None\<rparr>"

section \<open>Offers, answers, candidates\<close>

record ('p, 'snd) webrtc_session =
  ws_speakers :: "('p, 'snd) speaker_tracks"
  ws_started :: bool
  ws_needs_offer :: bool
  ws_restart_pending :: bool
  ws_pending_candidates :: "ice_candidate_init list"

definition ws_peer :: "('p, 'snd) webrtc_session \<Rightarrow> 'p" where
  "ws_peer s = st_peer (ws_speakers s)"

definition with_peer :: "'p \<Rightarrow> ('p, 'snd) webrtc_session \<Rightarrow> ('p, 'snd) webrtc_session" where
  "with_peer p s = s\<lparr>ws_speakers := (ws_speakers s)\<lparr>st_peer := p\<rparr>\<rparr>"

text \<open>\<open>new\<close>: the peer connection and its receive-only audio transceiver.\<close>

definition webrtc_session_new :: "'p result \<Rightarrow> ('p \<Rightarrow> unit result \<times> 'p) \<Rightarrow> ('p, 'snd) webrtc_session result" where
  "webrtc_session_new new_peer add_recvonly_audio =
     (case new_peer of
        Inl e \<Rightarrow> Inl e
      | Inr peer \<Rightarrow> (case add_recvonly_audio peer of
          (Inl e, _) \<Rightarrow> Inl e
        | (Inr _, p) \<Rightarrow> Inr \<lparr>ws_speakers = speakers_new p, ws_started = False, ws_needs_offer = False,
            ws_restart_pending = False, ws_pending_candidates = []\<rparr>))"

text \<open>
  The callbacks \<open>new\<close> registers on the peer connection put events on the session's channel: a local candidate if it can be
  converted (\<open>to_json\<close> is the library's, \<open>None\<close> the end of gathering), the need to negotiate, and each change of the connection state.
\<close>

datatype 'c peer_callback =
  On_ice_candidate "'c option"
| On_negotiation_needed
| On_peer_connection_state_change peer_connection_state

definition callback_events :: "('c \<Rightarrow> ice_candidate_init result) \<Rightarrow> 'c peer_callback \<Rightarrow> webrtc_event list" where
  "callback_events candidate_json cb = (case cb of
     On_ice_candidate (Some candidate) \<Rightarrow> (case candidate_json candidate of Inr init \<Rightarrow> [IceCandidateEvent init] | Inl _ \<Rightarrow> [])
   | On_ice_candidate None \<Rightarrow> []
   | On_negotiation_needed \<Rightarrow> [NegotiationNeeded]
   | On_peer_connection_state_change state \<Rightarrow> [ConnectionStateChanged state])"

definition offer :: "('p, 'snd) peer_ops \<Rightarrow> bool \<Rightarrow> ('p, 'snd) webrtc_session \<Rightarrow> string option result \<times> ('p, 'snd) webrtc_session" where
  "offer ops restart s0 =
     (let s = s0\<lparr>ws_restart_pending := (ws_restart_pending s0 \<or> restart)\<rparr>
      in if \<not> ws_started s then (Inr None, s)
         else if signaling_state ops (ws_peer s) \<noteq> Stable then (Inr None, s\<lparr>ws_needs_offer := True\<rparr>)
         else (case create_offer ops (ws_restart_pending s) (ws_peer s) of
                 (Inl e, p) \<Rightarrow> (Inl e, with_peer p s)
               | (Inr sdp, p) \<Rightarrow>
                   (case set_local_description ops sdp p of
                      (r, p') \<Rightarrow>
                        (map_sum id (\<lambda>_. Some sdp) r,
                         with_peer p' (s\<lparr>ws_restart_pending := False, ws_needs_offer := False\<rparr>)))))"

fun add_candidates :: "('p, 'snd) peer_ops \<Rightarrow> ice_candidate_init list \<Rightarrow> 'p \<Rightarrow> unit result \<times> 'p" where
  "add_candidates ops [] p = (Inr (), p)"
| "add_candidates ops (c # cs) p =
     (case peer_add_ice_candidate ops c p of
        (Inl e, p') \<Rightarrow> (Inl e, p')
      | (Inr _, p') \<Rightarrow> add_candidates ops cs p')"

text \<open>Dropping the \<open>drain(..)\<close> iterator empties the queue also when a candidate fails.\<close>

definition answer :: "('p, 'snd) peer_ops \<Rightarrow> string \<Rightarrow> ('p, 'snd) webrtc_session \<Rightarrow> string option result \<times> ('p, 'snd) webrtc_session" where
  "answer ops sdp s =
     (case answer_description ops sdp of
        Inl e \<Rightarrow> (Inl e, s)
      | Inr desc \<Rightarrow> (case set_remote_description ops desc (ws_peer s) of
          (Inl e, p) \<Rightarrow> (Inl e, with_peer p s)
        | (Inr _, p) \<Rightarrow> (case add_candidates ops (ws_pending_candidates s) p of
            (Inl e, p') \<Rightarrow> (Inl e, with_peer p' (s\<lparr>ws_pending_candidates := []\<rparr>))
          | (Inr _, p') \<Rightarrow>
              (let s' = with_peer p' (s\<lparr>ws_pending_candidates := []\<rparr>)
               in if ws_needs_offer s' then offer ops False s' else (Inr None, s')))))"

definition add_ice_candidate :: "('p, 'snd) peer_ops \<Rightarrow> string \<Rightarrow> string option \<Rightarrow> u16 option \<Rightarrow> ('p, 'snd) webrtc_session
    \<Rightarrow> unit result \<times> ('p, 'snd) webrtc_session" where
  "add_ice_candidate ops candidate sdp_mid sdp_mline_index s =
     (let init = \<lparr>ic_candidate = candidate, ic_sdp_mid = sdp_mid, ic_sdp_mline_index = sdp_mline_index\<rparr>
      in if remote_description ops (ws_peer s) = None \<or> signaling_state ops (ws_peer s) = HaveLocalOffer
         then (if length (ws_pending_candidates s) < 128
               then (Inr (), s\<lparr>ws_pending_candidates := ws_pending_candidates s @ [init]\<rparr>)
               else (Inl ''too many pending ICE candidates'', s))
         else (case peer_add_ice_candidate ops init (ws_peer s) of (r, p) \<Rightarrow> (r, with_peer p s)))"

definition webrtc_close :: "('p, 'snd) peer_ops \<Rightarrow> ('p, 'snd) webrtc_session \<Rightarrow> unit result \<times> ('p, 'snd) webrtc_session" where
  "webrtc_close ops s = (case peer_close ops (ws_peer s) of (r, p) \<Rightarrow> (r, with_peer p s))"

section \<open>The browser's audio track\<close>

datatype track_read = Read_rtp rtp_packet instant try_send_result | Read_error string

definition handles_track :: "bool \<Rightarrow> string \<Rightarrow> bool" where
  "handles_track is_audio mime \<longleftrightarrow> is_audio \<and> map to_ascii_lower mime = ''audio/opus''"

definition audio_packet :: "rtp_packet \<Rightarrow> instant \<Rightarrow> incoming_audio_packet" where
  "audio_packet pkt now = \<lparr>ia_opus_data = rp_payload pkt, ia_seq_num = rh_sequence_number (rp_header pkt),
     ia_timestamp = rh_timestamp (rp_header pkt), ia_received_at = now\<rparr>"

fun incoming_audio_run :: "track_read list \<Rightarrow> incoming_audio_packet list" where
  "incoming_audio_run [] = []"
| "incoming_audio_run (Read_error e # rs) = []"
| "incoming_audio_run (Read_rtp pkt now res # rs) =
     (case res of
        SendOk \<Rightarrow> audio_packet pkt now # incoming_audio_run rs
      | SendFull \<Rightarrow> incoming_audio_run rs
      | SendClosed \<Rightarrow> [])"

section \<open>The documented behaviour of the peer connection\<close>

text \<open>
  The part of JSEP (RFC 8829) the session relies on: creating an offer, adding candidates, tracks and
  RTP packets do not change the signalling state; a local offer applied in \<open>Stable\<close> leads to
  \<open>HaveLocalOffer\<close>, an answer is applied only there and leads back to \<open>Stable\<close>; a description that is refused changes
  nothing; a closed connection is in the closed state.
\<close>

definition jsep :: "('p, 'snd) peer_ops \<Rightarrow> bool" where
  "jsep ops \<longleftrightarrow>
     (\<forall>b p. signaling_state ops (snd (create_offer ops b p)) = signaling_state ops p) \<and>
     (\<forall>sdp p p'. signaling_state ops p = Stable \<longrightarrow> set_local_description ops sdp p = (Inr (), p') \<longrightarrow>
        signaling_state ops p' = HaveLocalOffer) \<and>
     (\<forall>sdp p p'. set_remote_description ops sdp p = (Inr (), p') \<longrightarrow>
        signaling_state ops p = HaveLocalOffer \<and> signaling_state ops p' = Stable) \<and>
     (\<forall>c p. signaling_state ops (snd (peer_add_ice_candidate ops c p)) = signaling_state ops p) \<and>
     (\<forall>sdp p e p'. set_local_description ops sdp p = (Inl e, p') \<longrightarrow> signaling_state ops p' = signaling_state ops p) \<and>
     (\<forall>sdp p e p'. set_remote_description ops sdp p = (Inl e, p') \<longrightarrow> signaling_state ops p' = signaling_state ops p) \<and>
     (\<forall>tr p. signaling_state ops (snd (add_track ops tr p)) = signaling_state ops p) \<and>
     (\<forall>x p. signaling_state ops (snd (remove_track ops x p)) = signaling_state ops p) \<and>
     (\<forall>tr k p. signaling_state ops (snd (write_rtp ops tr k p)) = signaling_state ops p) \<and>
     (\<forall>p. signaling_state ops (snd (peer_close ops p)) = ClosedSignaling)"

text \<open>The operations the session manager makes on the session.\<close>

datatype ws_op = W_start | W_offer bool | W_answer string | W_candidate string "string option" "u16 option" | W_add u32 | W_remove u32
  | W_write mumble_voice_data instant instant | W_close

definition ws_apply :: "('p, 'snd) peer_ops \<Rightarrow> ws_op \<Rightarrow> ('p, 'snd) webrtc_session \<Rightarrow> ('p, 'snd) webrtc_session" where
  "ws_apply ops oper s = (case oper of
     W_start \<Rightarrow> s\<lparr>ws_started := True\<rparr>
   | W_offer r \<Rightarrow> snd (offer ops r s)
   | W_answer sdp \<Rightarrow> snd (answer ops sdp s)
   | W_candidate c mid idx \<Rightarrow> snd (add_ice_candidate ops c mid idx s)
   | W_add u \<Rightarrow> s\<lparr>ws_speakers := snd (speakers_add ops u (ws_speakers s))\<rparr>
   | W_remove u \<Rightarrow> s\<lparr>ws_speakers := snd (speakers_remove ops u (ws_speakers s))\<rparr>
   | W_write d n1 n2 \<Rightarrow> s\<lparr>ws_speakers := snd (speakers_write ops d n1 n2 (ws_speakers s))\<rparr>
   | W_close \<Rightarrow> snd (webrtc_close ops s))"

definition ws_fresh :: "('p, 'snd) webrtc_session \<Rightarrow> bool" where
  "ws_fresh s \<longleftrightarrow> (\<exists>p. webrtc_session_new (Inr p) (\<lambda>p. (Inr (), p)) = Inr s)"

definition ws_inv :: "('p, 'snd) webrtc_session \<Rightarrow> bool" where
  "ws_inv s \<longleftrightarrow> length (ws_pending_candidates s) \<le> 128 \<and> (ws_needs_offer s \<longrightarrow> ws_started s)"

lemma with_peer_simps [simp]:
  "ws_peer (with_peer p s) = p" "ws_started (with_peer p s) = ws_started s" "ws_needs_offer (with_peer p s) = ws_needs_offer s"
  "ws_restart_pending (with_peer p s) = ws_restart_pending s" "ws_pending_candidates (with_peer p s) = ws_pending_candidates s"
  by (simp_all add: with_peer_def ws_peer_def)

lemma ws_peer_updates [simp]:
  "ws_peer (s\<lparr>ws_restart_pending := a\<rparr>) = ws_peer s" "ws_peer (s\<lparr>ws_needs_offer := a\<rparr>) = ws_peer s"
  "ws_peer (s\<lparr>ws_pending_candidates := cs\<rparr>) = ws_peer s" "ws_peer (s\<lparr>ws_started := a\<rparr>) = ws_peer s"
  by (simp_all add: ws_peer_def)

lemma offer_inv: "ws_inv s \<Longrightarrow> ws_inv (snd (offer ops r s))"
  by (auto simp: offer_def ws_inv_def Let_def split: sum.split prod.split)

lemma answer_inv: "ws_inv s \<Longrightarrow> ws_inv (snd (answer ops sdp s))"
proof -
  assume inv: "ws_inv s"
  have "ws_inv (with_peer p (s\<lparr>ws_pending_candidates := []\<rparr>))" "ws_inv (with_peer p s)" for p
    using inv by (auto simp: ws_inv_def)
  then show ?thesis using inv by (auto simp: answer_def Let_def intro: offer_inv split: sum.split prod.split)
qed

lemma ws_apply_inv: "ws_inv s \<Longrightarrow> ws_inv (ws_apply ops oper s)"
proof (cases oper)
  case (W_candidate c mid idx)
  assume "ws_inv s"
  with W_candidate show ?thesis
    by (auto simp: ws_apply_def add_ice_candidate_def ws_inv_def Let_def split: prod.split)
next
  case W_close
  assume "ws_inv s"
  with W_close show ?thesis by (auto simp: ws_apply_def webrtc_close_def ws_inv_def split: prod.split)
qed (auto simp: ws_apply_def offer_inv answer_inv, auto simp: ws_inv_def)

lemma ws_fresh_inv: "ws_fresh s \<Longrightarrow> ws_inv s"
  by (auto simp: ws_fresh_def webrtc_session_new_def ws_inv_def)

section \<open>Negotiation\<close>

lemma offer_while_outstanding:
  "ws_started s \<Longrightarrow> signaling_state ops (ws_peer s) \<noteq> Stable \<Longrightarrow>
     offer ops r s = (Inr None, s\<lparr>ws_restart_pending := (ws_restart_pending s \<or> r), ws_needs_offer := True\<rparr>)"
  by (simp add: offer_def Let_def)

lemma offers_while_outstanding:
  assumes "ws_started s" and "signaling_state ops (ws_peer s) \<noteq> Stable" and "rs \<noteq> []"
  shows "fold (\<lambda>r s. snd (offer ops r s)) rs s = s\<lparr>ws_restart_pending := (ws_restart_pending s \<or> True \<in> set rs), ws_needs_offer := True\<rparr>"
  using assms
proof (induction rs arbitrary: s)
  case (Cons r rs)
  let ?s = "s\<lparr>ws_restart_pending := (ws_restart_pending s \<or> r), ws_needs_offer := True\<rparr>"
  have o: "snd (offer ops r s) = ?s" using Cons.prems by (simp add: offer_while_outstanding)
  show ?case
  proof (cases "rs = []")
    case False
    with Cons.IH [of ?s] Cons.prems o show ?thesis by (simp add: disj_ac)
  qed (use o in auto)
qed simp

lemma jsep_keeps:
  assumes "jsep ops"
  shows "create_offer ops b p = (x, p') \<Longrightarrow> signaling_state ops p' = signaling_state ops p"
    and "peer_add_ice_candidate ops c p = (y, p') \<Longrightarrow> signaling_state ops p' = signaling_state ops p"
    and "set_local_description ops sdp p = (Inl e, p') \<Longrightarrow> signaling_state ops p' = signaling_state ops p"
    and "set_remote_description ops sdp p = (Inl e, p') \<Longrightarrow> signaling_state ops p' = signaling_state ops p"
    and "add_track ops tr p = (z, p') \<Longrightarrow> signaling_state ops p' = signaling_state ops p"
    and "remove_track ops v p = (y, p') \<Longrightarrow> signaling_state ops p' = signaling_state ops p"
    and "write_rtp ops tr k p = (y, p') \<Longrightarrow> signaling_state ops p' = signaling_state ops p"
  using assms unfolding jsep_def by (metis snd_conv)+

lemma jsep_moves:
  assumes "jsep ops"
  shows "signaling_state ops p = Stable \<Longrightarrow> set_local_description ops sdp p = (Inr u, p') \<Longrightarrow> signaling_state ops p' = HaveLocalOffer"
    and "set_remote_description ops sdp p = (Inr u, p') \<Longrightarrow> signaling_state ops p = HaveLocalOffer \<and> signaling_state ops p' = Stable"
    and "peer_close ops p = (y, p') \<Longrightarrow> signaling_state ops p' = ClosedSignaling"
  using assms unfolding jsep_def by (auto, metis snd_conv)

lemma jsep_candidates: "jsep ops \<Longrightarrow> signaling_state ops (snd (add_candidates ops cs p)) = signaling_state ops p"
proof (induction cs arbitrary: p)
  case (Cons c cs)
  obtain x p' where x: "peer_add_ice_candidate ops c p = (x, p')" by fastforce
  with jsep_keeps(2) [OF Cons.prems x] Cons show ?case by (cases x) simp_all
qed simp

lemma answer_ok:
  assumes "answer_description ops sdp = Inr desc" and "set_remote_description ops desc (ws_peer s) = (Inr (), p1)"
    and "add_candidates ops (ws_pending_candidates s) p1 = (Inr (), p2)"
  shows "answer ops sdp s = (let s' = with_peer p2 (s\<lparr>ws_pending_candidates := []\<rparr>)
           in if ws_needs_offer s' then offer ops False s' else (Inr None, s'))"
  using assms by (simp add: answer_def)

section \<open>The signalling trace\<close>

text \<open>
  What a session says to the browser and hears from it: the offers handed out and the answers
  applied, in order.
\<close>

datatype signal = Sent_offer string | Applied_answer string

definition offer_signals :: "string option result \<Rightarrow> signal list" where
  "offer_signals r = (case r of Inr (Some sdp) \<Rightarrow> [Sent_offer sdp] | _ \<Rightarrow> [])"

definition answer_applied :: "('p, 'snd) peer_ops \<Rightarrow> string \<Rightarrow> ('p, 'snd) webrtc_session \<Rightarrow> bool" where
  "answer_applied ops sdp s = (case answer_description ops sdp of
     Inl _ \<Rightarrow> False | Inr d \<Rightarrow> is_ok (fst (set_remote_description ops d (ws_peer s))))"

definition ws_signals :: "('p, 'snd) peer_ops \<Rightarrow> ws_op \<Rightarrow> ('p, 'snd) webrtc_session \<Rightarrow> signal list" where
  "ws_signals ops oper s = (case oper of
     W_offer r \<Rightarrow> offer_signals (fst (offer ops r s))
   | W_answer sdp \<Rightarrow> (if answer_applied ops sdp s then [Applied_answer sdp] else []) @ offer_signals (fst (answer ops sdp s))
   | _ \<Rightarrow> [])"

fun alternating :: "bool \<Rightarrow> signal list \<Rightarrow> bool" where
  "alternating waiting [] = True"
| "alternating waiting (Sent_offer sdp # xs) \<longleftrightarrow> \<not> waiting \<and> alternating True xs"
| "alternating waiting (Applied_answer sdp # xs) \<longleftrightarrow> waiting \<and> alternating False xs"

fun waiting_after :: "bool \<Rightarrow> signal list \<Rightarrow> bool" where
  "waiting_after waiting [] = waiting"
| "waiting_after waiting (Sent_offer sdp # xs) = waiting_after True xs"
| "waiting_after waiting (Applied_answer sdp # xs) = waiting_after False xs"

definition signal_inv :: "('p, 'snd) peer_ops \<Rightarrow> bool \<Rightarrow> ('p, 'snd) webrtc_session \<Rightarrow> bool" where
  "signal_inv ops waiting s \<longleftrightarrow>
     (signaling_state ops (ws_peer s) = HaveLocalOffer \<longrightarrow> waiting) \<and> (signaling_state ops (ws_peer s) = Stable \<longrightarrow> \<not> waiting)"

lemma alternating_append: "alternating w (xs @ ys) \<longleftrightarrow> alternating w xs \<and> alternating (waiting_after w xs) ys"
  by (induction w xs rule: waiting_after.induct) auto

lemma waiting_append: "waiting_after w (xs @ ys) = waiting_after (waiting_after w xs) ys"
  by (induction w xs rule: waiting_after.induct) auto

lemma offer_signals_simps [simp]:
  "offer_signals (Inl e) = []" "offer_signals (Inr None) = []" "offer_signals (Inr (Some sdp)) = [Sent_offer sdp]"
  by (simp_all add: offer_signals_def)

lemma offer_signal:
  assumes j: "jsep ops" and o: "offer ops r s = (x, s')"
  shows "(\<exists>sdp. x = Inr (Some sdp) \<and> signaling_state ops (ws_peer s) = Stable \<and> signaling_state ops (ws_peer s') = HaveLocalOffer) \<or>
    offer_signals x = [] \<and> signaling_state ops (ws_peer s') = signaling_state ops (ws_peer s)"
proof (cases "ws_started s \<and> signaling_state ops (ws_peer s) = Stable")
  case True
  obtain y p where c: "create_offer ops (ws_restart_pending s \<or> r) (ws_peer s) = (y, p)" by fastforce
  then have p: "signaling_state ops p = Stable" using jsep_keeps(1) [OF j c] True by simp
  show ?thesis
  proof (cases y)
    case (Inl e)
    with o True c p show ?thesis by (auto simp: offer_def offer_signals_def Let_def)
  next
    case (Inr sdp)
    obtain z p' where l: "set_local_description ops sdp p = (z, p')" by fastforce
    with o True c Inr have x: "x = map_sum id (\<lambda>_. Some sdp) z" and s': "ws_peer s' = p'" by (auto simp: offer_def Let_def)
    show ?thesis
    proof (cases z)
      case (Inl e)
      with jsep_keeps(3) [OF j l [unfolded Inl]] p True s' x show ?thesis by (simp add: offer_signals_def)
    next
      case (Inr u)
      with jsep_moves(1) [OF j p l [unfolded Inr]] True s' x show ?thesis by simp
    qed
  qed
next
  case False
  with o show ?thesis by (auto simp: offer_def offer_signals_def Let_def split: if_splits)
qed

lemma answer_signal:
  assumes j: "jsep ops" and a: "answer ops sdp s = (x, s')"
  shows "if answer_applied ops sdp s
    then signaling_state ops (ws_peer s) = HaveLocalOffer \<and>
      ((\<exists>o2. x = Inr (Some o2) \<and> signaling_state ops (ws_peer s') = HaveLocalOffer) \<or>
       offer_signals x = [] \<and> signaling_state ops (ws_peer s') = Stable)
    else offer_signals x = [] \<and> signaling_state ops (ws_peer s') = signaling_state ops (ws_peer s)"
proof (cases "answer_description ops sdp")
  case (Inl e)
  with a show ?thesis by (auto simp: answer_def answer_applied_def offer_signals_def)
next
  case (Inr desc)
  obtain y p where r: "set_remote_description ops desc (ws_peer s) = (y, p)" by fastforce
  show ?thesis
  proof (cases y)
    case (Inl e)
    with a Inr r have "x = Inl e" "s' = with_peer p s" by (auto simp: answer_def)
    moreover have "signaling_state ops p = signaling_state ops (ws_peer s)" by (rule jsep_keeps(4) [OF j r [unfolded Inl]])
    ultimately show ?thesis using Inr r Inl by (simp add: answer_applied_def offer_signals_def)
  next
    case (Inr u)
    then have st: "signaling_state ops (ws_peer s) = HaveLocalOffer" "signaling_state ops p = Stable"
      using jsep_moves(2) [OF j r [unfolded Inr]] by auto
    obtain z q where c: "add_candidates ops (ws_pending_candidates s) p = (z, q)" by fastforce
    with st jsep_candidates [OF j, of "ws_pending_candidates s" p] have q: "signaling_state ops q = Stable" by simp
    let ?s = "with_peer q (s\<lparr>ws_pending_candidates := []\<rparr>)"
    have app: "answer_applied ops sdp s" using \<open>answer_description ops sdp = Inr desc\<close> r Inr by (simp add: answer_applied_def)
    have ans: "answer ops sdp s = (case z of Inl e \<Rightarrow> (Inl e, ?s) | Inr _ \<Rightarrow> if ws_needs_offer ?s then offer ops False ?s else (Inr None, ?s))"
      using \<open>answer_description ops sdp = Inr desc\<close> r Inr c by (simp add: answer_def Let_def split: sum.split)
    consider (none) "offer_signals x = []" "s' = ?s" | (again) "offer ops False ?s = (x, s')"
      using a ans by (cases z; cases "ws_needs_offer ?s") auto
    then show ?thesis
    proof cases
      case none
      with app st q show ?thesis by simp
    next
      case again
      from offer_signal [OF j this] q st(1) app show ?thesis by auto
    qed
  qed
qed

lemma ws_apply_signaling:
  assumes "jsep ops" and "\<And>r. oper \<noteq> W_offer r" and "\<And>sdp. oper \<noteq> W_answer sdp"
  shows "signaling_state ops (ws_peer (ws_apply ops oper s)) \<in> {signaling_state ops (ws_peer s), ClosedSignaling}"
proof -
  note keeps = jsep_keeps [OF assms(1)]
  show ?thesis
  proof (cases oper)
    case (W_candidate c mid idx)
    then show ?thesis by (auto simp: ws_apply_def add_ice_candidate_def Let_def dest: keeps(2) split: prod.split)
  next
    case (W_add u)
    then show ?thesis by (auto simp: ws_apply_def speakers_add_def ws_peer_def dest: keeps(5) split: prod.split sum.split)
  next
    case (W_remove u)
    then show ?thesis by (auto simp: ws_apply_def speakers_remove_def ws_peer_def dest: keeps(6) split: prod.split option.split)
  next
    case (W_write d n1 n2)
    then show ?thesis
      by (auto simp: ws_apply_def speakers_write_def ws_peer_def dest: keeps(7) split: prod.split option.split sum.split)
  next
    case W_close
    then show ?thesis by (auto simp: ws_apply_def webrtc_close_def dest: jsep_moves(3) [OF assms(1)] split: prod.split)
  qed (use assms in \<open>simp_all add: ws_apply_def\<close>)
qed

lemma signal_step:
  assumes j: "jsep ops" and inv: "signal_inv ops w s"
  shows "alternating w (ws_signals ops oper s) \<and> signal_inv ops (waiting_after w (ws_signals ops oper s)) (ws_apply ops oper s)"
proof (cases oper)
  case (W_offer r)
  obtain x s' where o: "offer ops r s = (x, s')" by fastforce
  from offer_signal [OF j o] inv W_offer o show ?thesis
    by (auto simp: ws_signals_def ws_apply_def signal_inv_def offer_signals_def)
next
  case (W_answer sdp)
  obtain x s' where a: "answer ops sdp s = (x, s')" by fastforce
  from answer_signal [OF j a] inv W_answer a show ?thesis
    by (auto simp: ws_signals_def ws_apply_def signal_inv_def offer_signals_def split: if_splits)
qed (use ws_apply_signaling [OF j, of oper s] inv in \<open>auto simp: ws_signals_def signal_inv_def\<close>)

lemma sim_jsep: "jsep sim_peer_ops"
  by (auto simp: jsep_def sim_peer_ops_def split: if_splits)

definition demo_session :: "(sim_peer, nat) webrtc_session" where
  "demo_session = \<lparr>ws_speakers = speakers_new (sim_peer_new\<lparr>sim_signaling := HaveLocalOffer\<rparr>), ws_started = True, ws_needs_offer = False,
     ws_restart_pending = False, ws_pending_candidates = []\<rparr>"

section \<open>Properties of the WebRTC session\<close>



text \<open>
  One bad candidate is costly: when the browser's answer is applied but a queued candidate is
  refused, the call fails, the candidates behind it are discarded, and a queued renegotiation is
  not sent although the signalling state is stable again.
\<close>

lemma bad_candidate_drops_queue:
  assumes "answer_description ops sdp = Inr desc" and "set_remote_description ops desc (ws_peer s) = (Inr (), pa)"
    and "ws_pending_candidates s = good @ bad # rest" and "add_candidates ops good pa = (Inr (), pb)"
    and "peer_add_ice_candidate ops bad pb = (Inl e, pc)"
  shows "answer ops sdp s = (Inl e, with_peer pc (s\<lparr>ws_pending_candidates := []\<rparr>))"
proof -
  have "add_candidates ops (good @ bad # rest) pa = (Inl e, pc)"
    using assms(4,5) by (induction good arbitrary: pa) (auto split: prod.splits sum.splits)
  with assms(1-3) show ?thesis by (simp add: answer_def)
qed

lemma bad_candidate_drops_queue_witness:
  "let ops = sim_peer_ops\<lparr>peer_add_ice_candidate := (\<lambda>c p. if ic_candidate c = ''bad'' then (Inl ''parse'', p) else (Inr (), p))\<rparr>;
       cand = (\<lambda>t. \<lparr>ic_candidate = t, ic_sdp_mid = None, ic_sdp_mline_index = None\<rparr>)
   in answer ops ''a'' (demo_session\<lparr>ws_needs_offer := True, ws_pending_candidates := [cand ''bad'', cand ''good'']\<rparr>) =
        (Inl ''parse'', with_peer (sim_peer_new\<lparr>sim_remote := Some ''a''\<rparr>) (demo_session\<lparr>ws_needs_offer := True\<rparr>))"
  unfolding Let_def
  by (subst bad_candidate_drops_queue [where desc = "''a''" and pa = "sim_peer_new\<lparr>sim_remote := Some ''a''\<rparr>"
        and pb = "sim_peer_new\<lparr>sim_remote := Some ''a''\<rparr>" and pc = "sim_peer_new\<lparr>sim_remote := Some ''a''\<rparr>" and good = "[]"
        and bad = "\<lparr>ic_candidate = ''bad'', ic_sdp_mid = None, ic_sdp_mline_index = None\<rparr>"
        and rest = "[\<lparr>ic_candidate = ''good'', ic_sdp_mid = None, ic_sdp_mline_index = None\<rparr>]" and e = "''parse''"])
    (simp_all add: demo_session_def sim_peer_ops_def sim_peer_new_def ws_peer_def speakers_new_def)

end
