(* ===== verification/Bridge.thy ===== *)
theory Bridge
  imports Speakers
begin

text \<open>
  \<open>src/src/bridge.rs\<close>: the uplink clock that turns the RTP timestamps of the browser's microphone
  into Mumble frame numbers, and the two tasks of the audio bridge. A task is a step function on
  the events its \<open>select!\<close> loop can take; the times the code reads and the outcome of
  \<open>try_send\<close> on the bounded channel are part of the event.
\<close>

record uplink_clock =
  uc_last_timestamp :: "u32 option"
  uc_last_sequence :: "u16 option"
  uc_frame :: u64
  uc_samples :: u32

definition uplink_clock_default :: uplink_clock where
  "uplink_clock_default = \<lparr>uc_last_timestamp = None, uc_last_sequence = None, uc_frame = 0, uc_samples = 0\<rparr>"

definition stale_sequence :: "uplink_clock \<Rightarrow> u16 \<Rightarrow> bool" where
  "stale_sequence c sequence \<longleftrightarrow>
     (case uc_last_sequence c of None \<Rightarrow> False
      | Some prev \<Rightarrow> (let delta = sequence - prev in delta = 0 \<or> delta \<ge> 0x8000))"

definition uplink_clock_packet ::
  "uplink_clock \<Rightarrow> u32 \<Rightarrow> u16 \<Rightarrow> u32 \<Rightarrow> u64 option \<times> uplink_clock" where
  "uplink_clock_packet c timestamp sequence samples =
     (let accept = (\<lambda>frame. (Some frame,
            c\<lparr>uc_last_timestamp := Some timestamp, uc_last_sequence := Some sequence,
              uc_frame := frame, uc_samples := samples\<rparr>))
      in if stale_sequence c sequence then (None, c)
         else (case uc_last_timestamp c of
                 None \<Rightarrow> accept (uc_frame c)
               | Some prev \<Rightarrow>
                   (let delta = timestamp - prev
                    in if delta = 0 \<or> delta \<ge> 0x80000000 \<or> delta mod 480 \<noteq> 0 then (None, c)
                       else accept (uc_frame c + ucast (delta div 480)))))"

definition end_frame :: "uplink_clock \<Rightarrow> u64" where
  "end_frame c = uc_frame c + ucast (uc_samples c div 480)"

section \<open>The uplink task\<close>

datatype uplink_event =
    UplinkPacket incoming_audio_packet instant instant try_send_result
  | UplinkChannelClosed
  | UplinkTick instant try_send_result

record uplink_task =
  ut_clock :: uplink_clock
  ut_last_packet :: "instant option"
  ut_running :: bool

definition uplink_start :: uplink_task where
  "uplink_start = \<lparr>ut_clock = uplink_clock_default, ut_last_packet = None, ut_running = True\<rparr>"

text \<open>
  One turn of the loop: the new task state and the frames offered to the Mumble voice channel,
  each with the outcome of its \<open>try_send\<close>.
\<close>

fun uplink_step :: "uplink_task \<Rightarrow> uplink_event \<Rightarrow> uplink_task \<times> (webrtc_voice_data \<times> try_send_result) list" where
  "uplink_step u UplinkChannelClosed = (if ut_running u then u\<lparr>ut_running := False\<rparr> else u, [])"
| "uplink_step u (UplinkPacket packet now_check now_sent res) =
     (if \<not> ut_running u then (u, [])
      else if as_millis (now_check - ia_received_at packet) > 120 then (u, [])
      else (case opus_packet_total_samples (ia_opus_data packet) of
        Inl _ \<Rightarrow> (u, [])
      | Inr samples \<Rightarrow>
          if samples mod 480 \<noteq> 0 then (u, [])
          else (case uplink_clock_packet (ut_clock u) (ia_timestamp packet) (ia_seq_num packet) samples of
                  (None, c) \<Rightarrow> (u\<lparr>ut_clock := c\<rparr>, [])
                | (Some seq_num, c) \<Rightarrow>
                    (u\<lparr>ut_clock := c, ut_last_packet := Some now_sent, ut_running := (res \<noteq> SendClosed)\<rparr>,
                     [(\<lparr>wv_seq_num = seq_num, wv_opus_data = ia_opus_data packet, wv_last_frame = False\<rparr>, res)]))))"
| "uplink_step u (UplinkTick now res) =
     (if \<not> ut_running u then (u, [])
      else (case ut_last_packet u of
              None \<Rightarrow> (u, [])
            | Some prev \<Rightarrow>
                if now - prev \<ge> ms 200 then
                  (u\<lparr>ut_last_packet := None\<rparr>,
                   [(\<lparr>wv_seq_num = end_frame (ut_clock u), wv_opus_data = [], wv_last_frame = True\<rparr>, res)])
                else (u, [])))"

fun uplink_run :: "uplink_task \<Rightarrow> uplink_event list \<Rightarrow> uplink_task \<times> (webrtc_voice_data \<times> try_send_result) list" where
  "uplink_run u [] = (u, [])"
| "uplink_run u (e # es) =
     (let (u1, o1) = uplink_step u e; (u2, o2) = uplink_run u1 es in (u2, o1 @ o2))"

section \<open>The downlink task and the bridge\<close>

text \<open>
  The downlink forwards every received packet to the speaker tracks and only logs errors; it ends
  when the voice channel closes. The events pair the packet with the two clock readings of \<open>write\<close>.
\<close>

fun downlink_run ::
  "('p, 'snd) peer_ops \<Rightarrow> (mumble_voice_data \<times> instant \<times> instant) list \<Rightarrow> ('p, 'snd) speaker_tracks \<Rightarrow>
     ('p, 'snd) speaker_tracks" where
  "downlink_run ops [] t = t"
| "downlink_run ops ((d, n1, n2) # ds) t = downlink_run ops ds (snd (speakers_write ops d n1 n2 t))"

datatype task_state = Running | Aborted

record audio_bridge =
  ab_tasks :: "task_state list"

definition audio_bridge_start :: audio_bridge where
  "audio_bridge_start = \<lparr>ab_tasks = [Running, Running]\<rparr>"

text \<open>\<open>shutdown\<close> consumes the bridge: it returns the states its tasks end in.\<close>

definition audio_bridge_shutdown :: "audio_bridge \<Rightarrow> task_state list" where
  "audio_bridge_shutdown b = map (\<lambda>_. Aborted) (ab_tasks b)"

section \<open>Reading the clock on natural numbers\<close>

text \<open>
  The genuine media timeline behind the wrapped header fields: unbounded sample times and packet
  numbers that advance by a multiple of 10 ms below \<open>2 ^ 31\<close> samples and by fewer than \<open>2 ^ 15\<close>
  packets; the header carries them modulo \<open>2 ^ 32\<close> and \<open>2 ^ 16\<close>.
\<close>

fun genuine :: "nat \<Rightarrow> nat \<Rightarrow> (nat \<times> nat \<times> u32) list \<Rightarrow> bool" where
  "genuine T S [] = True"
| "genuine T S ((T', S', s) # xs) \<longleftrightarrow>
     T < T' \<and> T' - T < 2 ^ 31 \<and> 480 dvd T' - T \<and> S < S' \<and> S' - S < 2 ^ 15 \<and> genuine T' S' xs"

definition rtp_fields :: "nat \<times> nat \<times> u32 \<Rightarrow> u32 \<times> u16 \<times> u32" where
  "rtp_fields x = (case x of (T, S, s) \<Rightarrow> (of_nat T, of_nat S, s))"

definition uplink_clock_step :: "uplink_clock \<Rightarrow> u32 \<times> u16 \<times> u32 \<Rightarrow> u64 option \<times> uplink_clock" where
  "uplink_clock_step c x = (case x of (timestamp, sequence, samples) \<Rightarrow> uplink_clock_packet c timestamp sequence samples)"

definition uplink_audio_step :: "uplink_task \<Rightarrow> uplink_event \<Rightarrow> webrtc_voice_data option \<times> uplink_task" where
  "uplink_audio_step u e =
     (case uplink_step u e of (u', out) \<Rightarrow>
        (case out of (w, _) # _ \<Rightarrow> if wv_last_frame w then None else Some w | [] \<Rightarrow> None, u'))"

text \<open>No end-of-talk marker without an audio frame since the previous one.\<close>

fun markers_armed :: "bool \<Rightarrow> (webrtc_voice_data \<times> try_send_result) list \<Rightarrow> bool" where
  "markers_armed armed [] = True"
| "markers_armed armed ((w, _) # ws) =
     (if wv_last_frame w then armed \<and> markers_armed False ws else markers_armed True ws)"

lemma word_of_nat_diff: "a \<le> b \<Longrightarrow> (of_nat b - of_nat a :: 'a::len word) = of_nat (b - a)"
  by (simp add: of_nat_diff)

lemma unat_u16_of_nat: "n < 65536 \<Longrightarrow> unat (of_nat n :: u16) = n"
  by (simp add: unat_of_nat)

lemma unat_u32_of_nat: "n < 4294967296 \<Longrightarrow> unat (of_nat n :: u32) = n"
  by (simp add: unat_of_nat)

lemma unat_pos_nonzero: "0 < unat w \<Longrightarrow> w \<noteq> 0"
  by auto

lemma unat_mod_480_zero: "n mod 480 = 0 \<Longrightarrow> unat (n :: u32) mod 480 = 0"
proof -
  assume "n mod 480 = 0"
  then have "unat (n mod 480) = 0" by (simp only: unsigned_0)
  then show ?thesis by (simp add: unat_mod)
qed

lemma frame_step_unat:
  assumes "\<not> (delta = 0 \<or> delta \<ge> 0x80000000 \<or> delta mod 480 \<noteq> (0 :: u32))"
  shows "unat (ucast (delta div 480) :: u64) = unat delta div 480"
    and "0 < unat delta div 480" and "unat delta div 480 \<le> 4473924" and "480 dvd unat delta"
proof -
  have "unat (delta mod 480) = 0" using assms by simp
  then have "unat delta mod 480 = 0" by (simp add: unat_mod)
  moreover have "unat delta < 2147483648" using assms by (simp add: word_le_nat_alt)
  moreover have "0 < unat delta" using assms by (simp add: unat_gt_0)
  ultimately have d: "unat delta < 2147483648" "0 < unat delta" "unat delta mod 480 = 0" by simp_all
  then show "480 dvd unat delta" "unat delta div 480 \<le> 4473924" by auto
  from d show "0 < unat delta div 480" by (metis div_greater_zero_iff dvd_imp_le mod_eq_0_iff_dvd zero_less_numeral)
  show "unat (ucast (delta div 480) :: u64) = unat delta div 480"
    using d(1) by (simp add: unsigned_ucast_eq unat_div take_bit_nat_eq_self_iff)
qed

lemma uplink_accept:
  assumes "uplink_clock_packet c ts sq s = (Some f, c')"
  shows "uc_frame c' = f" and "uc_last_timestamp c' = Some ts" and "uc_last_sequence c' = Some sq" and "uc_samples c' = s"
    and "uc_last_timestamp c = None \<Longrightarrow> f = uc_frame c"
    and "uc_last_timestamp c = Some prev \<Longrightarrow>
      \<not> (ts - prev = 0 \<or> ts - prev \<ge> 0x80000000 \<or> (ts - prev) mod 480 \<noteq> 0) \<and> f = uc_frame c + ucast ((ts - prev) div 480)"
  using assms by (auto simp: uplink_clock_packet_def Let_def split: if_splits option.splits)

lemma uplink_reject: "uplink_clock_packet c ts sq s = (None, c') \<Longrightarrow> c' = c"
  by (auto simp: uplink_clock_packet_def Let_def split: if_splits option.splits)

lemma uplink_advance:
  assumes "uplink_clock_packet c ts sq s = (Some f, c')" and "unat (uc_frame c) + 4473924 < 2 ^ 64"
  shows "unat (uc_frame c') = unat f" and "unat (uc_frame c) \<le> unat f" and "unat f \<le> unat (uc_frame c) + 4473924"
    and "uc_last_timestamp c \<noteq> None \<Longrightarrow> unat (uc_frame c) < unat f"
proof -
  show "unat (uc_frame c') = unat f" using uplink_accept(1) [OF assms(1)] by simp
  have "unat (uc_frame c) \<le> unat f \<and> unat f \<le> unat (uc_frame c) + 4473924
    \<and> (uc_last_timestamp c \<noteq> None \<longrightarrow> unat (uc_frame c) < unat f)"
  proof (cases "uc_last_timestamp c")
    case None
    with uplink_accept(5) [OF assms(1)] show ?thesis by simp
  next
    case (Some prev)
    note a = uplink_accept(6) [OF assms(1) Some]
    note d = frame_step_unat [OF a [THEN conjunct1]]
    have "unat f = unat (uc_frame c) + unat (ts - prev) div 480"
      using a d(1,3) assms(2) by (simp add: unat_word_ariths)
    with d(2,3) show ?thesis by simp
  qed
  then show "unat (uc_frame c) \<le> unat f" "unat f \<le> unat (uc_frame c) + 4473924"
    "uc_last_timestamp c \<noteq> None \<Longrightarrow> unat (uc_frame c) < unat f" by blast+
qed

interpretation uplink: monotone_clock uplink_clock_step "\<lambda>c. unat (uc_frame c)" unat
  "\<lambda>c. uc_last_timestamp c \<noteq> None" 4473924 "2 ^ 64"
proof unfold_locales
  fix c x c'
  assume "uplink_clock_step c x = (None, c')"
  then show "unat (uc_frame c') = unat (uc_frame c) \<and> (uc_last_timestamp c' \<noteq> None) = (uc_last_timestamp c \<noteq> None)"
    by (auto simp: uplink_clock_step_def dest: uplink_reject split: prod.splits)
next
  fix c x y c'
  assume st: "uplink_clock_step c x = (Some y, c')" and lim: "unat (uc_frame c) + 4473924 < 2 ^ 64"
  obtain ts sq s where x: "x = (ts, sq, s)" by (cases x)
  have p: "uplink_clock_packet c ts sq s = (Some y, c')" using st by (simp add: uplink_clock_step_def x)
  show "unat y = unat (uc_frame c') \<and> unat (uc_frame c') \<le> unat (uc_frame c) + 4473924 \<and>
    (uc_last_timestamp c \<noteq> None \<longrightarrow> unat (uc_frame c) < unat (uc_frame c')) \<and>
    unat (uc_frame c) \<le> unat (uc_frame c') \<and> uc_last_timestamp c' \<noteq> None"
    using uplink_advance [OF p lim] uplink_accept(2) [OF p] by simp
qed

interpretation uplink_audio: monotone_clock uplink_audio_step "\<lambda>u. unat (uc_frame (ut_clock u))" "\<lambda>w. unat (wv_seq_num w)"
  "\<lambda>u. uc_last_timestamp (ut_clock u) \<noteq> None" 4473924 "2 ^ 64"
proof unfold_locales
  fix u e u'
  assume "uplink_audio_step u e = (None, u')"
  then show "unat (uc_frame (ut_clock u')) = unat (uc_frame (ut_clock u)) \<and>
    (uc_last_timestamp (ut_clock u') \<noteq> None) = (uc_last_timestamp (ut_clock u) \<noteq> None)"
    by (cases e) (auto simp: uplink_audio_step_def dest: uplink_reject split: prod.splits if_splits sum.splits option.splits)
next
  fix u e w u'
  assume st: "uplink_audio_step u e = (Some w, u')" and lim: "unat (uc_frame (ut_clock u)) + 4473924 < 2 ^ 64"
  obtain p n1 n2 res s where e: "e = UplinkPacket p n1 n2 res"
    and p: "uplink_clock_packet (ut_clock u) (ia_timestamp p) (ia_seq_num p) s = (Some (wv_seq_num w), ut_clock u')"
    using st by (cases e) (auto simp: uplink_audio_step_def split: prod.splits if_splits sum.splits option.splits)
  show "unat (wv_seq_num w) = unat (uc_frame (ut_clock u')) \<and>
    unat (uc_frame (ut_clock u')) \<le> unat (uc_frame (ut_clock u)) + 4473924 \<and>
    (uc_last_timestamp (ut_clock u) \<noteq> None \<longrightarrow> unat (uc_frame (ut_clock u)) < unat (uc_frame (ut_clock u'))) \<and>
    unat (uc_frame (ut_clock u)) \<le> unat (uc_frame (ut_clock u')) \<and> uc_last_timestamp (ut_clock u') \<noteq> None"
    using uplink_advance [OF p lim] uplink_accept(2) [OF p] by simp
qed

section \<open>Exact reconstruction of the media time\<close>

lemma sequence_fresh:
  assumes "S < S'" and "S' - S < 2 ^ 15" and "uc_last_sequence c = Some (of_nat S)"
  shows "\<not> stale_sequence c (of_nat S')"
proof -
  have "(of_nat S' - of_nat S :: u16) = of_nat (S' - S)" by (rule word_of_nat_diff [OF less_imp_le [OF assms(1)]])
  moreover have "unat (of_nat (S' - S) :: u16) = S' - S" using assms(2) by (intro unat_u16_of_nat) simp
  ultimately have u: "unat (of_nat S' - of_nat S :: u16) = S' - S" by (simp only:)
  with assms(1) have "0 < unat (of_nat S' - of_nat S :: u16)" by linarith
  then have "(of_nat S' - of_nat S :: u16) \<noteq> 0" by (rule unat_pos_nonzero)
  moreover have "\<not> (of_nat S' - of_nat S :: u16) \<ge> 0x8000" using u assms(2) by (simp add: word_le_nat_alt)
  ultimately show ?thesis using assms(3) by (simp add: stale_sequence_def)
qed

lemma uplink_genuine_step:
  assumes "T < T'" "T' - T < 2 ^ 31" "480 dvd T' - T" "S < S'" "S' - S < 2 ^ 15"
    and c: "uc_last_timestamp c = Some (of_nat T)" "uc_last_sequence c = Some (of_nat S)"
  shows "uplink_clock_step c (rtp_fields (T', S', s)) = (Some (uc_frame c + of_nat ((T' - T) div 480)),
    c\<lparr>uc_last_timestamp := Some (of_nat T'), uc_last_sequence := Some (of_nat S'),
      uc_frame := uc_frame c + of_nat ((T' - T) div 480), uc_samples := s\<rparr>)"
proof -
  let ?d = "of_nat T' - of_nat T :: u32"
  have "?d = of_nat (T' - T)" by (rule word_of_nat_diff [OF less_imp_le [OF assms(1)]])
  moreover have "unat (of_nat (T' - T) :: u32) = T' - T" using assms(2) by (intro unat_u32_of_nat) simp
  ultimately have d: "unat ?d = T' - T" by (simp only:)
  have "unat (?d mod 480) = 0" using assms(3) by (simp add: unat_mod d)
  then have "?d mod 480 = 0" by (simp add: unat_eq_zero)
  moreover have "?d \<noteq> 0" using d assms(1) by (intro unat_pos_nonzero) linarith
  moreover have "\<not> ?d \<ge> 0x80000000" using d assms(2) by (simp add: word_le_nat_alt)
  ultimately have ok: "\<not> (?d = 0 \<or> ?d \<ge> 0x80000000 \<or> ?d mod 480 \<noteq> 0)" by blast
  have "(T' - T) div 480 < 2 ^ 64" using assms(2) by (intro le_less_trans [OF div_le_dividend]) simp
  then have "unat (of_nat ((T' - T) div 480) :: u64) = (T' - T) div 480" by (simp add: unat_of_nat)
  then have "(ucast (?d div 480) :: u64) = of_nat ((T' - T) div 480)"
    using frame_step_unat(1) [OF ok] d by (intro word_unat_eq_iff [THEN iffD2]) simp
  with ok show ?thesis
    using sequence_fresh [OF assms(4,5) c(2)] c(1)
    by (simp add: uplink_clock_step_def rtp_fields_def uplink_clock_packet_def Let_def)
qed

lemma genuine_later: "genuine T S ys \<Longrightarrow> (T', S', s') \<in> set ys \<Longrightarrow> T < T'"
proof (induction T S ys rule: genuine.induct)
  case (2 T S T1 S1 s xs)
  show ?case
  proof (cases "(T', S', s') \<in> set xs")
    case True
    with 2 have "T1 < T'" by simp
    with 2(2) show ?thesis by simp
  next
    case False
    with 2(2,3) show ?thesis by simp
  qed
qed simp

lemma uplink_genuine_run:
  assumes "genuine T S xs" and "uc_last_timestamp c = Some (of_nat T)" and "uc_last_sequence c = Some (of_nat S)"
  shows "fst (clock_run uplink_clock_step c (map rtp_fields xs))
    = map (\<lambda>(T', _). uc_frame c + of_nat ((T' - T) div 480)) xs"
  using assms
proof (induction xs arbitrary: T S c)
  case Nil
  then show ?case by simp
next
  case (Cons x xs)
  obtain T1 S1 s where x: "x = (T1, S1, s)" by (cases x)
  have g: "T < T1" "T1 - T < 2 ^ 31" "480 dvd T1 - T" "S < S1" "S1 - S < 2 ^ 15" "genuine T1 S1 xs"
    using Cons.prems(1) by (auto simp: x)
  let ?c = "c\<lparr>uc_last_timestamp := Some (of_nat T1), uc_last_sequence := Some (of_nat S1),
    uc_frame := uc_frame c + of_nat ((T1 - T) div 480), uc_samples := s\<rparr>"
  have sum: "(T1 - T) div 480 + (T' - T1) div 480 = (T' - T) div 480" if "T1 < T'" for T'
  proof -
    obtain k where "T1 - T = 480 * k" using g(3) by (auto elim: dvdE)
    moreover from this have "T' - T = 480 * k + (T' - T1)" using that g(1) by linarith
    ultimately show ?thesis by simp
  qed
  have "fst (clock_run uplink_clock_step c (map rtp_fields (x # xs)))
    = (uc_frame c + of_nat ((T1 - T) div 480)) # fst (clock_run uplink_clock_step ?c (map rtp_fields xs))"
    unfolding list.map(2) x by (rule clock_run_accept) (rule uplink_genuine_step [OF g(1-5) Cons.prems(2,3)])
  also have "fst (clock_run uplink_clock_step ?c (map rtp_fields xs))
    = map (\<lambda>(T', _). uc_frame ?c + of_nat ((T' - T1) div 480)) xs"
    using Cons.IH [OF g(6), of ?c] by simp
  also have "\<dots> = map (\<lambda>(T', _). uc_frame c + of_nat ((T' - T) div 480)) xs"
  proof (rule map_cong [OF refl])
    fix y
    assume y: "y \<in> set xs"
    obtain T' S' s' where y': "y = (T', S', s')" by (cases y)
    with y have "T1 < T'" using genuine_later [OF g(6)] by blast
    from arg_cong [OF sum [OF this], of "of_nat :: nat \<Rightarrow> u64"]
    show "(case y of (T', _) \<Rightarrow> uc_frame ?c + of_nat ((T' - T1) div 480)) = (case y of (T', _) \<Rightarrow> uc_frame c + of_nat ((T' - T) div 480))"
      by (simp add: y' add.assoc)
  qed
  finally show ?case by (simp add: x)
qed

text \<open>
  C2. Across any number of 16-bit sequence and 32-bit timestamp wrap-arounds, packet losses and
  silences, the uplink clock numbers every packet of a genuine stream with the exact number of
  10 ms frames since the first one.
\<close>

theorem uplink_reconstructs_media_time:
  assumes "genuine T S xs"
  shows "fst (clock_run uplink_clock_step uplink_clock_default (map rtp_fields ((T, S, s) # xs)))
    = map (\<lambda>(T', _). of_nat ((T' - T) div 480)) ((T, S, s) # xs)"
proof -
  let ?c = "\<lparr>uc_last_timestamp = Some (of_nat T), uc_last_sequence = Some (of_nat S), uc_frame = 0, uc_samples = s\<rparr>"
  have "uplink_clock_step uplink_clock_default (rtp_fields (T, S, s)) = (Some 0, ?c)"
    by (simp add: uplink_clock_step_def rtp_fields_def uplink_clock_packet_def uplink_clock_default_def stale_sequence_def)
  then have "fst (clock_run uplink_clock_step uplink_clock_default (map rtp_fields ((T, S, s) # xs)))
    = 0 # fst (clock_run uplink_clock_step ?c (map rtp_fields xs))"
    unfolding list.map(2) by (rule clock_run_accept)
  then show ?thesis using uplink_genuine_run [OF assms, of ?c] by simp
qed

theorem uplink_reconstructs_media_time_witness:
  "fst (clock_run uplink_clock_step uplink_clock_default
      (map rtp_fields [(4294966816, 65534, 960), (4294967776, 65535, 1920), (4294969696, 65536, 960), (4294972576, 65539, 960)]))
    = [0, 2, 6, 12]"
  using uplink_reconstructs_media_time [of 4294966816 65534 "[(4294967776, 65535, 1920), (4294969696, 65536, 960), (4294972576, 65539, 960)]" 960]
  by simp

text \<open>
  Frame numbers offered to Mumble strictly increase over any run of the task with fewer than \<open>2 ^ 41\<close>
  events (thousands of years of audio), so that the 64-bit counter cannot overflow.
\<close>

definition audio_frames :: "(webrtc_voice_data \<times> try_send_result) list \<Rightarrow> webrtc_voice_data list" where
  "audio_frames offered = filter (\<lambda>w. \<not> wv_last_frame w) (map fst offered)"

lemma uplink_step_audio:
  "uplink_step u e = (u', out) \<Longrightarrow> audio_frames out = (case fst (uplink_audio_step u e) of None \<Rightarrow> [] | Some w \<Rightarrow> [w]) \<and>
     snd (uplink_audio_step u e) = u'"
  by (cases e) (auto simp: uplink_audio_step_def audio_frames_def split: if_splits sum.splits prod.splits option.splits)

lemma uplink_run_audio: "audio_frames (snd (uplink_run u es)) = fst (clock_run uplink_audio_step u es)"
proof (induction es arbitrary: u)
  case (Cons e es)
  obtain u1 o1 where s: "uplink_step u e = (u1, o1)" by fastforce
  obtain o2 where a: "uplink_audio_step u e = (o2, u1)" using uplink_step_audio [OF s] by (metis surjective_pairing)
  from Cons.IH [of u1] uplink_step_audio [OF s] a show ?case
    by (cases o2) (auto simp: s audio_frames_def Let_def case_prod_unfold)
qed (simp add: audio_frames_def)

lemma uplink_run_sorted:
  assumes "length es < 2 ^ 41"
  shows "sorted_wrt (<) (map (\<lambda>w. unat (wv_seq_num w)) (audio_frames (snd (uplink_run uplink_start es))))"
proof -
  have "length es * 4473924 < 2 ^ 64" using mult_less_mono1 [OF assms, of 4473924] by simp
  then have "unat (uc_frame (ut_clock uplink_start)) + length es * 4473924 < 2 ^ 64"
    by (simp add: uplink_start_def uplink_clock_default_def)
  from uplink_audio.run_sorted [OF prod.collapse [symmetric] this] show ?thesis by (simp add: uplink_run_audio)
qed

lemma uplink_step_markers:
  "uplink_step u e = (u', out) \<Longrightarrow> markers_armed (ut_last_packet u' \<noteq> None) rest \<Longrightarrow>
     markers_armed (ut_last_packet u \<noteq> None) (out @ rest)"
  by (cases e) (auto split: if_splits sum.splits prod.splits option.splits)

text \<open>
  The end of a talk spurt is announced at most once: between two end-of-talk markers the task
  has offered an audio frame, whatever happens in between.
\<close>

lemma uplink_one_marker_per_talk:
  "markers_armed (ut_last_packet u \<noteq> None) (snd (uplink_run u es))"
proof (induction es arbitrary: u)
  case Nil
  then show ?case by simp
next
  case (Cons e es)
  obtain u1 o1 where s: "uplink_step u e = (u1, o1)" by fastforce
  obtain u2 o2 where r: "uplink_run u1 es = (u2, o2)" by fastforce
  from Cons.IH [of u1] r have "markers_armed (ut_last_packet u1 \<noteq> None) o2" by simp
  from uplink_step_markers [OF s this] show ?case by (simp add: s r)
qed

text \<open>
  What the task offers is playable: an audio frame is a non-empty Opus packet of at most 120 ms whose length is a whole
  number of 10 ms frames, and an end marker is empty. Its bytes are those of a packet that was received.
\<close>

definition playable :: "webrtc_voice_data \<Rightarrow> bool" where
  "playable w \<longleftrightarrow>
     (if wv_last_frame w then wv_opus_data w = []
      else (\<exists>n. opus_packet_total_samples (wv_opus_data w) = Inr n \<and> unat n mod 480 = 0 \<and> unat n \<le> 5760))"

definition event_packets :: "uplink_event list \<Rightarrow> incoming_audio_packet list" where
  "event_packets es = concat (map (\<lambda>e. case e of UplinkPacket p _ _ _ \<Rightarrow> [p] | _ \<Rightarrow> []) es)"

lemma uplink_step_playable: "uplink_step u e = (u', out) \<Longrightarrow> (w, res) \<in> set out \<Longrightarrow> playable w"
  by (cases e)
    (auto simp: playable_def unat_mod_480_zero total_samples_bounds del: mod_0_imp_dvd
      split: if_splits sum.splits prod.splits option.splits)

lemma uplink_step_source:
  "uplink_step u e = (u', out) \<Longrightarrow> (w, res) \<in> set out \<Longrightarrow> \<not> wv_last_frame w \<Longrightarrow> \<exists>p \<in> set (event_packets [e]). wv_opus_data w = ia_opus_data p"
  by (cases e) (auto simp: event_packets_def split: if_splits sum.splits prod.splits option.splits)

lemma uplink_run_offers:
  "(w, res) \<in> set (snd (uplink_run u es)) \<Longrightarrow>
     playable w \<and> (\<not> wv_last_frame w \<longrightarrow> (\<exists>p \<in> set (event_packets es). wv_opus_data w = ia_opus_data p))"
proof (induction es arbitrary: u)
  case (Cons e es)
  obtain u1 o1 where s: "uplink_step u e = (u1, o1)" by fastforce
  have src: "set (event_packets (e # es)) = set (event_packets [e]) \<union> set (event_packets es)" by (auto simp: event_packets_def)
  from Cons.prems s have "(w, res) \<in> set o1 \<or> (w, res) \<in> set (snd (uplink_run u1 es))" by (auto simp: Let_def case_prod_unfold)
  then show ?case
  proof
    assume "(w, res) \<in> set o1"
    with uplink_step_playable [OF s] uplink_step_source [OF s] src show ?thesis by blast
  next
    assume "(w, res) \<in> set (snd (uplink_run u1 es))"
    from Cons.IH [OF this] src show ?thesis by blast
  qed
qed simp

text \<open>
  C39. A stream whose timestamps leave the 480-sample grid of the last accepted packet (a browser
  that restarts its RTP clock at an arbitrary offset) is rejected packet by packet, whatever the
  sequence numbers, until the 32-bit distance wraps: the clock never re-synchronises on the new
  phase.
\<close>

theorem uplink_phase_lockout:
  assumes "uc_last_timestamp c = Some prev" and "unat (t0 - prev) mod 480 \<noteq> 0"
    and "\<forall>(k, sq, s) \<in> set xs. unat (t0 - prev) + 480 * k < 2 ^ 32"
  shows "clock_run uplink_clock_step c (map (\<lambda>(k, sq, s). (t0 + of_nat (480 * k), sq, s)) xs) = ([], c)"
  using assms(3)
proof (induction xs)
  case Nil
  then show ?case by simp
next
  case (Cons x xs)
  obtain k sq s where x: "x = (k, sq, s)" by (cases x)
  let ?d = "t0 + of_nat (480 * k) - prev"
  define w where "w = (of_nat (480 * k) :: u32)"
  have d: "?d = (t0 - prev) + w" unfolding w_def by (rule diff_add_eq [symmetric])
  have "unat w = 480 * k" unfolding w_def using Cons.prems by (intro unat_u32_of_nat) (simp add: x)
  moreover from this have "unat (t0 - prev) + unat w < 2 ^ LENGTH(32)" using Cons.prems by (simp add: x)
  then have "unat ((t0 - prev) + w) = unat (t0 - prev) + unat w" by (simp only: unat_add_lem)
  ultimately have "unat ?d = unat (t0 - prev) + 480 * k" by (simp only: d)
  then have "unat (?d mod 480) \<noteq> 0" using assms(2) by (simp add: unat_mod)
  then have "?d mod 480 \<noteq> 0" by (intro unat_pos_nonzero) linarith
  then have "uplink_clock_step c (t0 + of_nat (480 * k), sq, s) = (None, c)"
    using assms(1) by (simp add: uplink_clock_step_def uplink_clock_packet_def Let_def)
  then show ?case using Cons by (simp add: x)
qed

theorem uplink_phase_lockout_witness:
  "clock_run uplink_clock_step \<lparr>uc_last_timestamp = Some 0, uc_last_sequence = Some 1, uc_frame = 0, uc_samples = 960\<rparr>
     [(1001, 2, 960), (1961, 3, 960)] = ([], \<lparr>uc_last_timestamp = Some 0, uc_last_sequence = Some 1, uc_frame = 0, uc_samples = 960\<rparr>)"
  using uplink_phase_lockout [of "\<lparr>uc_last_timestamp = Some 0, uc_last_sequence = Some 1, uc_frame = 0, uc_samples = 960\<rparr>" 0 1001
      "[(0, 2, 960), (2, 3, 960)]"]
  by simp

end
