(* ===== verification/User_Session.thy ===== *)
theory User_Session
  imports Turn_Service Mumble_Client Mumble_Voice Webrtc_Session Bridge
begin

text \<open>
  \<open>src/src/session.rs\<close>, first half: one user's session and the event task that serves it. A
  session is held under its own lock, so each operation on it is one step. An operation returns the messages it
  sends to the session's WebSocket, oldest first, beside its result. What the environment decides
  (UUIDs, times, the order of a hash set, the outcome of socket calls) is an argument.
\<close>

record issue_env =
  ie_draw :: uuid_draw
  ie_order :: "string list"
  ie_now :: nat

definition session_ice_config ::
  "auth_key_fn \<Rightarrow> issue_env \<Rightarrow> config \<Rightarrow> string \<Rightarrow> turn_service option \<Rightarrow> ice_config \<times> turn_service option" where
  "session_ice_config gen env config conn_id turn = (case turn of
     Some ts \<Rightarrow> (let (ic, ts') = turn_ice_config gen (ie_draw env) (ie_order env) (ie_now env) conn_id ts in (ic, Some ts'))
   | None \<Rightarrow>
       (\<lparr>ic_ice_servers = map (\<lambda>url. \<lparr>is_urls = url, is_username = None, is_credential = None\<rparr>)
           (filter (starts_with ''stun:'') (wc_stun_servers (cf_webrtc config))),
         ic_expires_at = None\<rparr>, None))"

record ('p, 'snd) user_session =
  ur_commands :: "mumble_command list"
  ur_mumble_alive :: bool
  ur_mumble_voice :: "mumble_voice option"
  ur_webrtc :: "('p, 'snd) webrtc_session"
  ur_bridge :: "audio_bridge option"
  ur_username :: string
  ur_session_id :: "u32 option"
  ur_voice_setup_task :: bool
  ur_slot :: bool
  ur_closed :: bool
  ur_close_notify :: bool
  ur_voice_start :: bool
  ur_known_speakers :: "u32 set"

definition user_session_new :: "('p, 'snd) webrtc_session \<Rightarrow> string \<Rightarrow> ('p, 'snd) user_session" where
  "user_session_new w username =
     \<lparr>ur_commands = [], ur_mumble_alive = True, ur_mumble_voice = None, ur_webrtc = w, ur_bridge = None,
      ur_username = username, ur_session_id = None, ur_voice_setup_task = False, ur_slot = True, ur_closed = False,
      ur_close_notify = False, ur_voice_start = False, ur_known_speakers = {}\<rparr>"

definition push_command :: "mumble_command \<Rightarrow> ('p, 'snd) user_session \<Rightarrow> unit result \<times> ('p, 'snd) user_session" where
  "push_command cmd s = (case send_command (ur_mumble_alive s) cmd (ur_commands s) of
     Inl e \<Rightarrow> (Inl e, s)
   | Inr q \<Rightarrow> (Inr (), s\<lparr>ur_commands := q\<rparr>))"

definition abort_background_task :: "('p, 'snd) user_session \<Rightarrow> ('p, 'snd) user_session" where
  "abort_background_task s = s\<lparr>ur_voice_setup_task := False\<rparr>"

text \<open>The teardown; \<open>slot\<close> doubles as the marker that it has not run yet.\<close>

definition shutdown_user_session :: "('p, 'snd) peer_ops \<Rightarrow> ('p, 'snd) user_session \<Rightarrow> ('p, 'snd) user_session" where
  "shutdown_user_session ops s0 =
     (if \<not> ur_slot s0 then s0
      else (let s1 = s0\<lparr>ur_closed := True, ur_close_notify := True\<rparr>;
                s2 = snd (push_command C_disconnect s1);
                s3 = abort_background_task s2;
                s4 = s3\<lparr>ur_bridge := None\<rparr>;
                s5 = s4\<lparr>ur_mumble_voice := None\<rparr>;
                s6 = s5\<lparr>ur_webrtc := snd (webrtc_close ops (ur_webrtc s5))\<rparr>
            in s6\<lparr>ur_slot := False\<rparr>))"

section \<open>Operations of a connected user\<close>

definition refresh_ice ::
  "auth_key_fn \<Rightarrow> issue_env \<Rightarrow> config \<Rightarrow> string \<Rightarrow> turn_service option \<Rightarrow> ('p, 'snd) user_session
     \<Rightarrow> unit result \<times> server_message list \<times> turn_service option" where
  "refresh_ice gen env config conn_id turn s =
     (if ur_session_id s = None then (Inl ''Mumble authentication pending'', [], turn)
      else (let (ic, turn') = session_ice_config gen env config conn_id turn in (Inr (), [SIceConfig ic], turn')))"

fun add_speakers :: "('p, 'snd) peer_ops \<Rightarrow> u32 list \<Rightarrow> ('p, 'snd) speaker_tracks \<Rightarrow> unit result \<times> ('p, 'snd) speaker_tracks" where
  "add_speakers ops [] t = (Inr (), t)"
| "add_speakers ops (u # us) t =
     (case speakers_add ops u t of
        (Inl e, t') \<Rightarrow> (Inl e, t')
      | (Inr _, t') \<Rightarrow> add_speakers ops us t')"

definition send_offer :: "string option result \<times> ('p, 'snd) webrtc_session \<Rightarrow> ('p, 'snd) user_session
    \<Rightarrow> unit result \<times> server_message list \<times> ('p, 'snd) user_session" where
  "send_offer ow s = (case ow of
     (Inl e, w) \<Rightarrow> (Inl e, [], s\<lparr>ur_webrtc := w\<rparr>)
   | (Inr None, w) \<Rightarrow> (Inr (), [], s\<lparr>ur_webrtc := w\<rparr>)
   | (Inr (Some sdp), w) \<Rightarrow> (Inr (), [SOffer \<lparr>od_sdp = sdp\<rparr>], s\<lparr>ur_webrtc := w\<rparr>))"

text \<open>The speakers are visited in the order of the hash set, which is an argument.\<close>

definition start_voice :: "('p, 'snd) peer_ops \<Rightarrow> u32 list \<Rightarrow> bool \<Rightarrow> ('p, 'snd) user_session
    \<Rightarrow> unit result \<times> server_message list \<times> ('p, 'snd) user_session" where
  "start_voice ops order restart s =
     (if ur_session_id s = None then (Inl ''Mumble authentication pending'', [], s)
      else if \<not> ws_started (ur_webrtc s) then
        (case add_speakers ops order (ws_speakers (ur_webrtc s)) of
           (Inl e, t) \<Rightarrow> (Inl e, [], s\<lparr>ur_webrtc := (ur_webrtc s)\<lparr>ws_speakers := t\<rparr>\<rparr>)
         | (Inr _, t) \<Rightarrow>
             (let w = (ur_webrtc s)\<lparr>ws_speakers := t, ws_started := True\<rparr>;
                  s' = s\<lparr>ur_webrtc := w, ur_voice_start := True\<rparr>
              in send_offer (offer ops restart w) s'))
      else send_offer (offer ops restart (ur_webrtc s)) s)"

definition handle_answer :: "('p, 'snd) peer_ops \<Rightarrow> string \<Rightarrow> ('p, 'snd) user_session
    \<Rightarrow> unit result \<times> server_message list \<times> ('p, 'snd) user_session" where
  "handle_answer ops sdp s = send_offer (answer ops sdp (ur_webrtc s)) s"

definition session_add_ice_candidate :: "('p, 'snd) peer_ops \<Rightarrow> ice_candidate_data \<Rightarrow> ('p, 'snd) user_session
    \<Rightarrow> unit result \<times> ('p, 'snd) user_session" where
  "session_add_ice_candidate ops d s =
     (case add_ice_candidate ops (id_candidate d) (id_sdp_mid d) (id_sdp_mline_index d) (ur_webrtc s) of
        (r, w) \<Rightarrow> (r, s\<lparr>ur_webrtc := w\<rparr>))"

definition send_chat :: "u32 \<Rightarrow> string \<Rightarrow> ('p, 'snd) user_session \<Rightarrow> unit result \<times> ('p, 'snd) user_session" where
  "send_chat channel_id message = push_command (C_send_chat channel_id message)"

definition join_channel :: "u32 \<Rightarrow> ('p, 'snd) user_session \<Rightarrow> unit result \<times> ('p, 'snd) user_session" where
  "join_channel channel_id = push_command (C_join_channel channel_id)"

definition set_mute :: "bool \<Rightarrow> ('p, 'snd) user_session \<Rightarrow> unit result \<times> ('p, 'snd) user_session" where
  "set_mute muted = push_command (C_set_mute muted)"

definition set_deaf :: "bool \<Rightarrow> ('p, 'snd) user_session \<Rightarrow> unit result \<times> ('p, 'snd) user_session" where
  "set_deaf deafened = push_command (C_set_deaf deafened)"

section \<open>The voice setup task\<close>

text \<open>
  Once voice was started: the wait for the crypt state (\<open>None\<close> when it times out or its sender is gone), the lookup of the
  server's address, the socket, and the bridge. \<open>attach_voice\<close> is the part under the session lock.
\<close>

definition voice_error :: "string \<Rightarrow> server_message" where
  "voice_error m = server_error ''voice_error'' m"

definition attach_voice :: "mumble_voice \<Rightarrow> ('p, 'snd) user_session \<Rightarrow> server_message list \<times> ('p, 'snd) user_session" where
  "attach_voice voice s = (case take_channels voice of
     (Inr _, v) \<Rightarrow> ([], s\<lparr>ur_mumble_voice := Some v, ur_bridge := Some audio_bridge_start\<rparr>)
   | (Inl e, v) \<Rightarrow> ([voice_error (''Voice setup failed: '' @ e)], s))"

definition voice_setup :: "crypt_state option \<Rightarrow> socket_addr option \<Rightarrow> (socket_addr \<Rightarrow> unit result) \<Rightarrow> (socket_addr \<Rightarrow> unit result)
    \<Rightarrow> ('p, 'snd) user_session \<Rightarrow> server_message list \<times> ('p, 'snd) user_session" where
  "voice_setup crypt addr bind local_addr s = (case crypt of
     None \<Rightarrow> ([voice_error ''Mumble voice encryption setup timed out or closed''], s)
   | Some k \<Rightarrow> (case addr of
       None \<Rightarrow> ([voice_error ''Voice setup failed: could not resolve Mumble server address''], s)
     | Some a \<Rightarrow> (case voice_start bind local_addr a of
         Inl e \<Rightarrow> ([voice_error (''Voice setup failed: '' @ e)], s)
       | Inr voice \<Rightarrow> attach_voice voice s)))"

section \<open>The event task\<close>

text \<open>
  The locals of the event loop: the names of known users and the error to report at the end.
  \<open>Break\<close> leaves the loop.
\<close>

datatype loop = Continue | Break

record event_task =
  et_user_map :: "u32 \<rightharpoonup> string"
  et_terminal :: "server_message option"

record event_env =
  ee_issue :: issue_env
  ee_now :: nat

definition insert_names :: "user_info list \<Rightarrow> (u32 \<rightharpoonup> string) \<Rightarrow> (u32 \<rightharpoonup> string)" where
  "insert_names us m = fold (\<lambda>u m. m(ui_session_id u \<mapsto> ui_name u)) us m"

definition user_label :: "(u32 \<rightharpoonup> string) \<Rightarrow> u32 \<Rightarrow> string" where
  "user_label m u = (case m u of Some n \<Rightarrow> n | None \<Rightarrow> ''User#'' @ dec (unat u))"

type_synonym ('p, 'snd) event_result =
  "loop \<times> server_message list \<times> ('p, 'snd) user_session \<times> turn_service option \<times> event_task"

text \<open>A login has two parts: the session is updated under its lock, then the ICE configuration is made and sent.\<close>

definition login_session :: "u32 \<Rightarrow> user_info list \<Rightarrow> ('p, 'snd) user_session \<Rightarrow> ('p, 'snd) user_session" where
  "login_session session_id users s = s\<lparr>ur_session_id := Some session_id,
     ur_known_speakers := set (filter (\<lambda>u. u \<noteq> session_id) (map ui_session_id users))\<rparr>"

definition announce_login ::
  "auth_key_fn \<Rightarrow> issue_env \<Rightarrow> config \<Rightarrow> string \<Rightarrow> u32 \<Rightarrow> channel_info list \<Rightarrow> user_info list
     \<Rightarrow> turn_service option \<Rightarrow> server_message \<times> turn_service option" where
  "announce_login gen env config conn_id session_id channels users turn =
     (case session_ice_config gen env config conn_id turn of (ic, turn') \<Rightarrow>
        (SConnected \<lparr>cn_protocol_version = 2, cn_ice = ic, cn_session_id = session_id, cn_channels = channels, cn_users = users\<rparr>, turn'))"

definition on_connected ::
  "auth_key_fn \<Rightarrow> issue_env \<Rightarrow> config \<Rightarrow> string \<Rightarrow> u32 \<Rightarrow> channel_info list \<Rightarrow> user_info list
     \<Rightarrow> ('p, 'snd) user_session \<Rightarrow> turn_service option \<Rightarrow> event_task \<Rightarrow> ('p, 'snd) event_result" where
  "on_connected gen env config conn_id session_id channels users s turn et =
     (let et' = et\<lparr>et_user_map := insert_names users (et_user_map et)\<rparr>
      in if ur_closed s then (Break, [], s, turn, et')
         else (case announce_login gen env config conn_id session_id channels users turn of
                 (msg, turn') \<Rightarrow> (Continue, [msg], login_session session_id users s, turn', et')))"

definition on_user_joined :: "('p, 'snd) peer_ops \<Rightarrow> user_info \<Rightarrow> ('p, 'snd) user_session \<Rightarrow> server_message list \<times> ('p, 'snd) user_session" where
  "on_user_joined ops user s =
     (if ur_session_id s \<noteq> Some (ui_session_id user) then
        (let s' = s\<lparr>ur_known_speakers := insert (ui_session_id user) (ur_known_speakers s)\<rparr>
         in if ws_started (ur_webrtc s') then
              (case speakers_add ops (ui_session_id user) (ws_speakers (ur_webrtc s')) of
                 (r, t) \<Rightarrow> (case r of Inl e \<Rightarrow> [voice_error e] | Inr _ \<Rightarrow> [],
                            s'\<lparr>ur_webrtc := (ur_webrtc s')\<lparr>ws_speakers := t\<rparr>\<rparr>))
            else ([], s'))
      else ([], s))"

definition on_user_left :: "('p, 'snd) peer_ops \<Rightarrow> u32 \<Rightarrow> ('p, 'snd) user_session \<Rightarrow> server_message list \<times> ('p, 'snd) user_session" where
  "on_user_left ops session_id s =
     (let s' = s\<lparr>ur_known_speakers := ur_known_speakers s - {session_id}\<rparr>
      in (case speakers_remove ops session_id (ws_speakers (ur_webrtc s')) of
            (r, t) \<Rightarrow> (case r of Inl e \<Rightarrow> [voice_error e] | Inr _ \<Rightarrow> [],
                       s'\<lparr>ur_webrtc := (ur_webrtc s')\<lparr>ws_speakers := t\<rparr>\<rparr>)))"

definition handle_mumble_event ::
  "auth_key_fn \<Rightarrow> ('p, 'snd) peer_ops \<Rightarrow> config \<Rightarrow> string \<Rightarrow> event_env \<Rightarrow> mumble_event
     \<Rightarrow> ('p, 'snd) user_session \<Rightarrow> turn_service option \<Rightarrow> event_task \<Rightarrow> ('p, 'snd) event_result" where
  "handle_mumble_event gen ops config conn_id env ev s turn et = (case ev of
     M_connected session_id channels users \<Rightarrow>
       on_connected gen (ee_issue env) config conn_id session_id channels users s turn et
   | M_user_joined user \<Rightarrow>
       (let (msgs, s') = on_user_joined ops user s
        in (Continue, msgs @ [SUserJoined user], s', turn, et\<lparr>et_user_map := (et_user_map et)(ui_session_id user \<mapsto> ui_name user)\<rparr>))
   | M_user_left session_id \<Rightarrow>
       (let (msgs, s') = on_user_left ops session_id s
        in (Continue, msgs @ [SUserLeft \<lparr>ul_session_id = session_id\<rparr>], s', turn, et\<lparr>et_user_map := (et_user_map et)(session_id := None)\<rparr>))
   | M_user_state_changed st \<Rightarrow>
       (Continue, [SUserState st], s, turn,
        (case us_name st of
           Some name \<Rightarrow> et\<lparr>et_user_map := (et_user_map et)(us_session_id st \<mapsto> name)\<rparr>
         | None \<Rightarrow> et))
   | M_channel_added ch \<Rightarrow> (Continue, [SChannelUpdated \<lparr>cu_channels = [ch]\<rparr>], s, turn, et)
   | M_channel_updated ch \<Rightarrow> (Continue, [SChannelUpdated \<lparr>cu_channels = [ch]\<rparr>], s, turn, et)
   | M_channel_removed _ \<Rightarrow> (Continue, [], s, turn, et)
   | M_chat_message sender_session channel_id message \<Rightarrow>
       (Continue,
        [SChatReceived \<lparr>cr_sender_session = sender_session, cr_sender_name = user_label (et_user_map et) sender_session,
           cr_channel_id = channel_id, cr_message = message, cr_timestamp = ee_now env\<rparr>], s, turn, et)
   | M_disconnected reason \<Rightarrow>
       (Break, [], s, turn, et\<lparr>et_terminal := Some (server_error ''mumble_disconnected'' reason)\<rparr>))"

definition handle_webrtc_event ::
  "('p, 'snd) peer_ops \<Rightarrow> (peer_connection_state \<Rightarrow> string) \<Rightarrow> webrtc_event \<Rightarrow> ('p, 'snd) user_session \<Rightarrow> server_message list \<times> ('p, 'snd) user_session" where
  "handle_webrtc_event ops display_state ev s = (case ev of
     IceCandidateEvent c \<Rightarrow>
       ([SIceCandidate \<lparr>id_candidate = ic_candidate c, id_sdp_mid = ic_sdp_mid c, id_sdp_mline_index = ic_sdp_mline_index c\<rparr>], s)
   | NegotiationNeeded \<Rightarrow>
       (case send_offer (offer ops False (ur_webrtc s)) s of
          (Inr _, msgs, s') \<Rightarrow> (msgs, s')
        | (Inl e, msgs, s') \<Rightarrow> ([voice_error e], s'))
   | ConnectionStateChanged st \<Rightarrow>
       ((if st = PcFailed \<or> st = PcDisconnected
         then [server_error ''webrtc_disconnected'' (''WebRTC state: '' @ display_state st)] else []), s))"

text \<open>
  One turn of the \<open>select!\<close> loop. It is biased: a pending close notification wins, then the end of
  the WebSocket channel; \<open>None\<close> is a closed event channel. \<open>event_handle\<close> is the body of the branch that
  was taken; it waits for the session's lock, so a teardown may come between the choice and the body.
\<close>

datatype event_input =
  E_ws_closed
| E_mumble event_env "mumble_event option"
| E_webrtc "webrtc_event option"

definition event_handle ::
  "auth_key_fn \<Rightarrow> ('p, 'snd) peer_ops \<Rightarrow> (peer_connection_state \<Rightarrow> string) \<Rightarrow> config \<Rightarrow> string \<Rightarrow> event_input
     \<Rightarrow> ('p, 'snd) user_session \<Rightarrow> turn_service option \<Rightarrow> event_task \<Rightarrow> ('p, 'snd) event_result" where
  "event_handle gen ops display_state config conn_id inp s turn et = (case inp of
     E_ws_closed \<Rightarrow> (Break, [], s, turn, et)
   | E_mumble env (Some ev) \<Rightarrow> handle_mumble_event gen ops config conn_id env ev s turn et
   | E_mumble env None \<Rightarrow> (Break, [], s, turn, et)
   | E_webrtc (Some ev) \<Rightarrow> (let (msgs, s') = handle_webrtc_event ops display_state ev s in (Continue, msgs, s', turn, et))
   | E_webrtc None \<Rightarrow> (Break, [], s, turn, et))"

definition event_step ::
  "auth_key_fn \<Rightarrow> ('p, 'snd) peer_ops \<Rightarrow> (peer_connection_state \<Rightarrow> string) \<Rightarrow> config \<Rightarrow> string \<Rightarrow> event_input
     \<Rightarrow> ('p, 'snd) user_session \<Rightarrow> turn_service option \<Rightarrow> event_task \<Rightarrow> ('p, 'snd) event_result" where
  "event_step gen ops display_state config conn_id inp s turn et =
     (if ur_close_notify s then (Break, [], s\<lparr>ur_close_notify := False\<rparr>, turn, et)
      else event_handle gen ops display_state config conn_id inp s turn et)"

text \<open>The task before its loop: it stops at once for a session that was already closed.\<close>

definition event_task_start :: "('p, 'snd) user_session \<Rightarrow> (event_task \<times> ('p, 'snd) user_session) option" where
  "event_task_start s =
     (if ur_closed s then None
      else Some (\<lparr>et_user_map = Map.empty, et_terminal = None\<rparr>, s\<lparr>ur_voice_setup_task := True\<rparr>))"

section \<open>What the event task learns\<close>

text \<open>The effect of a Mumble event on the names, and on the own session and the known speakers.\<close>

primrec name_event :: "mumble_event \<Rightarrow> (u32 \<rightharpoonup> string) \<Rightarrow> (u32 \<rightharpoonup> string)" where
  "name_event (M_connected sid chs us) m = insert_names us m"
| "name_event (M_user_joined u) m = m(ui_session_id u \<mapsto> ui_name u)"
| "name_event (M_user_left sid) m = m(sid := None)"
| "name_event (M_user_state_changed st) m = (case us_name st of Some n \<Rightarrow> m(us_session_id st \<mapsto> n) | None \<Rightarrow> m)"
| "name_event (M_channel_added ch) m = m"
| "name_event (M_channel_updated ch) m = m"
| "name_event (M_channel_removed i) m = m"
| "name_event (M_chat_message a b c) m = m"
| "name_event (M_disconnected r) m = m"

primrec speaker_event :: "mumble_event \<Rightarrow> u32 option \<times> u32 set \<Rightarrow> u32 option \<times> u32 set" where
  "speaker_event (M_connected sid chs us) k = (Some sid, ui_session_id ` set us - {sid})"
| "speaker_event (M_user_joined u) k = (fst k, if fst k \<noteq> Some (ui_session_id u) then insert (ui_session_id u) (snd k) else snd k)"
| "speaker_event (M_user_left sid) k = (fst k, snd k - {sid})"
| "speaker_event (M_user_state_changed st) k = k"
| "speaker_event (M_channel_added ch) k = k"
| "speaker_event (M_channel_updated ch) k = k"
| "speaker_event (M_channel_removed i) k = k"
| "speaker_event (M_chat_message a b c) k = k"
| "speaker_event (M_disconnected r) k = k"

definition learns_inv :: "mumble_conn \<Rightarrow> bool" where
  "learns_inv c \<longleftrightarrow> conn_inv c \<and>
     fold name_event (mc_events c) Map.empty = (if mc_connected c then map_option ui_name \<circ> mc_users c else Map.empty) \<and>
     (if mc_connected c
      then \<exists>sid. fold speaker_event (mc_events c) (None, {}) = (Some sid, dom (mc_users c) - {sid})
      else fold speaker_event (mc_events c) (None, {}) = (None, {}))"

lemma insert_names_map:
  assumes "iterates m ks" and "\<And>k u. m k = Some u \<Longrightarrow> ui_session_id u = k"
  shows "insert_names (hm_values m ks) f k = (case m k of Some u \<Rightarrow> Some (ui_name u) | None \<Rightarrow> f k)"
proof -
  have "insert_names (hm_values m ks) f k = (if k \<in> set ks \<and> m k \<noteq> None then map_option ui_name (m k) else f k)" for ks f
    by (induction ks arbitrary: f) (auto simp: insert_names_def assms(2) split: option.splits)
  with assms(1) show ?thesis by (auto simp: iterates_def split: option.split)
qed

lemma hm_values_ids:
  assumes "iterates m ks" and "\<And>k u. m k = Some u \<Longrightarrow> ui_session_id u = k"
  shows "ui_session_id ` set (hm_values m ks) = dom m"
  using assms by (force simp: set_hm_values_iterates ran_def)

lemma learns_same_users:
  assumes "learns_inv c" and "conn_inv c'" and "mc_users c' = mc_users c" and "mc_connected c' = mc_connected c"
    and "mc_events c' = mc_events c \<or> (\<exists>e. mc_events c' = mc_events c @ [e] \<and> name_event e = id \<and> speaker_event e = id)"
  shows "learns_inv c'"
  using assms by (auto simp: learns_inv_def)

lemma names_update: "map_option ui_name \<circ> m(k \<mapsto> u) = (map_option ui_name \<circ> m)(k \<mapsto> ui_name u)"
  "map_option ui_name \<circ> m(k := None) = (map_option ui_name \<circ> m)(k := None)"
  by (auto simp: fun_eq_iff)

lemma merge_name: "ui_name (merge_user_state u msg) = (case um_name msg of Some n \<Rightarrow> n | None \<Rightarrow> ui_name u)"
  by (simp add: merge_user_state_def or_else_def)

lemma learns_user_state:
  assumes inv: "learns_inv c"
  shows "learns_inv (snd (handle_control_packet co uo (P_user_state msg) c))" (is "learns_inv ?c'")
proof -
  let ?sid = "get_u32 (um_session msg)"
  have ci: "conn_inv ?c'"
    using inv unfolding learns_inv_def
    by (auto simp: mumble_simps conn_inv_def split: option.split)
  show ?thesis
  proof (cases "mc_connected c")
    case False
    then have "mc_events ?c' = mc_events c" "\<not> mc_connected ?c'"
      by (auto simp: mumble_simps)
    with inv False ci show ?thesis by (auto simp: learns_inv_def)
  next
    case True
    from inv True obtain me where k: "fold name_event (mc_events c) Map.empty = map_option ui_name \<circ> mc_users c"
      "fold speaker_event (mc_events c) (None, {}) = (Some me, dom (mc_users c) - {me})"
      by (auto simp: learns_inv_def)
    show ?thesis
    proof (cases "mc_users c ?sid")
      case None
      with True k ci show ?thesis
        by (auto simp: learns_inv_def mumble_simps names_update)
    next
      case (Some u)
      let ?m = "(mc_users c)(?sid \<mapsto> merge_user_state u msg)"
      have e: "mc_events ?c' = mc_events c @ [M_user_state_changed (user_state_data_of msg)]" "mc_users ?c' = ?m" "mc_connected ?c'"
        using True Some by (simp_all add: mumble_simps)
      have "dom ?m = dom (mc_users c)" using Some by auto
      moreover have "name_event (M_user_state_changed (user_state_data_of msg)) (map_option ui_name \<circ> mc_users c) = map_option ui_name \<circ> ?m"
        using Some by (auto simp: names_update merge_name fun_eq_iff user_state_data_of_def split: option.split)
      ultimately show ?thesis using k ci e by (auto simp: learns_inv_def)
    qed
  qed
qed

lemma learns_server_sync:
  assumes inv: "learns_inv c" and ord: "iterates (mc_channels c) co" "iterates (mc_users c) uo"
  shows "learns_inv (snd (handle_control_packet co uo (P_server_sync sid) c))" (is "learns_inv ?c'")
proof -
  have ids: "\<And>k u. mc_users c k = Some u \<Longrightarrow> ui_session_id u = k" and ci: "conn_inv ?c'"
    using inv handle_inv [OF _ ord, of "P_server_sync sid"] by (auto simp: learns_inv_def conn_inv_def)
  have e: "mc_events ?c' = mc_events c @ [M_connected (get_u32 sid) (hm_values (mc_channels c) co) (hm_values (mc_users c) uo)]"
    "mc_users ?c' = mc_users c" "mc_connected ?c'"
    by (auto simp: mumble_simps split: option.split)
  have "fold name_event (mc_events c) Map.empty = map_option ui_name \<circ> mc_users c \<or> fold name_event (mc_events c) Map.empty = Map.empty"
    using inv by (auto simp: learns_inv_def split: if_splits)
  then have "insert_names (hm_values (mc_users c) uo) (fold name_event (mc_events c) Map.empty) = map_option ui_name \<circ> mc_users c"
    by (auto simp: fun_eq_iff insert_names_map [OF ord(2) ids] split: option.split)
  with ci e hm_values_ids [OF ord(2) ids] show ?thesis by (auto simp: learns_inv_def)
qed

lemma learns_step:
  assumes inv: "learns_inv c" and ord: "iterates (mc_channels c) co" "iterates (mc_users c) uo"
  shows "learns_inv (snd (handle_control_packet co uo packet c))"
proof -
  have ci: "conn_inv (snd (handle_control_packet co uo packet c))"
    using inv handle_inv [OF _ ord] by (simp add: learns_inv_def)
  show ?thesis
  proof (cases packet)
    case (P_user_remove i)
    show ?thesis
    proof (cases "mc_connected c")
      case True
      with P_user_remove inv ci show ?thesis
        by (auto simp: learns_inv_def mumble_simps names_update)
    next
      case False
      with P_user_remove inv ci show ?thesis by (auto simp: learns_inv_def mumble_simps)
    qed
  next
    case (P_user_state msg)
    with learns_user_state [OF inv] show ?thesis by simp
  next
    case (P_server_sync sid)
    with learns_server_sync [OF inv ord] show ?thesis by simp
  next
    case (P_crypt_setup msg)
    with inv ci show ?thesis
      by (intro learns_same_users [OF inv ci]) (auto simp: handle_control_packet_def split: sum.split)
  qed (use ci in \<open>(intro learns_same_users [OF inv ci]; auto simp: mumble_simps fun_eq_iff)\<close>)+
qed

lemma learns_init: "learns_inv mumble_conn_new"
  using mumble_conn_new_inv by (simp add: learns_inv_def mumble_conn_new_def)

interpretation mumble_listener: invariant_system "\<lambda>c. c = mumble_conn_new" packet_step learns_inv
  by unfold_locales (auto simp: learns_init packet_step_iff intro: learns_step)

text \<open>The events of the Mumble connection, handled one after the other until one ends the loop.\<close>

fun run_mumble_events ::
  "auth_key_fn \<Rightarrow> ('p, 'snd) peer_ops \<Rightarrow> config \<Rightarrow> string \<Rightarrow> (event_env \<times> mumble_event) list
     \<Rightarrow> ('p, 'snd) user_session \<Rightarrow> turn_service option \<Rightarrow> event_task \<Rightarrow> ('p, 'snd) event_result" where
  "run_mumble_events gen ops config conn_id [] s turn et = (Continue, [], s, turn, et)"
| "run_mumble_events gen ops config conn_id ((env, ev) # evs) s turn et =
     (case handle_mumble_event gen ops config conn_id env ev s turn et of
        (Break, msgs, s', turn', et') \<Rightarrow> (Break, msgs, s', turn', et')
      | (Continue, msgs, s', turn', et') \<Rightarrow>
          (case run_mumble_events gen ops config conn_id evs s' turn' et' of
             (l, msgs', r) \<Rightarrow> (l, msgs @ msgs', r)))"

definition is_disconnected :: "mumble_event \<Rightarrow> bool" where
  "is_disconnected ev = (case ev of M_disconnected _ \<Rightarrow> True | _ \<Rightarrow> False)"

lemma handle_mumble_event_learns:
  assumes "\<not> ur_closed s" and "\<not> is_disconnected ev"
    and "handle_mumble_event gen ops config conn_id env ev s turn et = (l, msgs, s', turn', et')"
  shows "l = Continue \<and> et_user_map et' = name_event ev (et_user_map et) \<and> \<not> ur_closed s' \<and>
    (ur_session_id s', ur_known_speakers s') = speaker_event ev (ur_session_id s, ur_known_speakers s)"
proof (cases ev)
  case (M_connected sid chs us)
  with assms show ?thesis by (auto simp: handle_mumble_event_def on_connected_def login_session_def announce_login_def Let_def split: prod.splits)
next
  case (M_user_joined u)
  with assms show ?thesis
    by (auto simp: handle_mumble_event_def on_user_joined_def Let_def split: prod.splits if_splits)
next
  case (M_user_left sid)
  with assms show ?thesis by (auto simp: handle_mumble_event_def on_user_left_def Let_def split: prod.splits)
next
  case (M_user_state_changed st)
  with assms show ?thesis by (auto simp: handle_mumble_event_def split: option.splits)
qed (use assms in \<open>auto simp: handle_mumble_event_def is_disconnected_def\<close>)

lemma run_mumble_events_learns:
  assumes "\<not> ur_closed s" and "list_all (\<lambda>(env, ev). \<not> is_disconnected ev) evs"
    and "run_mumble_events gen ops config conn_id evs s turn et = (l, msgs, s', turn', et')"
  shows "l = Continue \<and> et_user_map et' = fold name_event (map snd evs) (et_user_map et) \<and>
    (ur_session_id s', ur_known_speakers s') = fold speaker_event (map snd evs) (ur_session_id s, ur_known_speakers s)"
  using assms
proof (induction evs arbitrary: s turn et l msgs)
  case (Cons x evs)
  obtain env ev where x: "x = (env, ev)" by fastforce
  obtain l1 m1 s1 t1 e1 where h: "handle_mumble_event gen ops config conn_id env ev s turn et = (l1, m1, s1, t1, e1)"
    by (metis prod_cases5)
  have one: "l1 = Continue" "et_user_map e1 = name_event ev (et_user_map et)" "\<not> ur_closed s1"
    "(ur_session_id s1, ur_known_speakers s1) = speaker_event ev (ur_session_id s, ur_known_speakers s)"
    using handle_mumble_event_learns [OF Cons.prems(1) _ h] Cons.prems(2) x by auto
  obtain l2 m2 r2 where r: "run_mumble_events gen ops config conn_id evs s1 t1 e1 = (l2, m2, r2)" by (metis prod_cases3)
  with Cons.prems(3) x h one(1) have "run_mumble_events gen ops config conn_id evs s1 t1 e1 = (l, m2, s', turn', et')" by auto
  from Cons.IH [OF one(3) _ this] Cons.prems(2) one x show ?case by auto
qed simp

lemma shutdown_fields:
  assumes "ur_slot s"
  shows "shutdown_user_session ops s = s\<lparr>ur_closed := True, ur_close_notify := True,
      ur_commands := (if ur_mumble_alive s then ur_commands s @ [C_disconnect] else ur_commands s),
      ur_voice_setup_task := False, ur_bridge := None, ur_mumble_voice := None,
      ur_webrtc := snd (webrtc_close ops (ur_webrtc s)), ur_slot := False\<rparr>"
  using assms by (simp add: shutdown_user_session_def push_command_def send_command_def abort_background_task_def Let_def)

lemma shutdown_no_slot [simp]: "\<not> ur_slot (shutdown_user_session ops s)"
  by (cases "ur_slot s") (simp_all add: shutdown_fields, simp add: shutdown_user_session_def)

definition demo_user :: "(sim_peer, nat) user_session" where
  "demo_user = user_session_new demo_session ''alice''"

definition demo_env :: event_env where
  "demo_env = \<lparr>ee_issue = \<lparr>ie_draw = demo_draw, ie_order = [], ie_now = 10\<rparr>, ee_now = 10\<rparr>"

section \<open>Properties of a user session\<close>

text \<open>
  C7. What the event task knows is what the Mumble connection knows: after all events of a connection that completed its login, the
  names used to label chat messages are exactly the current names of the current users, and the
  speakers that get an audio track are exactly the current users except the session itself.
\<close>

theorem event_task_tracks_users:
  assumes "reachable (\<lambda>c. c = mumble_conn_new) packet_step c" and "mc_connected c"
    and "map snd evs = mc_events c" and "list_all (\<lambda>(env, ev). \<not> is_disconnected ev) evs"
    and "event_task_start s0 = Some (et, s)" and "ur_session_id s0 = None" and "ur_known_speakers s0 = {}"
  shows "case run_mumble_events gen ops config conn_id evs s turn et of (l, msgs, s', turn', et') \<Rightarrow>
     l = Continue \<and> et_user_map et' = map_option ui_name \<circ> mc_users c \<and>
     (\<exists>sid. ur_session_id s' = Some sid \<and> ur_known_speakers s' = dom (mc_users c) - {sid})"
proof -
  have s: "\<not> ur_closed s" "ur_session_id s = None" "ur_known_speakers s = {}" "et_user_map et = Map.empty"
    using assms(5-7) by (auto simp: event_task_start_def split: if_splits)
  obtain l msgs s' turn' et' where r: "run_mumble_events gen ops config conn_id evs s turn et = (l, msgs, s', turn', et')"
    by (metis prod_cases5)
  from run_mumble_events_learns [OF s(1) assms(4) r] mumble_listener.reachable_inv [OF assms(1)] assms(2,3) s r
  show ?thesis by (auto simp: learns_inv_def)
qed

theorem event_task_tracks_users_witness:
  "(case run_mumble_events demo_key sim_peer_ops demo_turn_config ''conn'' [(demo_env, M_connected 9 [] [user_info_of demo_user_state])]
      (demo_user\<lparr>ur_voice_setup_task := True\<rparr>) None \<lparr>et_user_map = Map.empty, et_terminal = None\<rparr> of
    (l, msgs, s', turn', et') \<Rightarrow> user_label (et_user_map et') 4 = ''Bob'' \<and> ur_known_speakers s' = {4})"
proof -
  have st: "event_task_start demo_user = Some (\<lparr>et_user_map = Map.empty, et_terminal = None\<rparr>, demo_user\<lparr>ur_voice_setup_task := True\<rparr>)"
    by (simp add: event_task_start_def demo_user_def user_session_new_def)
  have "case run_mumble_events demo_key sim_peer_ops demo_turn_config ''conn'' [(demo_env, M_connected 9 [] [user_info_of demo_user_state])]
      (demo_user\<lparr>ur_voice_setup_task := True\<rparr>) None \<lparr>et_user_map = Map.empty, et_terminal = None\<rparr> of (l, msgs, s', turn', et') \<Rightarrow>
     l = Continue \<and> et_user_map et' = map_option ui_name \<circ> mc_users demo_synced \<and>
     (\<exists>sid. ur_session_id s' = Some sid \<and> ur_known_speakers s' = dom (mc_users demo_synced) - {sid})"
    by (rule event_task_tracks_users [OF demo_synced_reachable _ _ _ st])
      (simp_all add: demo_synced_eq is_disconnected_def demo_user_def user_session_new_def)
  then show ?thesis
    by (auto simp: demo_synced_eq user_label_def user_info_of_def demo_user_state_def empty_user_state_def get_str_def get_u32_def
        handle_mumble_event_def on_connected_def login_session_def announce_login_def demo_user_def user_session_new_def Let_def split: prod.splits)
qed

text \<open>
  Teardown is complete and happens once: after it the session is closed, holds no slot,
  no voice socket, no bridge and no setup task, its event task has been told and the peer
  connection closed; exactly one \<open>Disconnect\<close> is queued for a living Mumble connection, and any
  further teardown changes nothing.
\<close>

lemma shutdown_complete_and_idempotent:
  assumes "ur_slot s"
  shows "let t = shutdown_user_session ops s in
     \<not> ur_slot t \<and> ur_closed t \<and> ur_close_notify t \<and> \<not> ur_voice_setup_task t \<and>
     ur_mumble_voice t = None \<and> ur_bridge t = None \<and>
     ws_peer (ur_webrtc t) = snd (peer_close ops (ws_peer (ur_webrtc s))) \<and>
     ur_commands t = ur_commands s @ (if ur_mumble_alive s then [C_disconnect] else []) \<and>
     shutdown_user_session ops t = t"
proof -
  have "shutdown_user_session ops (shutdown_user_session ops s) = shutdown_user_session ops s"
    using shutdown_no_slot [of ops s] by (subst shutdown_user_session_def) simp
  then show ?thesis using assms by (auto simp: shutdown_fields webrtc_close_def Let_def split: prod.split)
qed

end
