(* ===== verification/Session_Lifecycle.thy ===== *)
theory Session_Lifecycle
  imports User_Session
begin

text \<open>
  The life of one user session (\<open>src/src/session.rs\<close>): every operation that is made on it under its
  lock, as one step relation, and what holds of the session whatever the order of the operations.
  A step carries the messages it puts on the session's WebSocket.
\<close>

section \<open>The steps of a session\<close>

text \<open>
  The operations of the user, the choices and bodies of the event task, the voice setup task (it runs once the
  start of voice was signalled and consumes the signal; all it does to the session happens at its
  end), the downlink of a running bridge, and the connection task that takes commands off the queue
  or ends. Each step names who makes it. The speakers are visited in some order of the hash set.
\<close>

definition plain_command :: "mumble_command \<Rightarrow> bool" where
  "plain_command cmd \<longleftrightarrow> cmd \<noteq> C_disconnect"

definition close_taken :: "('p, 'snd) user_session \<Rightarrow> ('p, 'snd) user_session" where
  "close_taken s = s\<lparr>ur_close_notify := False\<rparr>"

definition voice_setup_run :: "crypt_state option \<Rightarrow> socket_addr option \<Rightarrow> (socket_addr \<Rightarrow> unit result) \<Rightarrow> (socket_addr \<Rightarrow> unit result)
    \<Rightarrow> ('p, 'snd) user_session \<Rightarrow> (server_message list \<times> ('p, 'snd) user_session) option" where
  "voice_setup_run crypt addr bind local_addr s =
     (if ur_voice_setup_task s \<and> ur_voice_start s
      then Some (voice_setup crypt addr bind local_addr (s\<lparr>ur_voice_start := False\<rparr>))
      else None)"

definition downlink_write :: "('p, 'snd) peer_ops \<Rightarrow> mumble_voice_data \<Rightarrow> instant \<Rightarrow> instant \<Rightarrow> ('p, 'snd) user_session \<Rightarrow> ('p, 'snd) user_session" where
  "downlink_write ops d n1 n2 s =
     (if ur_bridge s = None then s
      else s\<lparr>ur_webrtc := (ur_webrtc s)\<lparr>ws_speakers := downlink_run ops [(d, n1, n2)] (ws_speakers (ur_webrtc s))\<rparr>\<rparr>)"

datatype actor = By_user | By_event_task | By_setup_task | By_downlink | By_mumble

inductive session_step ::
  "('p, 'snd) peer_ops \<Rightarrow> actor \<Rightarrow> ('p, 'snd) user_session \<Rightarrow> server_message list \<Rightarrow> ('p, 'snd) user_session \<Rightarrow> bool"
  for ops :: "('p, 'snd) peer_ops" where
  ss_voice: "set order = ur_known_speakers s \<Longrightarrow> start_voice ops order restart s = (x, msgs, s') \<Longrightarrow> session_step ops By_user s msgs s'"
| ss_answer: "handle_answer ops sdp s = (x, msgs, s') \<Longrightarrow> session_step ops By_user s msgs s'"
| ss_candidate: "session_add_ice_candidate ops d s = (x, s') \<Longrightarrow> session_step ops By_user s [] s'"
| ss_command: "plain_command cmd \<Longrightarrow> push_command cmd s = (x, s') \<Longrightarrow> session_step ops By_user s [] s'"
| ss_event_start: "event_task_start s = Some (et, s') \<Longrightarrow> session_step ops By_event_task s [] s'"
| ss_close_taken: "session_step ops By_event_task s [] (close_taken s)"
| ss_event: "event_handle gen ops display_state config conn_id inp s turn et = (l, msgs, s', turn', et') \<Longrightarrow>
    session_step ops By_event_task s msgs s'"
| ss_setup: "voice_setup_run crypt addr bind local_addr s = Some (msgs, s') \<Longrightarrow> session_step ops By_setup_task s msgs s'"
| ss_downlink: "session_step ops By_downlink s [] (downlink_write ops d n1 n2 s)"
| ss_mumble_takes: "ur_commands s = cmd # rest \<Longrightarrow> session_step ops By_mumble s [] (s\<lparr>ur_commands := rest\<rparr>)"
| ss_mumble_ends: "session_step ops By_mumble s [] (s\<lparr>ur_mumble_alive := False\<rparr>)"

section \<open>Well-formed sessions\<close>

definition session_wf :: "('p, 'snd) user_session \<Rightarrow> bool" where
  "session_wf s \<longleftrightarrow>
     ws_inv (ur_webrtc s) \<and>
     (ur_slot s \<longleftrightarrow> \<not> ur_closed s) \<and>
     (ur_close_notify s \<longrightarrow> ur_closed s) \<and>
     (C_disconnect \<in> set (ur_commands s) \<longrightarrow> ur_closed s) \<and>
     (ur_closed s \<longrightarrow> \<not> ur_voice_setup_task s) \<and>
     (ur_bridge s = None \<longleftrightarrow> ur_mumble_voice s = None) \<and>
     (ur_bridge s \<noteq> None \<longrightarrow> ur_voice_setup_task s \<and> ws_started (ur_webrtc s) \<and> \<not> ur_voice_start s) \<and>
     (ur_voice_start s \<longrightarrow> ws_started (ur_webrtc s)) \<and>
     (ws_started (ur_webrtc s) \<longrightarrow> ur_session_id s \<noteq> None) \<and>
     (\<forall>i. ur_session_id s = Some i \<longrightarrow> i \<notin> ur_known_speakers s)"

named_theorems started_simps

lemma offer_started [started_simps]: "ws_started (snd (offer ops r w)) = ws_started w"
  by (auto simp: offer_def Let_def split: sum.split prod.split)

lemma answer_started [started_simps]: "ws_started (snd (answer ops sdp w)) = ws_started w"
  by (auto simp: answer_def Let_def offer_started split: sum.split prod.split)

lemma add_ice_candidate_started [started_simps]: "ws_started (snd (add_ice_candidate ops c mid idx w)) = ws_started w"
  by (auto simp: add_ice_candidate_def Let_def split: prod.split)

lemma webrtc_close_started [started_simps]: "ws_started (snd (webrtc_close ops w)) = ws_started w"
  by (auto simp: webrtc_close_def split: prod.split)

lemma ws_inv_speakers [simp]: "ws_inv (w\<lparr>ws_speakers := t\<rparr>) = ws_inv w"
  by (simp add: ws_inv_def)

lemma add_ice_candidate_inv: "ws_inv w \<Longrightarrow> ws_inv (snd (add_ice_candidate ops c mid idx w))"
  using ws_apply_inv [of w ops "W_candidate c mid idx"] by (simp add: ws_apply_def)

lemma webrtc_close_inv: "ws_inv w \<Longrightarrow> ws_inv (snd (webrtc_close ops w))"
  using ws_apply_inv [of w ops W_close] by (simp add: ws_apply_def)

lemma wf_webrtc:
  "session_wf s \<Longrightarrow> ws_inv w \<Longrightarrow> ws_started w = ws_started (ur_webrtc s) \<Longrightarrow> session_wf (s\<lparr>ur_webrtc := w\<rparr>)"
  by (auto simp: session_wf_def)

lemma wf_speakers: "session_wf s \<Longrightarrow> session_wf (s\<lparr>ur_webrtc := (ur_webrtc s)\<lparr>ws_speakers := t\<rparr>\<rparr>)"
  by (auto simp: session_wf_def)

lemma send_offer_session: "snd (snd (send_offer ow s)) = s\<lparr>ur_webrtc := snd ow\<rparr>"
  by (auto simp: send_offer_def split: prod.split sum.split option.split)

lemma wf_offer: "session_wf s \<Longrightarrow> session_wf (snd (snd (send_offer (offer ops r (ur_webrtc s)) s)))"
  unfolding send_offer_session by (rule wf_webrtc) (auto simp: session_wf_def started_simps intro: offer_inv)

lemma wf_answer: "session_wf s \<Longrightarrow> session_wf (snd (snd (handle_answer ops sdp s)))"
  unfolding handle_answer_def send_offer_session
  by (rule wf_webrtc) (auto simp: session_wf_def started_simps intro: answer_inv)

lemma candidate_session:
  "snd (session_add_ice_candidate ops d s) =
     s\<lparr>ur_webrtc := snd (add_ice_candidate ops (id_candidate d) (id_sdp_mid d) (id_sdp_mline_index d) (ur_webrtc s))\<rparr>"
  by (simp add: session_add_ice_candidate_def split: prod.split)

lemma wf_candidate: "session_wf s \<Longrightarrow> session_wf (snd (session_add_ice_candidate ops d s))"
  unfolding candidate_session
  by (rule wf_webrtc) (auto simp: started_simps session_wf_def intro: add_ice_candidate_inv)

lemma wf_command: "session_wf s \<Longrightarrow> plain_command cmd \<Longrightarrow> session_wf (snd (push_command cmd s))"
  by (auto simp: push_command_def send_command_def session_wf_def plain_command_def split: sum.split)

lemma wf_start_voice:
  assumes wf: "session_wf s"
  shows "session_wf (snd (snd (start_voice ops order restart s)))"
proof (cases "ur_session_id s = None \<or> ws_started (ur_webrtc s)")
  case True
  with wf wf_offer [OF wf] show ?thesis by (auto simp: start_voice_def)
next
  case False
  obtain x t where a: "add_speakers ops order (ws_speakers (ur_webrtc s)) = (x, t)" by fastforce
  let ?s = "s\<lparr>ur_webrtc := (ur_webrtc s)\<lparr>ws_speakers := t, ws_started := True\<rparr>, ur_voice_start := True\<rparr>"
  have "session_wf ?s" using wf False by (auto simp: session_wf_def ws_inv_def)
  from wf_offer [OF this, of ops restart] wf_speakers [OF wf] False a show ?thesis
    by (cases x) (auto simp: start_voice_def Let_def)
qed

lemma wf_mumble_event:
  assumes wf: "session_wf s" and h: "handle_mumble_event gen ops config conn_id env ev s turn et = (l, msgs, s', turn', et')"
  shows "session_wf s'"
proof (cases ev)
  case (M_connected sid chs us)
  with h have "s' = s \<or> s' = s\<lparr>ur_session_id := Some sid, ur_known_speakers := set (filter (\<lambda>u. u \<noteq> sid) (map ui_session_id us))\<rparr>"
    by (auto simp: handle_mumble_event_def on_connected_def login_session_def announce_login_def Let_def split: if_splits prod.splits)
  with wf show ?thesis by (auto simp: session_wf_def)
next
  case (M_user_joined u)
  let ?s = "s\<lparr>ur_known_speakers := insert (ui_session_id u) (ur_known_speakers s)\<rparr>"
  have "session_wf ?s" if "ur_session_id s \<noteq> Some (ui_session_id u)" using wf that by (auto simp: session_wf_def)
  with M_user_joined h wf wf_speakers [of ?s] show ?thesis
    by (auto simp: handle_mumble_event_def on_user_joined_def Let_def split: if_splits prod.splits)
next
  case (M_user_left sid)
  let ?s = "s\<lparr>ur_known_speakers := ur_known_speakers s - {sid}\<rparr>"
  have "session_wf ?s" using wf by (auto simp: session_wf_def)
  with M_user_left h wf_speakers [of ?s] show ?thesis
    by (auto simp: handle_mumble_event_def on_user_left_def Let_def split: prod.splits)
qed (use wf h in \<open>auto simp: handle_mumble_event_def\<close>)

lemma webrtc_event_session:
  "snd (handle_webrtc_event ops display_state ev s) \<in> {s, snd (snd (send_offer (offer ops False (ur_webrtc s)) s))}"
  by (cases ev) (auto simp: handle_webrtc_event_def split: prod.split sum.split)

lemma wf_event:
  assumes wf: "session_wf s" and h: "event_handle gen ops display_state config conn_id inp s turn et = (l, msgs, s', turn', et')"
  shows "session_wf s'"
proof (cases inp)
  case (E_mumble env ev)
  with h wf wf_mumble_event [OF wf] show ?thesis by (cases ev) (auto simp: event_handle_def)
next
  case (E_webrtc ev)
  show ?thesis
  proof (cases ev)
    case (Some e)
    with E_webrtc h have "s' = snd (handle_webrtc_event ops display_state e s)"
      by (auto simp: event_handle_def split: prod.splits)
    with webrtc_event_session [of ops display_state e s] wf wf_offer [OF wf, of ops False] show ?thesis by auto
  qed (use E_webrtc h wf in \<open>auto simp: event_handle_def\<close>)
qed (use h wf in \<open>auto simp: event_handle_def\<close>)

lemma wf_setup:
  assumes "session_wf s" and "voice_setup_run crypt addr bind local_addr s = Some (msgs, s')"
  shows "session_wf s'"
  using assms
  by (auto simp: voice_setup_run_def voice_setup_def attach_voice_def session_wf_def
      split: if_splits option.splits sum.splits prod.splits)

lemma session_step_wf: "session_step ops k s msgs s' \<Longrightarrow> session_wf s \<Longrightarrow> session_wf s'"
proof (induction rule: session_step.induct)
  case (ss_voice order s restart x msgs s')
  then show ?case using wf_start_voice [of s ops order restart] by simp
next
  case (ss_answer sdp s x msgs s')
  then show ?case using wf_answer [of s ops sdp] by simp
next
  case (ss_candidate d s x s')
  then show ?case using wf_candidate [of s ops d] by simp
next
  case (ss_command cmd s x s')
  then show ?case using wf_command [of s cmd] by simp
next
  case (ss_event_start s et s')
  then show ?case by (auto simp: event_task_start_def session_wf_def split: if_splits)
next
  case (ss_downlink s d n1 n2)
  then show ?case using wf_speakers by (auto simp: downlink_write_def)
qed (auto intro: wf_event wf_setup, auto simp: session_wf_def close_taken_def)

lemma shutdown_wf: "session_wf s \<Longrightarrow> session_wf (shutdown_user_session ops s)"
proof (cases "ur_slot s")
  case True
  assume "session_wf s"
  with True show ?thesis
    by (auto simp: shutdown_fields session_wf_def started_simps intro: webrtc_close_inv)
qed (simp add: shutdown_user_session_def)

lemma user_session_new_wf: "ws_fresh w \<Longrightarrow> session_wf (user_session_new w u)"
  using ws_fresh_inv [of w] by (auto simp: session_wf_def user_session_new_def ws_fresh_def webrtc_session_new_def)

section \<open>Speaker tracks\<close>

text \<open>
  The audio tracks of a session. Once it is logged in, its tracks belong to known speakers; after voice was
  started a track is missing only where adding it was reported as an error.
\<close>

abbreviation session_tracks :: "('p, 'snd) user_session \<Rightarrow> u32 \<rightharpoonup> 'snd speaker" where
  "session_tracks s \<equiv> st_speakers (ws_speakers (ur_webrtc s))"

definition tracks_inv :: "('p, 'snd) user_session \<Rightarrow> bool" where
  "tracks_inv s \<longleftrightarrow>
     dom (session_tracks s) \<subseteq> ur_known_speakers s \<and>
     (ws_started (ur_webrtc s) \<longrightarrow> dom (session_tracks s) = ur_known_speakers s) \<and>
     (\<forall>u sp. session_tracks s u = Some sp \<longrightarrow> sp_track sp = speaker_track u)"

definition no_relogin_or_voice_error :: "server_message \<Rightarrow> bool" where
  "no_relogin_or_voice_error m \<longleftrightarrow> (case m of SConnected _ \<Rightarrow> False | _ \<Rightarrow> error_code m \<noteq> Some ''voice_error'')"

named_theorems tracks_simps

lemma with_peer_tracks [simp]: "st_speakers (ws_speakers (with_peer p w)) = st_speakers (ws_speakers w)"
  by (simp add: with_peer_def)

lemma offer_tracks [tracks_simps]: "st_speakers (ws_speakers (snd (offer ops r w))) = st_speakers (ws_speakers w)"
  by (auto simp: offer_def Let_def split: sum.split prod.split)

lemma answer_tracks [tracks_simps]: "st_speakers (ws_speakers (snd (answer ops sdp w))) = st_speakers (ws_speakers w)"
  by (auto simp: answer_def Let_def offer_tracks split: sum.split prod.split)

lemma candidate_tracks [tracks_simps]: "st_speakers (ws_speakers (snd (add_ice_candidate ops c mid idx w))) = st_speakers (ws_speakers w)"
  by (auto simp: add_ice_candidate_def Let_def split: prod.split)

lemma close_tracks [tracks_simps]: "st_speakers (ws_speakers (snd (webrtc_close ops w))) = st_speakers (ws_speakers w)"
  by (auto simp: webrtc_close_def split: prod.split)

lemma speakers_add_track:
  "speakers_add ops u t = (r, t') \<Longrightarrow> (\<And>v sp. st_speakers t v = Some sp \<Longrightarrow> sp_track sp = speaker_track v) \<Longrightarrow>
     st_speakers t' v = Some sp \<Longrightarrow> sp_track sp = speaker_track v"
  by (auto simp: speakers_add_def split: if_splits prod.splits sum.splits)

lemma speakers_remove_track: "speakers_remove ops u t = (r, t') \<Longrightarrow> st_speakers t' v = Some sp \<Longrightarrow> st_speakers t v = Some sp"
  by (auto simp: speakers_remove_def split: option.splits prod.splits if_splits)

lemma add_speakers_tracks:
  assumes "add_speakers ops us t = (r, t')" and "\<And>v sp. st_speakers t v = Some sp \<Longrightarrow> sp_track sp = speaker_track v"
  shows "dom (st_speakers t') \<subseteq> dom (st_speakers t) \<union> set us \<and> (is_ok r \<longrightarrow> dom (st_speakers t') = dom (st_speakers t) \<union> set us) \<and>
    (\<forall>v sp. st_speakers t' v = Some sp \<longrightarrow> sp_track sp = speaker_track v)"
  using assms
proof (induction us arbitrary: t)
  case (Cons u us)
  obtain x t1 where a: "speakers_add ops u t = (x, t1)" by fastforce
  note own = speakers_add_track [OF a Cons.prems(2)]
  show ?case
  proof (cases x)
    case (Inl e)
    with a Cons.prems(1) have "t' = t1" "r = Inl e" by auto
    with speakers_add_dom [OF a] own Inl show ?thesis by auto
  next
    case (Inr y)
    with a Cons.prems(1) have "add_speakers ops us t1 = (r, t')" by simp
    from Cons.IH [OF this own] speakers_add_dom [OF a] Inr show ?thesis by auto
  qed
qed auto

lemma tracks_cong:
  "tracks_inv s \<Longrightarrow> ur_webrtc s' = ur_webrtc s \<and> ur_known_speakers s' = ur_known_speakers s \<Longrightarrow> tracks_inv s'"
  by (simp add: tracks_inv_def)

lemma tracks_webrtc:
  "tracks_inv s \<Longrightarrow> st_speakers (ws_speakers w) = session_tracks s \<Longrightarrow> ws_started w = ws_started (ur_webrtc s) \<Longrightarrow> tracks_inv (s\<lparr>ur_webrtc := w\<rparr>)"
  by (simp add: tracks_inv_def)

lemma tracks_offer: "tracks_inv s \<Longrightarrow> tracks_inv (snd (snd (send_offer (offer ops r (ur_webrtc s)) s)))"
  unfolding send_offer_session by (rule tracks_webrtc) (simp_all add: started_simps tracks_simps)

lemma tracks_start_voice:
  assumes inv: "tracks_inv s" and order: "set order = ur_known_speakers s"
  shows "tracks_inv (snd (snd (start_voice ops order restart s)))"
proof (cases "ur_session_id s = None \<or> ws_started (ur_webrtc s)")
  case True
  with inv tracks_offer [OF inv] show ?thesis by (auto simp: start_voice_def)
next
  case False
  obtain x t where a: "add_speakers ops order (ws_speakers (ur_webrtc s)) = (x, t)" by fastforce
  have own: "\<And>v sp. session_tracks s v = Some sp \<Longrightarrow> sp_track sp = speaker_track v" "dom (session_tracks s) \<subseteq> ur_known_speakers s"
    using inv by (auto simp: tracks_inv_def)
  note t = add_speakers_tracks [OF a own(1)]
  show ?thesis
  proof (cases x)
    case (Inl e)
    have "dom (st_speakers t) \<subseteq> ur_known_speakers s" using t own(2) order by blast
    with t False have "tracks_inv (s\<lparr>ur_webrtc := (ur_webrtc s)\<lparr>ws_speakers := t\<rparr>\<rparr>)" by (simp add: tracks_inv_def)
    with False a Inl show ?thesis by (auto simp: start_voice_def)
  next
    case (Inr y)
    let ?s = "s\<lparr>ur_webrtc := (ur_webrtc s)\<lparr>ws_speakers := t, ws_started := True\<rparr>, ur_voice_start := True\<rparr>"
    have "dom (st_speakers t) = ur_known_speakers s" using t own(2) order Inr by auto
    with t have "tracks_inv ?s" by (simp add: tracks_inv_def)
    from tracks_offer [OF this, of ops restart] False a Inr show ?thesis by (auto simp: start_voice_def Let_def)
  qed
qed

lemma tracks_joined:
  assumes "tracks_inv s" and "on_user_joined ops u s = (msgs, s')" and "list_all no_relogin_or_voice_error msgs"
  shows "tracks_inv s'"
proof (cases "ur_session_id s \<noteq> Some (ui_session_id u) \<and> ws_started (ur_webrtc s)")
  case True
  obtain x t where a: "speakers_add ops (ui_session_id u) (ws_speakers (ur_webrtc s)) = (x, t)" by fastforce
  with True assms(2,3) have x: "is_ok x"
    and s': "s' = s\<lparr>ur_known_speakers := insert (ui_session_id u) (ur_known_speakers s), ur_webrtc := (ur_webrtc s)\<lparr>ws_speakers := t\<rparr>\<rparr>"
    by (auto simp: on_user_joined_def Let_def no_relogin_or_voice_error_def voice_error_def server_error_def error_code_def split: sum.splits)
  have own: "\<And>v sp. session_tracks s v = Some sp \<Longrightarrow> sp_track sp = speaker_track v" using assms(1) by (simp add: tracks_inv_def)
  show ?thesis
    using assms(1) x speakers_add_dom [OF a] speakers_add_track [OF a own] True unfolding s' by (auto simp: tracks_inv_def)
next
  case False
  have "tracks_inv (s\<lparr>ur_known_speakers := insert i (ur_known_speakers s)\<rparr>)" if "\<not> ws_started (ur_webrtc s)" for i
    using assms(1) that by (simp add: tracks_inv_def subset_insertI2)
  with False assms(1,2) show ?thesis by (auto simp: on_user_joined_def Let_def split: if_splits)
qed

lemma tracks_left:
  assumes "tracks_inv s" and "on_user_left ops i s = (msgs, s')"
  shows "tracks_inv s'"
proof -
  obtain x t where a: "speakers_remove ops i (ws_speakers (ur_webrtc s)) = (x, t)" by fastforce
  with assms(2) have s': "s' = s\<lparr>ur_known_speakers := ur_known_speakers s - {i}, ur_webrtc := (ur_webrtc s)\<lparr>ws_speakers := t\<rparr>\<rparr>"
    by (auto simp: on_user_left_def Let_def)
  show ?thesis
    using assms(1) speakers_remove_dom [OF a] speakers_remove_track [OF a] unfolding s' by (auto simp: tracks_inv_def)
qed

lemma tracks_event:
  assumes inv: "tracks_inv s" and ok: "list_all no_relogin_or_voice_error msgs"
    and h: "event_handle gen ops display_state config conn_id inp s turn et = (l, msgs, s', turn', et')"
  shows "tracks_inv s'"
proof (cases inp)
  case (E_mumble env oev)
  show ?thesis
  proof (cases oev)
    case (Some ev)
    with h E_mumble have m: "handle_mumble_event gen ops config conn_id env ev s turn et = (l, msgs, s', turn', et')"
      by (simp add: event_handle_def)
    show ?thesis
    proof (cases ev)
      case (M_connected sid chs us)
      with m ok inv show ?thesis
        by (auto simp: handle_mumble_event_def on_connected_def announce_login_def no_relogin_or_voice_error_def Let_def split: if_splits prod.splits)
    next
      case (M_user_joined u)
      with m ok tracks_joined [OF inv] show ?thesis by (auto simp: handle_mumble_event_def split: prod.splits)
    next
      case (M_user_left i)
      with m tracks_left [OF inv] show ?thesis by (auto simp: handle_mumble_event_def split: prod.splits)
    qed (use m inv in \<open>auto simp: handle_mumble_event_def\<close>)
  qed (use h E_mumble inv in \<open>auto simp: event_handle_def\<close>)
next
  case (E_webrtc oev)
  show ?thesis
  proof (cases oev)
    case (Some e)
    with E_webrtc h have "s' = snd (handle_webrtc_event ops display_state e s)"
      by (auto simp: event_handle_def split: prod.splits)
    with webrtc_event_session [of ops display_state e s] inv tracks_offer [OF inv, of ops False] show ?thesis by auto
  qed (use E_webrtc h inv in \<open>auto simp: event_handle_def\<close>)
qed (use h inv in \<open>auto simp: event_handle_def\<close>)

lemma tracks_downlink: "tracks_inv s \<Longrightarrow> tracks_inv (downlink_write ops d n1 n2 s)"
proof -
  assume inv: "tracks_inv s"
  obtain x t where w: "speakers_write ops d n1 n2 (ws_speakers (ur_webrtc s)) = (x, t)" by fastforce
  have "sp_track sp = speaker_track u" if "st_speakers t u = Some sp" for u sp
  proof -
    from speakers_write_frame(1) [OF w] that obtain sp0 where s0: "session_tracks s u = Some sp0" by auto
    with speakers_write_frame(3) [OF w s0] that inv show ?thesis by (auto simp: tracks_inv_def)
  qed
  with inv w speakers_write_frame(1) [OF w] show ?thesis by (auto simp: downlink_write_def tracks_inv_def)
qed

lemma session_step_tracks: "session_step ops k s msgs s' \<Longrightarrow> list_all no_relogin_or_voice_error msgs \<Longrightarrow> tracks_inv s \<Longrightarrow> tracks_inv s'"
proof (induction rule: session_step.induct)
  case (ss_voice order s restart x msgs s')
  then show ?case using tracks_start_voice [of s order ops restart] by simp
next
  case (ss_answer sdp s x msgs s')
  have "s' = s\<lparr>ur_webrtc := snd (answer ops sdp (ur_webrtc s))\<rparr>"
    using ss_answer(1) send_offer_session [of "answer ops sdp (ur_webrtc s)" s] by (simp add: handle_answer_def)
  with ss_answer(3) show ?case by (simp add: tracks_webrtc started_simps tracks_simps)
next
  case (ss_candidate d s x s')
  have "s' = s\<lparr>ur_webrtc := snd (add_ice_candidate ops (id_candidate d) (id_sdp_mid d) (id_sdp_mline_index d) (ur_webrtc s))\<rparr>"
    using ss_candidate(1) candidate_session [of ops d s] by simp
  with ss_candidate(3) show ?case by (simp add: tracks_webrtc started_simps tracks_simps)
next
  case (ss_setup crypt addr bind local_addr s msgs s')
  then show ?case
    by (elim tracks_cong)
      (auto simp: voice_setup_run_def voice_setup_def attach_voice_def split: if_splits option.splits sum.splits prod.splits)
next
  case (ss_event_start s et s')
  then show ?case by (elim tracks_cong) (auto simp: event_task_start_def split: if_splits)
next
  case (ss_command cmd s x s')
  then show ?case by (elim tracks_cong) (auto simp: push_command_def split: sum.splits)
next
  case (ss_event gen display_state config conn_id inp s turn et l msgs s' turn' et')
  then show ?case using tracks_event by blast
next
  case (ss_downlink s d n1 n2)
  then show ?case by (simp add: tracks_downlink)
qed (simp_all add: tracks_inv_def close_taken_def)

interpretation speaker_table: trace_invariant "\<lambda>s ls t. \<exists>k. session_step ops k s ls t" no_relogin_or_voice_error tracks_inv for ops
  by unfold_locales (auto intro: session_step_tracks)

section \<open>Operations keep the flags\<close>

text \<open>
  The slot, the closed flag and the close notification change only in a teardown, and the notification when the event task
  takes it.
\<close>

definition session_flags :: "('p, 'snd) user_session \<Rightarrow> bool \<times> bool \<times> bool" where
  "session_flags s = (ur_slot s, ur_closed s, ur_close_notify s)"

lemma session_flags_updates [simp]:
  "session_flags (s\<lparr>ur_webrtc := w\<rparr>) = session_flags s" "session_flags (s\<lparr>ur_commands := q\<rparr>) = session_flags s"
  "session_flags (s\<lparr>ur_voice_start := a\<rparr>) = session_flags s" "session_flags (s\<lparr>ur_session_id := i\<rparr>) = session_flags s"
  "session_flags (s\<lparr>ur_known_speakers := ks\<rparr>) = session_flags s" "session_flags (s\<lparr>ur_mumble_voice := v\<rparr>) = session_flags s"
  "session_flags (s\<lparr>ur_bridge := b\<rparr>) = session_flags s" "session_flags (s\<lparr>ur_voice_setup_task := a\<rparr>) = session_flags s"
  "session_flags (s\<lparr>ur_mumble_alive := a\<rparr>) = session_flags s"
  by (simp_all add: session_flags_def)

lemma send_offer_flags: "session_flags (snd (snd (send_offer ow s))) = session_flags s"
  by (auto simp: send_offer_def split: prod.split sum.split option.split)

lemma push_command_flags: "session_flags (snd (push_command cmd s)) = session_flags s"
  by (simp add: push_command_def split: sum.split)

lemma start_voice_flags: "session_flags (snd (snd (start_voice ops order restart s))) = session_flags s"
  by (auto simp: start_voice_def send_offer_flags Let_def split: prod.split sum.split)

lemma handle_mumble_event_flags:
  "handle_mumble_event gen ops config conn_id env ev s turn et = (l, msgs, s', turn', et') \<Longrightarrow> session_flags s' = session_flags s"
  by (cases ev)
    (auto simp: handle_mumble_event_def on_connected_def login_session_def announce_login_def on_user_joined_def on_user_left_def Let_def
      split: prod.splits if_splits)

lemma handle_webrtc_event_flags: "session_flags (snd (handle_webrtc_event ops d ev s)) = session_flags s"
proof (cases ev)
  case NegotiationNeeded
  obtain x msgs s' where so: "send_offer (offer ops False (ur_webrtc s)) s = (x, msgs, s')" by (metis prod_cases3)
  then have "session_flags s' = session_flags s" using send_offer_flags [of "offer ops False (ur_webrtc s)" s] by simp
  with NegotiationNeeded so show ?thesis by (cases x) (simp_all add: handle_webrtc_event_def)
qed (simp_all add: handle_webrtc_event_def)

lemma voice_setup_flags: "session_flags (snd (voice_setup k a b la s)) = session_flags s"
  by (auto simp: voice_setup_def attach_voice_def split: option.split sum.split prod.split)

lemma event_handle_flags:
  assumes "event_handle gen ops display_state config conn_id inp s turn et = (l, msgs, s', turn', et')"
  shows "session_flags s' = session_flags s"
proof (cases inp)
  case (E_mumble env ev)
  with assms show ?thesis by (cases ev) (auto simp: event_handle_def dest: handle_mumble_event_flags)
next
  case (E_webrtc ev)
  show ?thesis
  proof (cases ev)
    case (Some e)
    with E_webrtc assms handle_webrtc_event_flags [of ops display_state e s] show ?thesis
      by (auto simp: event_handle_def split: prod.splits)
  qed (use E_webrtc assms in \<open>auto simp: event_handle_def\<close>)
qed (use assms in \<open>auto simp: event_handle_def\<close>)

lemma session_step_flags:
  "session_step ops k s msgs s' \<Longrightarrow> session_flags s' = session_flags s \<or> k = By_event_task \<and> s' = close_taken s"
proof (induction rule: session_step.induct)
  case (ss_voice order s restart x msgs s')
  then show ?case using start_voice_flags [of ops order restart s] by simp
next
  case (ss_answer sdp s x msgs s')
  then show ?case using send_offer_flags [of "answer ops sdp (ur_webrtc s)" s] by (simp add: handle_answer_def)
next
  case (ss_command cmd s x s')
  then show ?case using push_command_flags [of cmd s] by simp
next
  case (ss_setup crypt addr bind local_addr s msgs s')
  then show ?case using voice_setup_flags [of crypt addr bind local_addr "s\<lparr>ur_voice_start := False\<rparr>"]
    by (auto simp: voice_setup_run_def split: if_splits)
qed (auto simp: session_add_ice_candidate_def event_task_start_def downlink_write_def
    dest: event_handle_flags split: prod.splits if_splits)

lemma session_step_slot: "session_step ops k s msgs s' \<Longrightarrow> ur_slot s' = ur_slot s"
  by (drule session_step_flags) (auto simp: session_flags_def close_taken_def)

section \<open>Properties of the life of a session\<close>

definition session_fresh :: "('p, 'snd) user_session \<Rightarrow> bool" where
  "session_fresh s \<longleftrightarrow> (\<exists>w u. ws_fresh w \<and> s = user_session_new w u)"

definition session_moves :: "('p, 'snd) peer_ops \<Rightarrow> ('p, 'snd) user_session \<Rightarrow> ('p, 'snd) user_session \<Rightarrow> bool" where
  "session_moves ops s t \<longleftrightarrow> (\<exists>k msgs. session_step ops k s msgs t) \<or> t = shutdown_user_session ops s"

interpretation session_typing: invariant_system session_fresh "session_moves ops" session_wf for ops
  by unfold_locales (auto simp: session_fresh_def session_moves_def intro: user_session_new_wf session_step_wf shutdown_wf)


definition fresh_demo :: "(sim_peer, nat) user_session" where
  "fresh_demo = user_session_new \<lparr>ws_speakers = speakers_new sim_peer_new, ws_started = False, ws_needs_offer = False,
     ws_restart_pending = False, ws_pending_candidates = []\<rparr> ''alice''"


text \<open>
  C29. The audio tracks follow the users: from login on, in every run in which the server does not log the
  session in again and no voice error is reported, each track belongs to a known speaker and is named after it, and once voice is
  started every known speaker has exactly one track, however joins, leaves, negotiation and audio interleave.
\<close>

theorem tracks_follow_speakers:
  assumes "traced (\<lambda>s ls t. \<exists>k. session_step ops k s ls t) s0 msgs s"
    and "session_tracks s0 = Map.empty" and "\<not> ws_started (ur_webrtc s0)"
    and "list_all no_relogin_or_voice_error msgs"
  shows "dom (session_tracks s) \<subseteq> ur_known_speakers s \<and>
    (ws_started (ur_webrtc s) \<longrightarrow> dom (session_tracks s) = ur_known_speakers s) \<and>
    (\<forall>u sp. session_tracks s u = Some sp \<longrightarrow> sp_track sp = speaker_track u)"
proof -
  have "tracks_inv s0" using assms(2,3) by (simp add: tracks_inv_def)
  from speaker_table.run_inv [OF assms(1,4) this] show ?thesis by (simp add: tracks_inv_def)
qed

theorem tracks_follow_speakers_witness:
  "let s0 = fresh_demo\<lparr>ur_session_id := Some 9, ur_known_speakers := {4}\<rparr>;
       s = snd (snd (start_voice sim_peer_ops [4] False s0))
   in dom (session_tracks s) = {4}"
proof -
  let ?s0 = "fresh_demo\<lparr>ur_session_id := Some 9, ur_known_speakers := {4}\<rparr>"
  let ?r = "start_voice sim_peer_ops [4] False ?s0"
  have "session_step sim_peer_ops By_user ?s0 (fst (snd ?r)) (snd (snd ?r))"
    by (rule ss_voice [of "[4]" _ sim_peer_ops False "fst ?r"]) simp_all
  then have run: "traced (\<lambda>s ls t. \<exists>k. session_step sim_peer_ops k s ls t) ?s0 (fst (snd ?r)) (snd (snd ?r))"
    by (intro traced_single) auto
  have "fst (snd ?r) = [SOffer \<lparr>od_sdp = ''offer''\<rparr>] \<and> ws_started (ur_webrtc (snd (snd ?r))) \<and> ur_known_speakers (snd (snd ?r)) = {4}"
    by (simp add: start_voice_def fresh_demo_def user_session_new_def speakers_add_def speakers_new_def send_offer_def offer_def
        sim_peer_ops_def sim_peer_new_def ws_peer_def Let_def)
  with tracks_follow_speakers [OF run] show ?thesis
    by (simp add: fresh_demo_def user_session_new_def speakers_new_def no_relogin_or_voice_error_def error_code_def Let_def)
qed

text \<open>
  C30. Teardown ends the Mumble connection: for every session that has a living connection task, once the
  task has taken the commands that were queued at the teardown it has stopped, whatever packets, pings and errors it saw in between; what
  it sent are the packets of the commands queued before the teardown, in order, all of them unless the connection itself failed, and nothing after them.
\<close>

theorem teardown_ends_mumble_task:
  assumes "reachable session_fresh (session_moves ops) s" and "\<not> ur_closed s" and "ur_mumble_alive s" and "mt_running t"
    and "input_commands ins = ur_commands (shutdown_user_session ops s)"
  shows "\<not> mt_running (fold mumble_task_step ins t) \<and>
    prefix (command_sends (mt_sends (fold mumble_task_step ins t))) (command_sends (mt_sends t) @ command_packets (ur_commands s)) \<and>
    (list_all peaceful ins \<longrightarrow>
       command_sends (mt_sends (fold mumble_task_step ins t)) = command_sends (mt_sends t) @ command_packets (ur_commands s))"
proof -
  have wf: "ur_slot s" "C_disconnect \<notin> set (ur_commands s)"
    using session_typing.reachable_inv [OF assms(1)] assms(2) by (auto simp: session_wf_def)
  then have "input_commands ins = ur_commands s @ [C_disconnect]" using assms(3,5) by (simp add: shutdown_fields)
  from mumble_drain [OF assms(4) this wf(2)] show ?thesis .
qed

theorem teardown_ends_mumble_task_witness:
  "\<not> mt_running (fold mumble_task_step [In_ping 7 True, In_command (Some C_disconnect) True] (mumble_task_start (Inr ()) (Inr ()) ''alice''))"
proof -
  have r: "reachable session_fresh (session_moves sim_peer_ops) fresh_demo"
    by (rule reachable_init) (auto simp: session_fresh_def fresh_demo_def ws_fresh_def webrtc_session_new_def)
  show ?thesis
    using teardown_ends_mumble_task [OF r, of "mumble_task_start (Inr ()) (Inr ()) ''alice''" "[In_ping 7 True, In_command (Some C_disconnect) True]"]
    by (simp add: fresh_demo_def user_session_new_def shutdown_fields input_commands_def mumble_task_start_def)
qed

end
