(* ===== verification/Session_Manager.thy ===== *)
theory Session_Manager
  imports Session_Lifecycle
begin

text \<open>
  \<open>src/src/session.rs\<close>, second half: the manager of all sessions. An \<open>Arc<Mutex<UserSession>>\<close> is a
  reference into a heap, so that \<open>Arc::ptr_eq\<close> is equality of references. Between two awaits an operation is
  one step; \<open>sm_inflight\<close> counts the connects that hold a permit while they wait for DNS, TLS or
  WebRTC, and \<open>sm_teardown\<close> the sessions taken out of the map whose teardown has not run yet.
\<close>

record ('p, 'snd) manager =
  sm_sessions :: "string \<rightharpoonup> nat"
  sm_heap :: "nat \<rightharpoonup> ('p, 'snd) user_session"
  sm_next :: nat
  sm_slots :: semaphore
  sm_inflight :: nat
  sm_teardown :: "nat set"
  sm_config :: config
  sm_media :: "media_api option"
  sm_shutdown :: bool
  sm_turn :: "turn_service option"

definition manager_new :: "config \<Rightarrow> ('p, 'snd) manager" where
  "manager_new c = \<lparr>sm_sessions = Map.empty, sm_heap = Map.empty, sm_next = 0,
     sm_slots = sem_new (sc_max_connections (cf_server c)), sm_inflight = 0, sm_teardown = {}, sm_config = c,
     sm_media = None, sm_shutdown = False, sm_turn = None\<rparr>"

definition with_turn :: "turn_service option \<Rightarrow> ('p, 'snd) manager \<Rightarrow> ('p, 'snd) manager" where
  "with_turn t m = m\<lparr>sm_turn := t\<rparr>"

text \<open>The media engine is created once; \<open>created\<close> is what \<open>create_api\<close> returns then.\<close>

definition initialize_media :: "media_api result \<Rightarrow> ('p, 'snd) manager \<Rightarrow> unit result \<times> ('p, 'snd) manager" where
  "initialize_media created m =
     (case sm_media m of
        Some _ \<Rightarrow> (Inr (), m)
      | None \<Rightarrow> (case created of Inl e \<Rightarrow> (Inl e, m) | Inr api \<Rightarrow> (Inr (), m\<lparr>sm_media := Some api\<rparr>)))"

definition manager_ice_config :: "auth_key_fn \<Rightarrow> issue_env \<Rightarrow> string \<Rightarrow> ('p, 'snd) manager \<Rightarrow> ice_config \<times> ('p, 'snd) manager" where
  "manager_ice_config gen env conn_id m =
     (let (ic, turn) = session_ice_config gen env (sm_config m) conn_id (sm_turn m) in (ic, m\<lparr>sm_turn := turn\<rparr>))"

definition begin_shutdown :: "('p, 'snd) manager \<Rightarrow> ('p, 'snd) manager" where
  "begin_shutdown m = m\<lparr>sm_shutdown := True\<rparr>"

definition revoke_turn :: "(nat \<Rightarrow> bool) \<Rightarrow> string list \<Rightarrow> string \<Rightarrow> ('p, 'snd) manager \<Rightarrow> ('p, 'snd) manager" where
  "revoke_turn strong order conn_id m = (case sm_turn m of
     None \<Rightarrow> m
   | Some ts \<Rightarrow> m\<lparr>sm_turn := Some (snd (turn_revoke strong order conn_id ts))\<rparr>)"

definition connection_count :: "string list \<Rightarrow> ('p, 'snd) manager \<Rightarrow> nat" where
  "connection_count order m = length (hm_values (sm_sessions m) order)"

section \<open>Connecting\<close>

text \<open>The checks of \<open>connect_user\<close> and the reservation of a slot, before the first wait.\<close>

definition connect_reserve :: "string \<Rightarrow> ('p, 'snd) manager \<Rightarrow> unit result \<times> ('p, 'snd) manager" where
  "connect_reserve conn_id m =
     (if sm_shutdown m then (Inl ''Server is shutting down'', m)
      else if sm_sessions m conn_id \<noteq> None then (Inl ''Already connected'', m)
      else (case try_acquire_owned (sm_slots m) of
              None \<Rightarrow> (Inl ''Server full'', m)
            | Some slots \<Rightarrow> (Inr (), m\<lparr>sm_slots := slots, sm_inflight := sm_inflight m + 1\<rparr>)))"

text \<open>What the network and the WebRTC library answer; \<open>None\<close> is the ten second timeout.\<close>

record ('p, 'snd) connect_env =
  ne_lookup :: "socket_addr list result"
  ne_mumble :: "unit result option"
  ne_media :: "media_api result"
  ne_webrtc :: "('p, 'snd) webrtc_session result"

definition resolve_mumble_addr :: "socket_addr list result \<Rightarrow> socket_addr result" where
  "resolve_mumble_addr lookup = (case lookup of
     Inl e \<Rightarrow> Inl (''Failed to resolve Mumble server: '' @ e)
   | Inr [] \<Rightarrow> Inl ''Failed to resolve Mumble server address''
   | Inr (a # _) \<Rightarrow> Inr a)"

definition connect_setup :: "('p, 'snd) connect_env \<Rightarrow> ('p, 'snd) manager \<Rightarrow> ('p, 'snd) webrtc_session result \<times> ('p, 'snd) manager" where
  "connect_setup env m = (case resolve_mumble_addr (ne_lookup env) of
     Inl e \<Rightarrow> (Inl e, m)
   | Inr addr \<Rightarrow> (case ne_mumble env of
       None \<Rightarrow> (Inl ''Mumble connection timed out'', m)
     | Some (Inl e) \<Rightarrow> (Inl (''Mumble connection failed: '' @ e), m)
     | Some (Inr _) \<Rightarrow> (case initialize_media (ne_media env) m of
         (Inl e, m') \<Rightarrow> (Inl e, m')
       | (Inr _, m') \<Rightarrow> (case ne_webrtc env of
           Inl e \<Rightarrow> (Inl (''WebRTC setup failed: '' @ e), m')
         | Inr w \<Rightarrow> (Inr w, m')))))"

text \<open>A failed or cancelled setup drops the permit.\<close>

definition connect_abort :: "('p, 'snd) manager \<Rightarrow> ('p, 'snd) manager" where
  "connect_abort m = m\<lparr>sm_inflight := sm_inflight m - 1, sm_slots := drop_permit (sm_slots m)\<rparr>"

text \<open>Tearing down the session behind a reference; its slot goes back to the semaphore.\<close>

definition shutdown_ref :: "('p, 'snd) peer_ops \<Rightarrow> nat \<Rightarrow> ('p, 'snd) manager \<Rightarrow> ('p, 'snd) manager" where
  "shutdown_ref ops r m = (case sm_heap m r of
     None \<Rightarrow> m
   | Some s \<Rightarrow> m\<lparr>sm_heap := (sm_heap m)(r \<mapsto> shutdown_user_session ops s),
                 sm_slots := (if ur_slot s then drop_permit (sm_slots m) else sm_slots m)\<rparr>)"

text \<open>The new session takes over the permit; another connect may have won the race for the entry.\<close>

definition connect_install ::
  "('p, 'snd) peer_ops \<Rightarrow> string \<Rightarrow> string \<Rightarrow> ('p, 'snd) webrtc_session \<Rightarrow> ('p, 'snd) manager \<Rightarrow> unit result \<times> ('p, 'snd) manager" where
  "connect_install ops conn_id username w m =
     (let r = sm_next m;
          m1 = m\<lparr>sm_heap := (sm_heap m)(r \<mapsto> user_session_new w username), sm_next := r + 1, sm_inflight := sm_inflight m - 1\<rparr>
      in if sm_sessions m1 conn_id \<noteq> None then (Inl ''Already connected'', shutdown_ref ops r m1)
         else (Inr (), m1\<lparr>sm_sessions := (sm_sessions m1)(conn_id \<mapsto> r)\<rparr>))"

definition connect_user ::
  "('p, 'snd) peer_ops \<Rightarrow> ('p, 'snd) connect_env \<Rightarrow> string \<Rightarrow> string \<Rightarrow> ('p, 'snd) manager \<Rightarrow> unit result \<times> ('p, 'snd) manager" where
  "connect_user ops env conn_id username m = (case connect_reserve conn_id m of
     (Inl e, m1) \<Rightarrow> (Inl e, m1)
   | (Inr _, m1) \<Rightarrow> (case connect_setup env m1 of
       (Inl e, m2) \<Rightarrow> (Inl e, connect_abort m2)
     | (Inr w, m2) \<Rightarrow> connect_install ops conn_id username w m2))"

section \<open>Lookup, disconnect, end of a session\<close>

definition get_session :: "string \<Rightarrow> ('p, 'snd) manager \<Rightarrow> nat result" where
  "get_session conn_id m = (case sm_sessions m conn_id of Some r \<Rightarrow> Inr r | None \<Rightarrow> Inl ''Session not found'')"

text \<open>An operation on the session of a connection, under the session's lock.\<close>

definition on_session ::
  "string \<Rightarrow> (('p, 'snd) user_session \<Rightarrow> unit result \<times> server_message list \<times> ('p, 'snd) user_session) \<Rightarrow> ('p, 'snd) manager
     \<Rightarrow> unit result \<times> server_message list \<times> ('p, 'snd) manager" where
  "on_session conn_id f m = (case get_session conn_id m of
     Inl e \<Rightarrow> (Inl e, [], m)
   | Inr r \<Rightarrow> (case sm_heap m r of
       None \<Rightarrow> (Inl ''Session not found'', [], m)
     | Some s \<Rightarrow> (case f s of (x, msgs, s') \<Rightarrow> (x, msgs, m\<lparr>sm_heap := (sm_heap m)(r \<mapsto> s')\<rparr>))))"

definition disconnect_remove :: "string \<Rightarrow> ('p, 'snd) manager \<Rightarrow> nat option \<times> ('p, 'snd) manager" where
  "disconnect_remove conn_id m = (case sm_sessions m conn_id of
     None \<Rightarrow> (None, m)
   | Some r \<Rightarrow> (Some r, m\<lparr>sm_sessions := (sm_sessions m)(conn_id := None), sm_teardown := insert r (sm_teardown m)\<rparr>))"

definition teardown_run :: "('p, 'snd) peer_ops \<Rightarrow> nat \<Rightarrow> ('p, 'snd) manager \<Rightarrow> ('p, 'snd) manager" where
  "teardown_run ops r m = (shutdown_ref ops r m)\<lparr>sm_teardown := sm_teardown m - {r}\<rparr>"

definition disconnect_user :: "('p, 'snd) peer_ops \<Rightarrow> string \<Rightarrow> ('p, 'snd) manager \<Rightarrow> ('p, 'snd) manager" where
  "disconnect_user ops conn_id m = (case disconnect_remove conn_id m of
     (None, m1) \<Rightarrow> m1
   | (Some r, m1) \<Rightarrow> teardown_run ops r m1)"

definition finish_remove :: "string \<Rightarrow> nat \<Rightarrow> server_message option \<Rightarrow> ('p, 'snd) manager \<Rightarrow> bool \<times> server_message list \<times> ('p, 'snd) manager" where
  "finish_remove conn_id r terminal_error m =
     (if sm_sessions m conn_id = Some r
      then (True, (case terminal_error of Some e \<Rightarrow> [e] | None \<Rightarrow> []), m\<lparr>sm_sessions := (sm_sessions m)(conn_id := None)\<rparr>)
      else (False, [], m))"

definition finish_session ::
  "('p, 'snd) peer_ops \<Rightarrow> string \<Rightarrow> nat \<Rightarrow> server_message option \<Rightarrow> ('p, 'snd) manager \<Rightarrow> bool \<times> server_message list \<times> ('p, 'snd) manager" where
  "finish_session ops conn_id r terminal_error m = finish_remove conn_id r terminal_error (shutdown_ref ops r m)"

text \<open>The end of the event task.\<close>

definition process_events_end ::
  "('p, 'snd) peer_ops \<Rightarrow> (nat \<Rightarrow> bool) \<Rightarrow> string list \<Rightarrow> string \<Rightarrow> nat \<Rightarrow> server_message option \<Rightarrow> ('p, 'snd) manager
     \<Rightarrow> server_message list \<times> ('p, 'snd) manager" where
  "process_events_end ops strong order conn_id r terminal_error m =
     (case finish_session ops conn_id r terminal_error m of (_, msgs, m1) \<Rightarrow> (msgs, revoke_turn strong order conn_id m1))"

definition manager_close :: "('p, 'snd) peer_ops \<Rightarrow> string list \<Rightarrow> ('p, 'snd) manager \<Rightarrow> ('p, 'snd) manager" where
  "manager_close ops order m = 
     (let m' = fold (disconnect_user ops) order (begin_shutdown m)
      in m'\<lparr>sm_media := map_option media_api_close (sm_media m')\<rparr>)"

section \<open>The manager as a transition system\<close>

text \<open>
  Any interleaving of the atomic parts of the operations, the steps of each session included.
\<close>

inductive mgr_step :: "('p, 'snd) peer_ops \<Rightarrow> ('p, 'snd) manager \<Rightarrow> ('p, 'snd) manager \<Rightarrow> bool"
  for ops :: "('p, 'snd) peer_ops" where
  ms_reserve: "mgr_step ops m (snd (connect_reserve conn_id m))"
| ms_media: "mgr_step ops m (snd (initialize_media created m))"
| ms_media_close: "mgr_step ops m (m\<lparr>sm_media := map_option media_api_close (sm_media m)\<rparr>)"
| ms_abort: "0 < sm_inflight m \<Longrightarrow> mgr_step ops m (connect_abort m)"
| ms_install: "0 < sm_inflight m \<Longrightarrow> mgr_step ops m (snd (connect_install ops conn_id username w m))"
| ms_session: "sm_heap m r = Some s \<Longrightarrow> session_step ops k s msgs s' \<Longrightarrow> mgr_step ops m (m\<lparr>sm_heap := (sm_heap m)(r \<mapsto> s')\<rparr>)"
| ms_remove: "mgr_step ops m (snd (disconnect_remove conn_id m))"
| ms_teardown: "r \<in> sm_teardown m \<Longrightarrow> mgr_step ops m (teardown_run ops r m)"
| ms_finish_shutdown: "mgr_step ops m (shutdown_ref ops r m)"
| ms_finish_remove: "sm_heap m r = Some s \<Longrightarrow> \<not> ur_slot s \<Longrightarrow> mgr_step ops m (snd (snd (finish_remove conn_id r e m)))"
| ms_shutdown: "mgr_step ops m (begin_shutdown m)"
| ms_turn: "mgr_step ops m (m\<lparr>sm_turn := t\<rparr>)"

definition holders :: "('p, 'snd) manager \<Rightarrow> nat set" where
  "holders m = {r. \<exists>s. sm_heap m r = Some s \<and> ur_slot s}"

definition mgr_inv :: "nat \<Rightarrow> ('p, 'snd) manager \<Rightarrow> bool" where
  "mgr_inv n m \<longleftrightarrow>
     dom (sm_heap m) \<subseteq> {..<sm_next m} \<and>
     available_permits (sm_slots m) + sm_inflight m + card (holders m) = n \<and>
     ran (sm_sessions m) \<subseteq> dom (sm_heap m) \<and>
     inj_on (sm_sessions m) (dom (sm_sessions m)) \<and>
     holders m \<subseteq> ran (sm_sessions m) \<union> sm_teardown m"

lemma holders_finite: "dom (sm_heap m) \<subseteq> {..<sm_next m} \<Longrightarrow> finite (holders m)"
  by (rule finite_subset [of _ "{..<sm_next m}"]) (auto simp: holders_def)

section \<open>No slot is lost\<close>

lemma holders_update:
  "holders (m\<lparr>sm_heap := (sm_heap m)(r \<mapsto> s)\<rparr>) = (if ur_slot s then insert r (holders m) else holders m - {r})"
  by (auto simp: holders_def)

lemma holders_other [simp]:
  "holders (m\<lparr>sm_sessions := a\<rparr>) = holders m" "holders (m\<lparr>sm_slots := b\<rparr>) = holders m"
  "holders (m\<lparr>sm_inflight := c\<rparr>) = holders m" "holders (m\<lparr>sm_teardown := d\<rparr>) = holders m"
  "holders (m\<lparr>sm_next := k\<rparr>) = holders m" "holders (m\<lparr>sm_turn := t\<rparr>) = holders m"
  "holders (m\<lparr>sm_media := e\<rparr>) = holders m" "holders (m\<lparr>sm_shutdown := f\<rparr>) = holders m"
  by (simp_all add: holders_def)

lemma shutdown_ref_cases:
  obtains (Gone) "shutdown_ref ops r m = m" "r \<notin> holders m"
  | (Freed) s where "sm_heap m r = Some s" "r \<in> holders m"
      "shutdown_ref ops r m = m\<lparr>sm_heap := (sm_heap m)(r \<mapsto> shutdown_user_session ops s), sm_slots := drop_permit (sm_slots m)\<rparr>"
proof (cases "sm_heap m r")
  case None
  then show thesis by (intro Gone) (auto simp: shutdown_ref_def holders_def)
next
  case (Some s)
  show thesis
  proof (cases "ur_slot s")
    case True
    with Some show thesis by (intro Freed) (auto simp: shutdown_ref_def holders_def)
  next
    case False
    then have "shutdown_user_session ops s = s" by (simp add: shutdown_user_session_def)
    with Some False have "shutdown_ref ops r m = m" by (simp add: shutdown_ref_def fun_upd_idem)
    with Some False show thesis by (intro Gone) (auto simp: holders_def)
  qed
qed

lemma shutdown_ref_keeps [simp]:
  "sm_sessions (shutdown_ref ops r m) = sm_sessions m" "sm_teardown (shutdown_ref ops r m) = sm_teardown m"
  "sm_next (shutdown_ref ops r m) = sm_next m" "sm_inflight (shutdown_ref ops r m) = sm_inflight m"
  "dom (sm_heap (shutdown_ref ops r m)) = dom (sm_heap m)" "sm_turn (shutdown_ref ops r m) = sm_turn m"
  "sm_shutdown (shutdown_ref ops r m) = sm_shutdown m"
  by (auto simp: shutdown_ref_def split: option.split)

lemma shutdown_ref_holders [simp]: "holders (shutdown_ref ops r m) = holders m - {r}"
proof (cases rule: shutdown_ref_cases [of ops r m])
  case (Freed s)
  have "holders (m\<lparr>sm_heap := (sm_heap m)(r \<mapsto> shutdown_user_session ops s)\<rparr>) = holders m - {r}"
    by (simp add: holders_update)
  with Freed show ?thesis by (simp add: holders_def)
qed auto

lemma shutdown_ref_permits:
  assumes "finite (holders m)"
  shows "available_permits (sm_slots (shutdown_ref ops r m)) + card (holders m - {r}) = available_permits (sm_slots m) + card (holders m)"
proof (cases rule: shutdown_ref_cases [of ops r m])
  case (Freed s)
  then show ?thesis using assms card_Suc_Diff1 [of "holders m" r] by (simp add: tokio_semaphore.avail_release)
qed simp

lemma shutdown_ref_inv:
  assumes "mgr_inv n m"
  shows "mgr_inv n (shutdown_ref ops r m)"
proof -
  have "finite (holders m)" using assms by (auto simp: mgr_inv_def intro: holders_finite)
  from shutdown_ref_permits [OF this, of ops r] assms show ?thesis by (auto simp: mgr_inv_def)
qed

lemma reserve_inv: "mgr_inv n m \<Longrightarrow> mgr_inv n (snd (connect_reserve conn_id m))"
  by (auto simp: connect_reserve_def mgr_inv_def split: option.split dest: tokio_semaphore.acquire_Some)

lemma abort_inv: "mgr_inv n m \<Longrightarrow> 0 < sm_inflight m \<Longrightarrow> mgr_inv n (connect_abort m)"
  by (auto simp: connect_abort_def mgr_inv_def tokio_semaphore.avail_release)

lemma media_inv: "mgr_inv n m \<Longrightarrow> mgr_inv n (snd (initialize_media created m))"
  by (auto simp: initialize_media_def mgr_inv_def split: option.split sum.split)

lemma session_op_inv:
  "mgr_inv n m \<Longrightarrow> sm_heap m r = Some s \<Longrightarrow> ur_slot s' = ur_slot s \<Longrightarrow> mgr_inv n (m\<lparr>sm_heap := (sm_heap m)(r \<mapsto> s')\<rparr>)"
proof -
  assume inv: "mgr_inv n m" and s: "sm_heap m r = Some s" "ur_slot s' = ur_slot s"
  then have "holders (m\<lparr>sm_heap := (sm_heap m)(r \<mapsto> s')\<rparr>) = holders m" by (auto simp: holders_def)
  moreover have "insert r (dom (sm_heap m)) = dom (sm_heap m)" using s by auto
  ultimately show ?thesis using inv by (simp add: mgr_inv_def)
qed

lemma remove_ran:
  assumes "inj_on f (dom f)"
  shows "ran (f(k := None)) = (case f k of None \<Rightarrow> ran f | Some v \<Rightarrow> ran f - {v})"
proof (cases "f k")
  case None
  then show ?thesis by (simp add: fun_upd_idem)
next
  case (Some v)
  have only: "f a \<noteq> Some v" if "a \<noteq> k" for a
    using inj_onD [OF assms, of a k] that Some by (auto simp: domIff)
  have "x \<in> ran (f(k := None)) \<longleftrightarrow> x \<in> ran f - {v}" for x
  proof
    assume "x \<in> ran (f(k := None))"
    then obtain a where "a \<noteq> k" "f a = Some x" by (auto simp: ran_def split: if_splits)
    with only [of a] show "x \<in> ran f - {v}" by (auto simp: ran_def)
  next
    assume "x \<in> ran f - {v}"
    then obtain a where "f a = Some x" "x \<noteq> v" by (auto simp: ran_def)
    with Some show "x \<in> ran (f(k := None))" by (intro ranI [of _ a]) auto
  qed
  with Some show ?thesis by auto
qed

lemma remove_inj: "inj_on f (dom f) \<Longrightarrow> inj_on (f(k := None)) (dom (f(k := None)))"
  by (auto simp: inj_on_def)

lemma insert_inj: "inj_on f (dom f) \<Longrightarrow> r \<notin> ran f \<Longrightarrow> inj_on (f(k \<mapsto> r)) (dom (f(k \<mapsto> r)))"
  unfolding inj_on_def by (metis domIff domI fun_upd_apply option.inject option.exhaust ranI)

lemma remove_inv:
  assumes "mgr_inv n m"
  shows "mgr_inv n (snd (disconnect_remove conn_id m))"
  using assms remove_ran [of "sm_sessions m" conn_id] remove_inj [of "sm_sessions m" conn_id]
  by (auto simp: disconnect_remove_def mgr_inv_def simp del: fun_upd_apply dom_fun_upd split: option.split)

lemma teardown_inv: "mgr_inv n m \<Longrightarrow> mgr_inv n (teardown_run ops r m)"
  using shutdown_ref_inv [of n m ops r] by (auto simp: teardown_run_def mgr_inv_def)

lemma finish_remove_inv:
  assumes "mgr_inv n m" and "sm_heap m r = Some s" and "\<not> ur_slot s"
  shows "mgr_inv n (snd (snd (finish_remove conn_id r e m)))"
proof -
  have "r \<notin> holders m" using assms(2,3) by (simp add: holders_def)
  with assms(1) remove_ran [of "sm_sessions m" conn_id] remove_inj [of "sm_sessions m" conn_id] show ?thesis
    by (auto simp: finish_remove_def mgr_inv_def simp del: fun_upd_apply dom_fun_upd)
qed

lemma new_session_slot [simp]: "ur_slot (user_session_new w u)"
  by (simp add: user_session_new_def)

text \<open>Before the entry is decided, the new session is not yet in the map.\<close>

lemma install_inv:
  assumes inv: "mgr_inv n m" and fl: "0 < sm_inflight m"
  shows "mgr_inv n (snd (connect_install ops conn_id username w m))"
proof -
  let ?r = "sm_next m"
  let ?m = "m\<lparr>sm_heap := (sm_heap m)(?r \<mapsto> user_session_new w username), sm_next := ?r + 1, sm_inflight := sm_inflight m - 1\<rparr>"
  have fresh0: "?r \<notin> dom (sm_heap m)" "ran (sm_sessions m) \<subseteq> dom (sm_heap m)" using inv by (auto simp: mgr_inv_def)
  then have fresh: "?r \<notin> dom (sm_heap m)" "?r \<notin> holders m" "?r \<notin> ran (sm_sessions m)"
    by (auto simp: holders_def)
  have fin: "finite (holders m)" using inv by (auto simp: mgr_inv_def intro: holders_finite)
  have h: "holders ?m = insert ?r (holders m)" by (auto simp: holders_def user_session_new_def)
  have dm: "dom (sm_heap ?m) \<subseteq> {..<sm_next ?m}" using inv by (auto simp: mgr_inv_def)
  have count: "available_permits (sm_slots m) + (sm_inflight m - 1) + Suc (card (holders m)) = n"
    using inv fl by (simp add: mgr_inv_def)
  show ?thesis
  proof (cases "sm_sessions m conn_id")
    case None
    let ?f = "(sm_sessions m)(conn_id \<mapsto> ?r)"
    have inj: "inj_on ?f (dom ?f)" using inv fresh(3) None by (intro insert_inj) (auto simp: mgr_inv_def)
    have ran: "ran ?f = insert ?r (ran (sm_sessions m))" using None by (rule ran_map_upd)
    have out: "snd (connect_install ops conn_id username w m) = ?m\<lparr>sm_sessions := ?f\<rparr>"
      using None by (simp add: connect_install_def Let_def)
    have "mgr_inv n (?m\<lparr>sm_sessions := ?f\<rparr>)"
      unfolding mgr_inv_def holders_other(1) h
      using inv dm count fresh fin inj ran by (simp add: mgr_inv_def) blast
    then show ?thesis unfolding out .
  next
    case (Some r')
    have out: "snd (connect_install ops conn_id username w m) = shutdown_ref ops ?r ?m"
      using Some by (simp add: connect_install_def Let_def)
    have "available_permits (sm_slots (shutdown_ref ops ?r ?m)) + card (holders ?m - {?r}) = available_permits (sm_slots ?m) + card (holders ?m)"
      by (rule shutdown_ref_permits [OF holders_finite [OF dm]])
    moreover have hm: "holders ?m - {?r} = holders m" using h fresh(2) by auto
    moreover have "card (holders ?m) = Suc (card (holders m))" unfolding h using fresh(2) fin by simp
    ultimately have "available_permits (sm_slots (shutdown_ref ops ?r ?m)) = available_permits (sm_slots m) + 1" by simp
    then have "available_permits (sm_slots (shutdown_ref ops ?r ?m)) + sm_inflight ?m + card (holders m) = n" using count by simp
    moreover have "ran (sm_sessions ?m) \<subseteq> dom (sm_heap ?m)" using fresh0(2) by auto
    moreover have "inj_on (sm_sessions ?m) (dom (sm_sessions ?m))" "holders m \<subseteq> ran (sm_sessions ?m) \<union> sm_teardown ?m"
      using inv by (simp_all add: mgr_inv_def)
    ultimately show ?thesis unfolding out mgr_inv_def shutdown_ref_keeps shutdown_ref_holders hm using dm by blast
  qed
qed

lemma mgr_step_inv: "mgr_step ops m m' \<Longrightarrow> mgr_inv n m \<Longrightarrow> mgr_inv n m'"
proof (induction rule: mgr_step.induct)
  case (ms_turn m t)
  then show ?case by (simp add: mgr_inv_def)
next
  case (ms_media_close m)
  then show ?case by (simp add: mgr_inv_def)
next
  case (ms_shutdown m)
  then show ?case by (simp add: mgr_inv_def begin_shutdown_def)
qed (auto intro: reserve_inv media_inv abort_inv install_inv session_op_inv remove_inv teardown_inv shutdown_ref_inv finish_remove_inv dest: session_step_slot)

lemma manager_new_inv: "mgr_inv (sc_max_connections (cf_server c)) (manager_new c)"
  by (simp add: mgr_inv_def manager_new_def holders_def tokio_semaphore.avail_new)

text \<open>The manager refines the slot pool: connects in flight are the reservations, slot-holding sessions the slots in use.\<close>

definition mgr_pool :: "('p, 'snd) manager \<Rightarrow> slot_pool" where
  "mgr_pool m = \<lparr>po_reserved = sm_inflight m, po_used = card (holders m)\<rparr>"

lemma pool_shutdown_ref:
  assumes "mgr_inv n m"
  shows "mgr_pool (shutdown_ref ops r m) = mgr_pool m \<or> pool_step n (mgr_pool m) (mgr_pool (shutdown_ref ops r m))"
proof (cases "r \<in> holders m")
  case True
  have "finite (holders m)" using assms by (auto simp: mgr_inv_def intro: holders_finite)
  with True have "0 < card (holders m)" "card (holders m - {r}) = card (holders m) - 1" by (auto simp: card_gt_0_iff)
  then show ?thesis using pool_free [of "mgr_pool m" n] by (simp add: mgr_pool_def)
qed (simp add: mgr_pool_def)

lemma pool_reserve_step:
  assumes "mgr_inv n m"
  shows "mgr_pool (snd (connect_reserve c m)) = mgr_pool m \<or> pool_step n (mgr_pool m) (mgr_pool (snd (connect_reserve c m)))"
proof (cases "connect_reserve c m")
  case (Pair x m1)
  show ?thesis
  proof (cases x)
    case (Inl e)
    with Pair show ?thesis by (auto simp: connect_reserve_def split: if_splits option.splits)
  next
    case (Inr u)
    with Pair obtain slots where sl: "try_acquire_owned (sm_slots m) = Some slots"
      and m1: "m1 = m\<lparr>sm_slots := slots, sm_inflight := sm_inflight m + 1\<rparr>"
      by (auto simp: connect_reserve_def split: if_splits option.splits)
    have "pool_taken (mgr_pool m) < n"
      using assms tokio_semaphore.acquire_Some [OF sl] by (simp add: mgr_inv_def mgr_pool_def pool_taken_def)
    from pool_reserve [OF this] Pair m1 show ?thesis by (simp add: mgr_pool_def)
  qed
qed

lemma pool_install_step:
  assumes inv: "mgr_inv n m" and fl: "0 < sm_inflight m"
  shows "pool_step n (mgr_pool m) (mgr_pool (snd (connect_install ops c u w m)))"
proof -
  let ?r = "sm_next m"
  let ?m = "m\<lparr>sm_heap := (sm_heap m)(?r \<mapsto> user_session_new w u), sm_next := ?r + 1, sm_inflight := sm_inflight m - 1\<rparr>"
  have fresh: "?r \<notin> holders m" using inv by (auto simp: mgr_inv_def holders_def)
  have fin: "finite (holders m)" using inv by (auto simp: mgr_inv_def intro: holders_finite)
  have h: "holders ?m = insert ?r (holders m)" by (auto simp: holders_def user_session_new_def)
  show ?thesis
  proof (cases "sm_sessions m c")
    case None
    then have "mgr_pool (snd (connect_install ops c u w m)) = (mgr_pool m)\<lparr>po_reserved := sm_inflight m - 1, po_used := card (holders m) + 1\<rparr>"
      using fresh fin h by (simp add: connect_install_def mgr_pool_def Let_def)
    with pool_commit [of "mgr_pool m" n] fl show ?thesis by (simp add: mgr_pool_def)
  next
    case (Some q)
    then have "snd (connect_install ops c u w m) = shutdown_ref ops ?r ?m" by (simp add: connect_install_def Let_def)
    moreover have "holders (shutdown_ref ops ?r ?m) = holders m" using h fresh by auto
    ultimately have "mgr_pool (snd (connect_install ops c u w m)) = (mgr_pool m)\<lparr>po_reserved := sm_inflight m - 1\<rparr>"
      by (simp add: mgr_pool_def)
    with pool_cancel [of "mgr_pool m" n] fl show ?thesis by (simp add: mgr_pool_def)
  qed
qed

lemma pool_session: "sm_heap m r = Some s \<Longrightarrow> ur_slot s' = ur_slot s \<Longrightarrow> mgr_pool (m\<lparr>sm_heap := (sm_heap m)(r \<mapsto> s')\<rparr>) = mgr_pool m"
proof -
  assume "sm_heap m r = Some s" "ur_slot s' = ur_slot s"
  then have "holders (m\<lparr>sm_heap := (sm_heap m)(r \<mapsto> s')\<rparr>) = holders m" by (auto simp: holders_def)
  then show ?thesis by (simp add: mgr_pool_def)
qed

lemma mgr_step_pool:
  assumes "mgr_step ops m m'" and inv: "mgr_inv n m"
  shows "mgr_pool m' = mgr_pool m \<or> pool_step n (mgr_pool m) (mgr_pool m')"
  using assms(1)
proof (cases rule: mgr_step.cases)
  case (ms_session r s k msgs s')
  then show ?thesis using pool_session [OF ms_session(2) session_step_slot [OF ms_session(3)]] by simp
next
  case ms_abort
  then show ?thesis using pool_cancel [of "mgr_pool m" n] by (simp add: connect_abort_def mgr_pool_def)
next
  case (ms_teardown r)
  have "mgr_pool m' = mgr_pool (shutdown_ref ops r m)" using ms_teardown by (simp add: teardown_run_def mgr_pool_def)
  with pool_shutdown_ref [OF inv, of ops r] show ?thesis by simp
next
  case (ms_reserve c)
  with pool_reserve_step [OF inv] show ?thesis by simp
next
  case (ms_finish_shutdown r)
  with pool_shutdown_ref [OF inv] show ?thesis by simp
next
  case (ms_install c u w)
  with pool_install_step [OF inv] show ?thesis by simp
qed (auto simp: mgr_pool_def initialize_media_def disconnect_remove_def finish_remove_def begin_shutdown_def split: option.split sum.split)

lemma with_turn_inv: "mgr_inv n (with_turn t m) = mgr_inv n m"
  by (simp add: with_turn_def mgr_inv_def)

interpretation session_slots: simulation "\<lambda>m. m = with_turn t (manager_new c)" "mgr_step ops" "mgr_inv (sc_max_connections (cf_server c))"
  "\<lambda>q. q = pool_empty" "pool_step (sc_max_connections (cf_server c))" mgr_pool for c t ops
proof unfold_locales
  fix m :: "('a, 'b) manager"
  assume m: "m = with_turn t (manager_new c)"
  show "mgr_inv (sc_max_connections (cf_server c)) m" using m manager_new_inv by (simp add: with_turn_inv)
  show "mgr_pool m = pool_empty" using m by (simp add: mgr_pool_def pool_empty_def with_turn_def manager_new_def holders_def)
qed (auto intro: mgr_step_inv dest: mgr_step_pool)

lemma manager_new_reachable:
  "reachable (\<lambda>m. m = manager_new c) step m \<Longrightarrow> reachable (\<lambda>m. m = with_turn None (manager_new c)) step m"
  by (simp add: with_turn_def manager_new_def)

section \<open>The operations as sequences of steps\<close>

lemmas [session_simps] = disconnect_user_def disconnect_remove_def teardown_run_def

lemma disconnect_user_steps: "(mgr_step ops)\<^sup>*\<^sup>* m (disconnect_user ops conn_id m)"
proof (cases "sm_sessions m conn_id")
  case None
  then show ?thesis by (simp add: disconnect_user_def disconnect_remove_def)
next
  case (Some r)
  let ?m1 = "snd (disconnect_remove conn_id m)"
  have "mgr_step ops m ?m1" by (rule ms_remove)
  moreover have "mgr_step ops ?m1 (teardown_run ops r ?m1)"
    by (rule ms_teardown) (simp add: disconnect_remove_def Some)
  moreover have "disconnect_user ops conn_id m = teardown_run ops r ?m1"
    by (simp add: disconnect_user_def disconnect_remove_def Some)
  ultimately show ?thesis by (metis converse_rtranclp_into_rtranclp r_into_rtranclp)
qed

lemma teardown_sessions: "sm_sessions (teardown_run ops r m) = sm_sessions m"
  by (simp add: teardown_run_def)

lemma disconnect_user_sessions: "sm_sessions (disconnect_user ops conn_id m) = (sm_sessions m)(conn_id := None)"
  by (cases "sm_sessions m conn_id") (auto simp: disconnect_user_def disconnect_remove_def teardown_sessions)

lemma close_sessions: "sm_sessions (fold (disconnect_user ops) ids m) k = (if k \<in> set ids then None else sm_sessions m k)"
  by (induction ids arbitrary: m) (simp_all add: disconnect_user_sessions)

lemma close_steps: "(mgr_step ops)\<^sup>*\<^sup>* m (fold (disconnect_user ops) ids m)"
proof (induction ids arbitrary: m)
  case (Cons i ids)
  show ?case using rtranclp_trans [OF disconnect_user_steps Cons.IH] by simp
qed simp

lemma disconnect_user_quiet:
  "sm_teardown m = {} \<Longrightarrow> sm_teardown (disconnect_user ops conn_id m) = {} \<and> sm_inflight (disconnect_user ops conn_id m) = sm_inflight m"
  by (auto simp: session_simps split: option.split)

lemma close_quiet:
  "sm_teardown m = {} \<Longrightarrow> sm_teardown (fold (disconnect_user ops) ids m) = {} \<and> sm_inflight (fold (disconnect_user ops) ids m) = sm_inflight m"
  by (induction ids arbitrary: m) (auto simp: disconnect_user_quiet)

lemma close_flag: "sm_shutdown (fold (disconnect_user ops) ids m) = sm_shutdown m"
proof -
  have "sm_shutdown (disconnect_user ops i m) = sm_shutdown m" for i and m :: "('a, 'b) manager"
    by (auto simp: session_simps split: option.split)
  then show ?thesis by (induction ids arbitrary: m) simp_all
qed

lemma inv_quiet: "mgr_inv n m \<Longrightarrow> sm_sessions m = Map.empty \<Longrightarrow> sm_teardown m = {} \<Longrightarrow> sm_inflight m = 0 \<Longrightarrow> available_permits (sm_slots m) = n"
  by (auto simp: mgr_inv_def)

lemma media_keeps: "\<exists>a. snd (initialize_media created m) = m\<lparr>sm_media := a\<rparr>"
proof (cases "sm_media m"; cases created)
  fix e
  assume "sm_media m = None" "created = Inl e"
  then show ?thesis by (intro exI [of _ "sm_media m"]) (simp add: initialize_media_def)
next
  fix api
  assume "sm_media m = None" "created = Inr api"
  then show ?thesis by (intro exI [of _ "Some api"]) (simp add: initialize_media_def)
qed (auto intro!: exI [of _ "sm_media m"] simp: initialize_media_def)

lemma setup_snd: "snd (connect_setup env m) \<in> {m, snd (initialize_media (ne_media env) m)}"
proof (cases "resolve_mumble_addr (ne_lookup env)")
  case (Inr a)
  obtain x m' where i: "initialize_media (ne_media env) m = (x, m')" by fastforce
  show ?thesis
    unfolding connect_setup_def Inr i
    by (cases "ne_mumble env"; cases "the (ne_mumble env)"; cases x; cases "ne_webrtc env") (simp_all add: i)
qed (simp add: connect_setup_def)

lemma setup_keeps: "\<exists>a. snd (connect_setup env m) = m\<lparr>sm_media := a\<rparr>"
proof -
  have "m = m\<lparr>sm_media := sm_media m\<rparr>" by simp
  with setup_snd [of env m] media_keeps [of "ne_media env" m] show ?thesis by (metis insertE singletonD)
qed

lemma reserve_Inr:
  "connect_reserve conn_id m = (Inr (), m1) \<Longrightarrow> \<exists>slots. try_acquire_owned (sm_slots m) = Some slots \<and>
     m1 = m\<lparr>sm_slots := slots, sm_inflight := sm_inflight m + 1\<rparr> \<and> sm_sessions m conn_id = None \<and> \<not> sm_shutdown m"
  by (auto simp: connect_reserve_def split: if_splits option.splits)

section \<open>Properties of the session manager\<close>

text \<open>
  C1. Under every interleaving of connects, cancellations, disconnects, event tasks and user
  operations, free slots, connects in flight and sessions that hold a slot add up to the
  configured maximum, and every session that holds a slot is still in the map or about to be torn
  down: no slot is lost and the limit is never exceeded.
\<close>

theorem session_slots_conserved:
  assumes "reachable (\<lambda>m. m = manager_new c) (mgr_step ops) m"
  shows "available_permits (sm_slots m) + sm_inflight m + card (holders m) = sc_max_connections (cf_server c) \<and>
    holders m \<subseteq> ran (sm_sessions m) \<union> sm_teardown m"
  using session_slots.reachable_inv [OF manager_new_reachable [OF assms]] by (simp add: mgr_inv_def)

theorem session_slots_conserved_witness:
  "available_permits (sm_slots (snd (connect_reserve ''a'' (manager_new demo_turn_config :: (sim_peer, nat) manager)))) + 1 = 10"
proof -
  let ?m = "manager_new demo_turn_config :: (sim_peer, nat) manager"
  have "reachable (\<lambda>m. m = manager_new demo_turn_config) (mgr_step sim_peer_ops) (snd (connect_reserve ''a'' ?m))"
    by (rule reachable_step [of _ _ ?m]) (auto intro: reachable_init ms_reserve)
  from session_slots_conserved [OF this] show ?thesis
    by (simp add: connect_reserve_def manager_new_def try_acquire_owned_def sem_new_def demo_turn_config_def holders_def)
qed

text \<open>
  Closing the manager when no connect or teardown is under way empties the map, gives every slot
  back and leaves the flag set that refuses new connects.
\<close>

lemma manager_close_frees_all:
  assumes "reachable (\<lambda>m. m = manager_new c) (mgr_step ops) m" and "iterates (sm_sessions m) order"
    and "sm_inflight m = 0" and "sm_teardown m = {}"
  shows "sm_sessions (manager_close ops order m) = Map.empty \<and> sm_shutdown (manager_close ops order m) \<and>
    available_permits (sm_slots (manager_close ops order m)) = sc_max_connections (cf_server c)"
proof -
  have "reachable (\<lambda>m. m = manager_new c) (mgr_step ops) (begin_shutdown m)"
    by (rule reachable_step [OF assms(1) ms_shutdown])
  then have "reachable (\<lambda>m. m = manager_new c) (mgr_step ops) (manager_close ops order m)"
    unfolding manager_close_def Let_def by (rule reachable_step [OF reachable_rtranclp [OF close_steps] ms_media_close])
  note inv = session_slots.reachable_inv [OF manager_new_reachable [OF this]]
  have "sm_sessions (manager_close ops order m) = Map.empty"
    using assms(2) by (auto simp: manager_close_def Let_def close_sessions begin_shutdown_def iterates_def fun_eq_iff domIff)
  moreover have "sm_teardown (manager_close ops order m) = {}" "sm_inflight (manager_close ops order m) = 0"
    using close_quiet [of "begin_shutdown m" ops order] assms(3,4) by (simp_all add: manager_close_def Let_def begin_shutdown_def)
  moreover have "sm_shutdown (manager_close ops order m)"
    by (simp add: manager_close_def Let_def close_flag begin_shutdown_def)
  ultimately show ?thesis using inv_quiet [OF inv] by simp
qed

text \<open>
  The end of an old session never harms a reconnect: when the entry of the connection is another
  generation, the end of the old event task removes nothing, sends nothing and leaves every other session as
  it is; when the entry is its own, the entry goes and the terminal error is sent, after the
  session was torn down.
\<close>

lemma finish_session_own_generation:
  "case finish_session ops conn_id r e m of (removed, msgs, m') \<Rightarrow>
     removed = (sm_sessions m conn_id = Some r) \<and>
     msgs = (if removed then (case e of Some x \<Rightarrow> [x] | None \<Rightarrow> []) else []) \<and>
     sm_sessions m' = (if removed then (sm_sessions m)(conn_id := None) else sm_sessions m) \<and>
     r \<notin> holders m' \<and> (\<forall>q. q = r \<or> sm_heap m' q = sm_heap m q)"
proof -
  have "sm_heap (shutdown_ref ops r m) q = sm_heap m q" if "q \<noteq> r" for q
    using that by (simp add: shutdown_ref_def split: option.split)
  then show ?thesis by (auto simp: finish_session_def finish_remove_def)
qed

text \<open>
  C34. A connect that fails, for whatever reason, changes neither the sessions nor the number of free
  slots; one that succeeds takes exactly one slot for a new entry that was not there before.
\<close>

theorem connect_user_slots:
  assumes "mgr_inv n m"
  shows "case connect_user ops env conn_id username m of
     (Inl e, m') \<Rightarrow> sm_sessions m' = sm_sessions m \<and> available_permits (sm_slots m') = available_permits (sm_slots m) \<and> sm_inflight m' = sm_inflight m
   | (Inr _, m') \<Rightarrow> sm_sessions m conn_id = None \<and> sm_sessions m' = (sm_sessions m)(conn_id \<mapsto> sm_next m) \<and>
       available_permits (sm_slots m) = Suc (available_permits (sm_slots m')) \<and> holders m' = insert (sm_next m) (holders m)"
proof (cases "connect_reserve conn_id m")
  case (Pair x m1)
  show ?thesis
  proof (cases x)
    case (Inl e)
    with Pair have "m1 = m" by (auto simp: connect_reserve_def split: if_splits option.splits)
    with Pair Inl show ?thesis by (simp add: connect_user_def)
  next
    case (Inr u)
    with Pair obtain slots where sl: "try_acquire_owned (sm_slots m) = Some slots"
      "m1 = m\<lparr>sm_slots := slots, sm_inflight := sm_inflight m + 1\<rparr>" "sm_sessions m conn_id = None"
      using reserve_Inr [of conn_id m m1] by auto
    have av: "available_permits (sm_slots m) = Suc (available_permits slots)" using tokio_semaphore.acquire_Some [OF sl(1)] .
    obtain y m2 where s2: "connect_setup env m1 = (y, m2)" by fastforce
    then obtain a where m2: "m2 = m1\<lparr>sm_media := a\<rparr>" using setup_keeps [of env m1] by auto
    show ?thesis
    proof (cases y)
      case (Inl e)
      with Pair \<open>x = Inr u\<close> s2 m2 sl av show ?thesis
        by (auto simp: connect_user_def connect_abort_def tokio_semaphore.avail_release)
    next
      case (Inr w)
      have "holders (m\<lparr>sm_heap := (sm_heap m)(sm_next m \<mapsto> user_session_new w username)\<rparr>) = insert (sm_next m) (holders m)"
        by (simp add: holders_update)
      with Inr Pair \<open>x = Inr u\<close> s2 m2 sl av show ?thesis
        by (auto simp: connect_user_def connect_install_def Let_def holders_def)
    qed
  qed
qed

theorem connect_user_slots_witness:
  "available_permits (sm_slots (snd (connect_user sim_peer_ops
      \<lparr>ne_lookup = Inl ''dns'', ne_mumble = None, ne_media = Inl ''media'', ne_webrtc = Inl ''x''\<rparr> ''c'' ''alice''
      (manager_new demo_turn_config :: (sim_peer, nat) manager)))) = 10"
proof -
  let ?env = "\<lparr>ne_lookup = Inl ''dns'', ne_mumble = None, ne_media = Inl ''media'', ne_webrtc = Inl ''x''\<rparr> :: (sim_peer, nat) connect_env"
  let ?m = "manager_new demo_turn_config :: (sim_peer, nat) manager"
  have "mgr_inv 10 ?m" using manager_new_inv [of demo_turn_config] by (simp add: demo_turn_config_def)
  moreover have "\<exists>e m'. connect_user sim_peer_ops ?env ''c'' ''alice'' ?m = (Inl e, m')"
    by (simp add: connect_user_def connect_reserve_def manager_new_def try_acquire_owned_def sem_new_def demo_turn_config_def
        connect_setup_def resolve_mumble_addr_def)
  moreover have "available_permits (sm_slots ?m) = 10" by (simp add: manager_new_def demo_turn_config_def tokio_semaphore.avail_new)
  ultimately show ?thesis using connect_user_slots [of 10 ?m, where ops = sim_peer_ops and env = ?env and conn_id = "''c''" and username = "''alice''"] by auto
qed

end
