(* ===== verification/Ws_Handler.thy ===== *)
theory Ws_Handler
  imports Session_Manager
begin

text \<open>
  \<open>src/src/ws/handler.rs\<close>: one WebSocket connection. The socket, the JSON decoder and the timers
  are outside: an input of the loop is what the \<open>select!\<close> yields, and a text frame arrives already
  decoded or with the decoder's error. \<open>ws_tx\<close> is the list of messages sent, oldest first.
\<close>

record ('p, 'snd) handler_env =
  he_connect :: "('p, 'snd) connect_env"
  he_issue :: issue_env
  he_speakers :: "u32 list"

definition report :: "string \<Rightarrow> unit result \<times> server_message list \<times> ('p, 'snd) manager \<Rightarrow> server_message list \<times> ('p, 'snd) manager" where
  "report code r = (case r of
     (Inr _, msgs, m) \<Rightarrow> (msgs, m)
   | (Inl e, msgs, m) \<Rightarrow> (msgs @ [server_error code e], m))"

definition quiet :: "(('p, 'snd) user_session \<Rightarrow> unit result \<times> ('p, 'snd) user_session) \<Rightarrow> ('p, 'snd) user_session
    \<Rightarrow> unit result \<times> server_message list \<times> ('p, 'snd) user_session" where
  "quiet f s = (case f s of (r, s') \<Rightarrow> (r, [], s'))"

definition manager_refresh_ice :: "auth_key_fn \<Rightarrow> issue_env \<Rightarrow> string \<Rightarrow> ('p, 'snd) manager
    \<Rightarrow> unit result \<times> server_message list \<times> ('p, 'snd) manager" where
  "manager_refresh_ice gen env conn_id m = (case get_session conn_id m of
     Inl e \<Rightarrow> (Inl e, [], m)
   | Inr r \<Rightarrow> (case sm_heap m r of
       None \<Rightarrow> (Inl ''Session not found'', [], m)
     | Some s \<Rightarrow> (case refresh_ice gen env (sm_config m) conn_id (sm_turn m) s of
         (x, msgs, turn) \<Rightarrow> (x, msgs, m\<lparr>sm_turn := turn\<rparr>))))"

definition valid_username :: "string \<Rightarrow> bool" where
  "valid_username u \<longleftrightarrow> trim u \<noteq> [] \<and> length u \<le> 128"

definition handle_client_message ::
  "auth_key_fn \<Rightarrow> ('p, 'snd) peer_ops \<Rightarrow> ('p, 'snd) handler_env \<Rightarrow> string \<Rightarrow> client_message \<Rightarrow> ('p, 'snd) manager
     \<Rightarrow> server_message list \<times> ('p, 'snd) manager" where
  "handle_client_message gen ops env conn_id msg m = (case msg of
     Connect data \<Rightarrow>
       if \<not> valid_username (cd_username data) then ([server_error ''connect_failed'' ''invalid username''], m)
       else (case connect_user ops (he_connect env) conn_id (cd_username data) m of
               (Inr _, m') \<Rightarrow> ([], m')
             | (Inl e, m') \<Rightarrow> ([server_error ''connect_failed'' e], m'))
   | Disconnect \<Rightarrow> ([], disconnect_user ops conn_id m)
   | Offer data \<Rightarrow>
       ([server_error ''upgrade_required''
          ''MumDota protocol v2 requires start_voice and server SDP offers; refresh the web client''], m)
   | Answer data \<Rightarrow> report ''voice_error'' (on_session conn_id (handle_answer ops (ad_sdp data)) m)
   | StartVoice \<Rightarrow> report ''voice_error'' (on_session conn_id (start_voice ops (he_speakers env) False) m)
   | IceRestart \<Rightarrow> report ''voice_error'' (on_session conn_id (start_voice ops (he_speakers env) True) m)
   | IceRefresh \<Rightarrow> report ''voice_error'' (manager_refresh_ice gen (he_issue env) conn_id m)
   | IceCandidate data \<Rightarrow> report ''ice_failed'' (on_session conn_id (quiet (session_add_ice_candidate ops data)) m)
   | ChatSend data \<Rightarrow>
       if length (csd_message data) > 4096 then ([server_error ''chat_failed'' ''message exceeds 4096 bytes''], m)
       else report ''chat_failed'' (on_session conn_id (quiet (send_chat (csd_channel_id data) (csd_message data))) m)
   | ChannelJoin data \<Rightarrow> report ''channel_join_failed'' (on_session conn_id (quiet (join_channel (cj_channel_id data))) m)
   | Mute data \<Rightarrow> report ''mute_failed'' (on_session conn_id (quiet (set_mute (md_muted data))) m)
   | Deafen data \<Rightarrow> report ''deafen_failed'' (on_session conn_id (quiet (set_deaf (dd_deafened data))) m))"

section \<open>The receive loop\<close>

text \<open>
  \<open>In_cancelled\<close> is a message whose handling ran into the fifteen second limit: the handler future is
  dropped at one of its waits and leaves the manager in the state given.
\<close>

datatype ('p, 'snd) ws_input =
  In_send_task_ended
| In_stopping
| In_deadline
| In_closed
| In_socket_error string
| In_text client_message "('p, 'snd) handler_env"
| In_cancelled client_message "('p, 'snd) manager"
| In_bad_text string
| In_close_frame
| In_other_frame

record ('p, 'snd) ws_conn =
  hc_first_message :: bool
  hc_sent :: "server_message list"
  hc_manager :: "('p, 'snd) manager"

definition is_connect :: "client_message \<Rightarrow> bool" where
  "is_connect msg = (case msg of Connect _ \<Rightarrow> True | _ \<Rightarrow> False)"

definition ws_loop_step ::
  "auth_key_fn \<Rightarrow> ('p, 'snd) peer_ops \<Rightarrow> string \<Rightarrow> ('p, 'snd) ws_input \<Rightarrow> ('p, 'snd) ws_conn \<Rightarrow> loop \<times> ('p, 'snd) ws_conn" where
  "ws_loop_step gen ops conn_id inp c = (case inp of
     In_text msg env \<Rightarrow>
       if hc_first_message c \<and> \<not> is_connect msg then (Break, c)
       else (let c' = c\<lparr>hc_first_message := False\<rparr>
             in if msg = Disconnect then (Break, c')
                else (case handle_client_message gen ops env conn_id msg (hc_manager c) of
                        (msgs, m) \<Rightarrow> (Continue, c'\<lparr>hc_sent := hc_sent c @ msgs, hc_manager := m\<rparr>)))
   | In_cancelled msg m \<Rightarrow>
       if hc_first_message c \<and> \<not> is_connect msg then (Break, c)
       else if msg = Disconnect then (Break, c\<lparr>hc_first_message := False\<rparr>)
       else (Break, c\<lparr>hc_first_message := False, hc_manager := m\<rparr>)
   | In_bad_text e \<Rightarrow>
       (Continue, c\<lparr>hc_sent := hc_sent c @ [server_error ''invalid_message'' (''Failed to parse message: '' @ e)]\<rparr>)
   | In_other_frame \<Rightarrow> (Continue, c)
   | _ \<Rightarrow> (Break, c))"

fun ws_loop ::
  "auth_key_fn \<Rightarrow> ('p, 'snd) peer_ops \<Rightarrow> string \<Rightarrow> ('p, 'snd) ws_input list \<Rightarrow> ('p, 'snd) ws_conn \<Rightarrow> ('p, 'snd) ws_conn" where
  "ws_loop gen ops conn_id [] c = c"
| "ws_loop gen ops conn_id (i # is) c =
     (case ws_loop_step gen ops conn_id i c of
        (Break, c') \<Rightarrow> c'
      | (Continue, c') \<Rightarrow> ws_loop gen ops conn_id is c')"

text \<open>The whole connection: the loop, then the cleanup.\<close>

definition handle_ws_connection ::
  "auth_key_fn \<Rightarrow> ('p, 'snd) peer_ops \<Rightarrow> (nat \<Rightarrow> bool) \<Rightarrow> string list \<Rightarrow> string \<Rightarrow> ('p, 'snd) ws_input list \<Rightarrow> ('p, 'snd) manager
     \<Rightarrow> server_message list \<times> ('p, 'snd) manager" where
  "handle_ws_connection gen ops strong order conn_id inputs m =
     (let c = ws_loop gen ops conn_id inputs \<lparr>hc_first_message = True, hc_sent = [], hc_manager = m\<rparr>
      in (hc_sent c, revoke_turn strong order conn_id (disconnect_user ops conn_id (hc_manager c))))"

section \<open>The send task\<close>

datatype ws_frame = F_ping | F_text string | F_close

datatype send_event = Send_tick | Send_message server_message | Send_channel_closed

definition terminal_message :: "server_message \<Rightarrow> bool" where
  "terminal_message m \<longleftrightarrow> error_code m = Some ''mumble_disconnected'' \<or> error_code m = Some ''connect_failed''"

text \<open>The frame an event of the \<open>select!\<close> gives and whether it is the last one; nothing when the channel is closed.\<close>

definition send_choice :: "(server_message \<Rightarrow> string result) \<Rightarrow> send_event \<Rightarrow> (ws_frame \<times> bool) option" where
  "send_choice ser ev = (case ev of
     Send_tick \<Rightarrow> Some (F_ping, False)
   | Send_message m \<Rightarrow> Some (F_text (to_json ser m), terminal_message m)
   | Send_channel_closed \<Rightarrow> None)"

text \<open>
  The frames the task has sent completely. Each event carries whether its send succeeds in time,
  the length of the queue afterwards, and whether a closing frame would get out.
\<close>

fun send_task :: "(server_message \<Rightarrow> string result) \<Rightarrow> (send_event \<times> bool \<times> nat \<times> bool) list \<Rightarrow> ws_frame list" where
  "send_task ser [] = []"
| "send_task ser ((ev, ok, queued, close_ok) # evs) =
     (case send_choice ser ev of
        None \<Rightarrow> []
      | Some (frame, terminal) \<Rightarrow>
          if \<not> ok then []
          else if terminal \<or> queued > 256 then frame # (if close_ok then [F_close] else [])
          else frame # send_task ser evs)"

section \<open>Lemmas\<close>

definition connects :: "('p, 'snd) ws_input \<Rightarrow> bool" where
  "connects inp = (case inp of In_text (Connect d) env \<Rightarrow> True | In_cancelled (Connect d) m \<Rightarrow> True | _ \<Rightarrow> False)"

definition is_invalid_message :: "server_message \<Rightarrow> bool" where
  "is_invalid_message m \<longleftrightarrow> error_code m = Some ''invalid_message''"

lemma ws_step_before_connect:
  assumes "\<not> connects i" and "hc_first_message c"
  shows "hc_manager (snd (ws_loop_step gen ops conn_id i c)) = hc_manager c \<and> hc_first_message (snd (ws_loop_step gen ops conn_id i c)) \<and>
    (\<exists>new. hc_sent (snd (ws_loop_step gen ops conn_id i c)) = hc_sent c @ new \<and> list_all is_invalid_message new)"
proof (cases i)
  case (In_text msg env)
  with assms show ?thesis by (cases msg) (auto simp: ws_loop_step_def connects_def is_connect_def)
next
  case (In_cancelled msg m)
  with assms show ?thesis by (cases msg) (auto simp: ws_loop_step_def connects_def is_connect_def)
next
  case (In_bad_text e)
  with assms show ?thesis by (auto simp: ws_loop_step_def is_invalid_message_def)
qed (use assms in \<open>auto simp: ws_loop_step_def\<close>)

lemma ws_loop_before_connect:
  "list_all (\<lambda>i. \<not> connects i) is \<Longrightarrow> hc_first_message c \<Longrightarrow>
     hc_manager (ws_loop gen ops conn_id is c) = hc_manager c \<and>
     (\<exists>new. hc_sent (ws_loop gen ops conn_id is c) = hc_sent c @ new \<and> list_all is_invalid_message new)"
proof (induction "is" arbitrary: c)
  case (Cons i xs)
  obtain l c' where st: "ws_loop_step gen ops conn_id i c = (l, c')" by fastforce
  from ws_step_before_connect [of i c gen ops conn_id] Cons.prems st obtain new where
    one: "hc_manager c' = hc_manager c" "hc_first_message c'" "hc_sent c' = hc_sent c @ new" "list_all is_invalid_message new"
    by auto
  show ?case
  proof (cases l)
    case Break
    with st one show ?thesis by auto
  next
    case Continue
    from Cons.IH [of c'] Cons.prems one(2) obtain more where "hc_manager (ws_loop gen ops conn_id xs c') = hc_manager c'"
      "hc_sent (ws_loop gen ops conn_id xs c') = hc_sent c' @ more" "list_all is_invalid_message more" by auto
    with Continue st one show ?thesis by auto
  qed
qed simp

lemma send_task_terminal:
  "list_all (\<lambda>(ev, ok, q, cl). ok \<and> q \<le> 256 \<and> (\<forall>m. ev = Send_message m \<longrightarrow> \<not> terminal_message m) \<and> ev \<noteq> Send_channel_closed) evs \<Longrightarrow>
     send_task ser (evs @ rest) = map (\<lambda>(ev, _). case ev of Send_message m \<Rightarrow> F_text (to_json ser m) | _ \<Rightarrow> F_ping) evs @ send_task ser rest"
proof (induction evs)
  case (Cons x evs)
  obtain ev ok q cl where x: "x = (ev, ok, q, cl)" by (metis prod_cases4)
  with Cons show ?case by (cases ev) (auto simp: send_choice_def)
qed simp

lemma revoke_turn_users:
  "case sm_turn (revoke_turn strong order conn_id m) of None \<Rightarrow> sm_turn m = None | Some ts \<Rightarrow> session_users (ts_credentials ts) conn_id = {}"
proof (cases "sm_turn m")
  case (Some ts)
  have "session_users (snd (revoke order conn_id (ts_credentials ts))) conn_id = {}"
    using revoke_users [of order conn_id "ts_credentials ts" conn_id] by (simp add: revoke_op_def)
  with Some show ?thesis by (simp add: revoke_turn_def turn_revoke_def case_prod_unfold Let_def)
qed (simp add: revoke_turn_def)

lemma revoke_turn_sessions [simp]: "sm_sessions (revoke_turn strong order conn_id m) = sm_sessions m"
  by (simp add: revoke_turn_def split: option.split)

definition demo_handler_env :: "(sim_peer, nat) handler_env" where
  "demo_handler_env = \<lparr>he_connect = \<lparr>ne_lookup = Inl ''dns'', ne_mumble = None, ne_media = Inl ''media'', ne_webrtc = Inl ''x''\<rparr>,
     he_issue = \<lparr>ie_draw = demo_draw, ie_order = [], ie_now = 10\<rparr>, he_speakers = []\<rparr>"

section \<open>Properties of a WebSocket connection\<close>



text \<open>
  When a connection's handler has finished, whatever the client sent and however the connection ended,
  no session is registered under its identifier and none of its TURN credentials is left.
\<close>

lemma ws_connection_leaves_nothing:
  "case handle_ws_connection gen ops strong order conn_id inputs m of (sent, m') \<Rightarrow>
     sm_sessions m' conn_id = None \<and>
     (case sm_turn m' of None \<Rightarrow> True | Some ts \<Rightarrow> session_users (ts_credentials ts) conn_id = {})"
proof -
  let ?m = "disconnect_user ops conn_id (hc_manager (ws_loop gen ops conn_id inputs \<lparr>hc_first_message = True, hc_sent = [], hc_manager = m\<rparr>))"
  show ?thesis using revoke_turn_users [where strong = strong and order = order and conn_id = conn_id and m = ?m]
    by (auto simp: handle_ws_connection_def Let_def disconnect_user_sessions split: option.splits)
qed

text \<open>
  The send task delivers messages as text frames in order, with pings in between, and a
  terminal error (\<open>mumble_disconnected\<close>, \<open>connect_failed\<close>) is the last text frame: after it the
  socket is closed and nothing queued behind it is sent.
\<close>

lemma terminal_error_closes:
  assumes "list_all (\<lambda>(ev, ok, q, cl). ok \<and> q \<le> 256 \<and> (\<forall>m. ev = Send_message m \<longrightarrow> \<not> terminal_message m) \<and> ev \<noteq> Send_channel_closed) evs"
    and "terminal_message m"
  shows "send_task ser (evs @ (Send_message m, True, q, True) # rest) =
     map (\<lambda>(ev, _). case ev of Send_message m \<Rightarrow> F_text (to_json ser m) | _ \<Rightarrow> F_ping) evs @ [F_text (to_json ser m), F_close]"
  by (simp add: send_task_terminal [OF assms(1)] send_choice_def assms(2))

end
