(* ===== verification/Http_Server.thy ===== *)
theory Http_Server
  imports Ws_Handler
begin

text \<open>
  \<open>src/src/server.rs\<close>: the HTTP routes, the admission of WebSocket connections and the order in which
  the service starts and stops. Routing, sockets and signals are outside.
\<close>

record app_state =
  ap_config :: config
  ap_websocket_slots :: semaphore
  ap_open :: nat

datatype http_status = HTTP_ok | HTTP_forbidden | HTTP_service_unavailable

datatype upgrade_response = Refused http_status | Upgraded nat nat

definition app_state_new :: "config \<Rightarrow> app_state" where
  "app_state_new c = \<lparr>ap_config = c, ap_websocket_slots = sem_new (sc_max_connections (cf_server c)), ap_open = 0\<rparr>"

definition origin_allowed :: "string list \<Rightarrow> string option \<Rightarrow> bool" where
  "origin_allowed allowed origin =
     (allowed = [] \<or> (case origin of None \<Rightarrow> True | Some o1 \<Rightarrow> list_ex (\<lambda>a. o1 = a) allowed))"

text \<open>The upgraded connection owns its slot; the two numbers are the message and frame limits.\<close>

definition ws_upgrade :: "string option \<Rightarrow> app_state \<Rightarrow> upgrade_response \<times> app_state" where
  "ws_upgrade origin st =
     (if \<not> origin_allowed (sc_allowed_origins (cf_server (ap_config st))) origin then (Refused HTTP_forbidden, st)
      else (case try_acquire_owned (ap_websocket_slots st) of
              None \<Rightarrow> (Refused HTTP_service_unavailable, st)
            | Some slots \<Rightarrow>
                (Upgraded (128 * 1024) (128 * 1024), st\<lparr>ap_websocket_slots := slots, ap_open := ap_open st + 1\<rparr>)))"

text \<open>The handler of an upgraded connection returned and dropped its slot.\<close>

definition ws_done :: "app_state \<Rightarrow> app_state" where
  "ws_done st = (if ap_open st = 0 then st else st\<lparr>ap_websocket_slots := drop_permit (ap_websocket_slots st), ap_open := ap_open st - 1\<rparr>)"

definition health_check :: string where
  "health_check = ''ok''"

record readiness_report =
  rr_status :: http_status
  rr_upstream_tcp_reachable :: bool
  rr_sessions :: nat
  rr_builtin_turn :: bool
  rr_media_udp_port :: u16

definition readiness :: "unit result option \<Rightarrow> string list \<Rightarrow> ('p, 'snd) manager \<Rightarrow> app_state \<Rightarrow> readiness_report" where
  "readiness upstream order m st =
     (let reachable = (case upstream of Some r \<Rightarrow> is_ok r | None \<Rightarrow> False)
      in \<lparr>rr_status = (if reachable then HTTP_ok else HTTP_service_unavailable), rr_upstream_tcp_reachable = reachable,
          rr_sessions = connection_count order m, rr_builtin_turn = tc_enabled (cf_turn (ap_config st)),
          rr_media_udp_port = wc_udp_port (cf_webrtc (ap_config st))\<rparr>)"

section \<open>Start and stop\<close>

datatype action = A_listen string | A_turn_start | A_media | A_serve | A_manager_close | A_turn_close

record run_env =
  rn_bind :: "unit result"
  rn_turn :: start_env
  rn_media :: "unit result"
  rn_serve :: "unit result"

text \<open>The actions of \<open>run\<close> in order, and its result.\<close>

definition run :: "run_env \<Rightarrow> config \<Rightarrow> unit result \<times> action list" where
  "run env c = (case rn_bind env of
     Inl e \<Rightarrow> (Inl e, [])
   | Inr _ \<Rightarrow>
     (let turn = (if tc_enabled (cf_turn c) then map_sum id Some (turn_start (rn_turn env) c) else Inr None)
      in case turn of
           Inl e \<Rightarrow> (Inl e, [A_listen (listen_addr c)])
         | Inr t \<Rightarrow>
           (let started = [A_listen (listen_addr c)] @ (if t = None then [] else [A_turn_start]);
                turn_close = (if t = None then [] else [A_turn_close])
            in case rn_media env of
                 Inl e \<Rightarrow> (Inl e, started @ turn_close)
               | Inr _ \<Rightarrow> (rn_serve env, started @ [A_media, A_serve, A_manager_close] @ turn_close))))"

definition ws_open_inv :: "nat \<Rightarrow> app_state \<Rightarrow> bool" where
  "ws_open_inv n st \<longleftrightarrow> available_permits (ap_websocket_slots st) + ap_open st = n"

lemma ws_upgrade_inv: "ws_open_inv n st \<Longrightarrow> ws_open_inv n (snd (ws_upgrade origin st))"
  by (auto simp: ws_upgrade_def ws_open_inv_def split: option.split dest: tokio_semaphore.acquire_Some)

lemma ws_done_inv: "ws_open_inv n st \<Longrightarrow> ws_open_inv n (ws_done st)"
  by (auto simp: ws_done_def ws_open_inv_def tokio_semaphore.avail_release)

definition ws_pool :: "app_state \<Rightarrow> slot_pool" where
  "ws_pool st = \<lparr>po_reserved = 0, po_used = ap_open st\<rparr>"

definition ws_slot_step :: "app_state \<Rightarrow> app_state \<Rightarrow> bool" where
  "ws_slot_step a b \<longleftrightarrow> (\<exists>origin. b = snd (ws_upgrade origin a)) \<or> b = ws_done a"

lemma ws_upgrade_pool:
  assumes "ws_open_inv n st"
  shows "ws_pool (snd (ws_upgrade origin st)) = ws_pool st \<or> pool_step n (ws_pool st) (ws_pool (snd (ws_upgrade origin st)))"
proof (cases "try_acquire_owned (ap_websocket_slots st)")
  case (Some slots)
  have "pool_taken (ws_pool st) < n"
    using assms tokio_semaphore.acquire_Some [OF Some] by (simp add: ws_open_inv_def ws_pool_def pool_taken_def)
  from pool_admit [OF this] Some show ?thesis by (simp add: ws_upgrade_def ws_pool_def)
qed (simp add: ws_upgrade_def)

lemma ws_done_pool: "ws_pool (ws_done st) = ws_pool st \<or> pool_step n (ws_pool st) (ws_pool (ws_done st))"
  using pool_free [of "ws_pool st" n] by (simp add: ws_done_def ws_pool_def)

interpretation websocket_slots: simulation "\<lambda>st. st = app_state_new c" ws_slot_step "ws_open_inv (sc_max_connections (cf_server c))"
  "\<lambda>q. q = pool_empty" "pool_step (sc_max_connections (cf_server c))" ws_pool for c
proof unfold_locales
  fix s :: app_state
  assume s: "s = app_state_new c"
  show "ws_open_inv (sc_max_connections (cf_server c)) s"
    using s by (simp add: ws_open_inv_def app_state_new_def tokio_semaphore.avail_new)
  show "ws_pool s = pool_empty" using s by (simp add: ws_pool_def pool_empty_def app_state_new_def)
next
  fix s t :: app_state
  assume inv: "ws_open_inv (sc_max_connections (cf_server c)) s" and st: "ws_slot_step s t"
  show "ws_pool t = ws_pool s \<or> pool_step (sc_max_connections (cf_server c)) (ws_pool s) (ws_pool t)"
    using st ws_upgrade_pool [OF inv] ws_done_pool [of s] unfolding ws_slot_step_def by metis
qed (auto simp: ws_slot_step_def intro: ws_upgrade_inv ws_done_inv)

text \<open>
  Every upgrade is from an allowed origin and holds one of the configured slots until its handler
  returns; free slots and open sockets always add up to the configured maximum.
\<close>

lemma websocket_admission:
  assumes "reachable (\<lambda>st. st = app_state_new c) ws_slot_step st"
  shows "available_permits (ap_websocket_slots st) + ap_open st = sc_max_connections (cf_server c) \<and>
    (\<forall>origin. fst (ws_upgrade origin st) =
       (if \<not> origin_allowed (sc_allowed_origins (cf_server (ap_config st))) origin then Refused HTTP_forbidden
        else if ap_open st = sc_max_connections (cf_server c) then Refused HTTP_service_unavailable
        else Upgraded 131072 131072))"
proof -
  have inv: "available_permits (ap_websocket_slots st) + ap_open st = sc_max_connections (cf_server c)"
    using websocket_slots.reachable_inv [OF assms] by (simp add: ws_open_inv_def)
  then have "try_acquire_owned (ap_websocket_slots st) = None \<longleftrightarrow> ap_open st = sc_max_connections (cf_server c)"
    using tokio_semaphore.acquire_None [of "ap_websocket_slots st"] by auto
  with inv show ?thesis by (auto simp: ws_upgrade_def split: option.split)
qed

end
