(* ===== verification/Program.thy ===== *)
theory Program
  imports Http_Server
begin

text \<open>
  \<open>src/src/main.rs\<close>: the program from its arguments to its exit. The file system, the environment,
  the TOML code and the printed form of an error are outside; logging is not modelled.
\<close>

datatype exit = Exit_ok | Exit_error string | Exit_panic

definition config_path :: "string list \<Rightarrow> string" where
  "config_path args = (case args of _ # p # _ \<Rightarrow> p | _ \<Rightarrow> ''config.toml'')"

definition load_failure :: "string \<Rightarrow> string \<Rightarrow> string" where
  "load_failure path e = ''Failed to load config from '' @ [CHR 0x27] @ path @ [CHR 0x27] @ '': '' @ e"

record program_env =
  pe_args :: "string list"
  pe_read :: "string \<Rightarrow> string option"
  pe_var :: "string \<Rightarrow> string option"
  pe_parse :: "string \<Rightarrow> toml_table option"
  pe_deserialize :: "toml_table \<Rightarrow> config option"
  pe_display :: "config_error \<Rightarrow> string"
  pe_run :: run_env

definition program_config :: "program_env \<Rightarrow> config_error + config" where
  "program_config env = load (pe_var env) (pe_parse env) (pe_deserialize env) (pe_read env (config_path (pe_args env)))"

definition main :: "program_env \<Rightarrow> exit \<times> action list" where
  "main env = (case program_config env of
     Inl Panicked \<Rightarrow> (Exit_panic, [])
   | Inl e \<Rightarrow> (Exit_error (load_failure (config_path (pe_args env)) (pe_display env e)), [])
   | Inr config \<Rightarrow> (case run (pe_run env) config of
       (Inl e, acts) \<Rightarrow> (Exit_error e, acts)
     | (Inr _, acts) \<Rightarrow> (Exit_ok, acts)))"

text \<open>The actions of \<open>run\<close>: it listens first, serves only after the media engine is up, and what was started is closed last.\<close>

definition orderly :: "config \<Rightarrow> action list \<Rightarrow> bool" where
  "orderly c acts \<longleftrightarrow>
     acts = [] \<or>
     (\<exists>turn media.
        acts = [A_listen (listen_addr c)] @ (if turn then [A_turn_start] else []) @
          (if media then [A_media, A_serve, A_manager_close] else []) @ (if turn then [A_turn_close] else []) \<and>
        (turn \<longrightarrow> tc_enabled (cf_turn c)) \<and> (media \<and> tc_enabled (cf_turn c) \<longrightarrow> turn))"

lemma run_orderly: "orderly c (snd (run env c))"
proof (cases "rn_bind env")
  case (Inl e)
  then show ?thesis by (simp add: run_def orderly_def)
next
  case (Inr u)
  show ?thesis
  proof (cases "tc_enabled (cf_turn c)")
    case True
    show ?thesis
    proof (cases "turn_start (rn_turn env) c")
      case (Inl e)
      with Inr True show ?thesis
        unfolding orderly_def by (intro disjI2 exI [of _ False]) (simp add: run_def)
    next
      case (Inr ts)
      with \<open>rn_bind env = Inr u\<close> True show ?thesis
        unfolding orderly_def
        by (intro disjI2 exI [of _ True] exI [of _ "is_ok (rn_media env)"]) (cases "rn_media env"; simp add: run_def Let_def)
    qed
  next
    case False
    with Inr show ?thesis
      unfolding orderly_def
      by (intro disjI2 exI [of _ False] exI [of _ "is_ok (rn_media env)"]) (cases "rn_media env"; simp add: run_def Let_def)
  qed
qed

section \<open>Properties of the program\<close>



end
