(* ===== verification/Session_System.thy ===== *)
theory Session_System
  imports Ws_Handler
begin

text \<open>
  The sessions, their event tasks and the WebSocket handlers together (\<open>src/src/session.rs\<close>,
  \<open>src/src/ws/handler.rs\<close>): every interleaving of the atomic parts of connects, user requests, event tasks, voice setup,
  disconnects and shutdown. An event task is the phase it is in; each phase ends at a point where the
  code waits for an event or a lock.
\<close>

section \<open>The event task of a session\<close>

datatype event_phase =
  T_pending
| T_select event_task
| T_handle event_task event_input
| T_announce event_task issue_env u32 "channel_info list" "user_info list"
| T_shutdown event_task
| T_remove event_task
| T_revoke
| T_done

definition put_session :: "nat \<Rightarrow> ('p, 'snd) user_session \<Rightarrow> ('p, 'snd) manager \<Rightarrow> ('p, 'snd) manager" where
  "put_session r s m = m\<lparr>sm_heap := (sm_heap m)(r \<mapsto> s)\<rparr>"

definition login_event :: "event_input \<Rightarrow> (issue_env \<times> u32 \<times> channel_info list \<times> user_info list) option" where
  "login_event inp = (case inp of
     E_mumble env (Some (M_connected sid channels users)) \<Rightarrow> Some (ee_issue env, sid, channels, users)
   | _ \<Rightarrow> None)"

text \<open>
  The task waits for an event (the close notification wins), handles it under the session's lock, and after
  the loop tears the session down, removes its entry and revokes the TURN credentials. A login is handled in two parts,
  because its ICE configuration is made after the lock was released.
\<close>

inductive task_step ::
  "('p, 'snd) peer_ops \<Rightarrow> string \<Rightarrow> nat \<Rightarrow> event_phase \<Rightarrow> ('p, 'snd) manager \<Rightarrow> server_message list \<Rightarrow> event_phase \<Rightarrow> ('p, 'snd) manager \<Rightarrow> bool"
  for ops :: "('p, 'snd) peer_ops" and c :: string and r :: nat where
  ts_start: "sm_heap m r = Some s \<Longrightarrow> event_task_start s = Some (et, s') \<Longrightarrow>
    task_step ops c r T_pending m [] (T_select et) (put_session r s' m)"
| ts_closed: "sm_heap m r = Some s \<Longrightarrow> event_task_start s = None \<Longrightarrow> task_step ops c r T_pending m [] T_done m"
| ts_notified: "sm_heap m r = Some s \<Longrightarrow> ur_close_notify s \<Longrightarrow>
    task_step ops c r (T_select et) m [] (T_shutdown et) (put_session r (close_taken s) m)"
| ts_select: "sm_heap m r = Some s \<Longrightarrow> \<not> ur_close_notify s \<Longrightarrow> task_step ops c r (T_select et) m [] (T_handle et inp) m"
| ts_handle: "sm_heap m r = Some s \<Longrightarrow> login_event inp = None \<Longrightarrow>
    event_handle gen ops display_state (sm_config m) c inp s (sm_turn m) et = (l, msgs, s', turn', et') \<Longrightarrow>
    task_step ops c r (T_handle et inp) m msgs (case l of Break \<Rightarrow> T_shutdown et' | Continue \<Rightarrow> T_select et') (put_session r s' m)"
| ts_login: "sm_heap m r = Some s \<Longrightarrow> login_event inp = Some (env, sid, channels, users) \<Longrightarrow>
    et' = et\<lparr>et_user_map := insert_names users (et_user_map et)\<rparr> \<Longrightarrow>
    task_step ops c r (T_handle et inp) m [] (if ur_closed s then T_shutdown et' else T_announce et' env sid channels users)
      (if ur_closed s then m else put_session r (login_session sid users s) m)"
| ts_announce: "announce_login gen env (sm_config m) c sid channels users (sm_turn m) = (msg, turn') \<Longrightarrow>
    task_step ops c r (T_announce et env sid channels users) m [msg] (T_select et) (m\<lparr>sm_turn := turn'\<rparr>)"
| ts_shutdown: "task_step ops c r (T_shutdown et) m [] (T_remove et) (shutdown_ref ops r m)"
| ts_remove: "finish_remove c r (et_terminal et) m = (removed, msgs, m') \<Longrightarrow> task_step ops c r (T_remove et) m msgs T_revoke m'"
| ts_revoke: "task_step ops c r T_revoke m [] T_done (revoke_turn strong order c m)"

section \<open>The whole system\<close>

text \<open>
  \<open>sy_open\<close> are the connections whose handler still runs; a handler makes requests only for its own
  connection and revokes its credentials when it leaves, after it removed its session. \<open>sy_tasks\<close> are the event tasks, with the
  connection each belongs to.
\<close>

record ('p, 'snd) system =
  sy_mgr :: "('p, 'snd) manager"
  sy_tasks :: "nat \<rightharpoonup> string \<times> event_phase"
  sy_open :: "string set"

definition system_new :: "config \<Rightarrow> turn_service option \<Rightarrow> ('p, 'snd) system" where
  "system_new c t = \<lparr>sy_mgr = with_turn t (manager_new c), sy_tasks = Map.empty, sy_open = {}\<rparr>"

definition spawn_events :: "nat \<Rightarrow> string \<Rightarrow> unit result \<Rightarrow> (nat \<rightharpoonup> string \<times> event_phase) \<Rightarrow> (nat \<rightharpoonup> string \<times> event_phase)" where
  "spawn_events r c res tasks = (if is_ok res then tasks(r \<mapsto> (c, T_pending)) else tasks)"

inductive sys_step :: "('p, 'snd) peer_ops \<Rightarrow> ('p, 'snd) system \<Rightarrow> ('p, 'snd) system \<Rightarrow> bool"
  for ops :: "('p, 'snd) peer_ops" where
  sy_accept: "sys_step ops y (y\<lparr>sy_open := insert c (sy_open y)\<rparr>)"
| sy_reserve: "c \<in> sy_open y \<Longrightarrow> sys_step ops y (y\<lparr>sy_mgr := snd (connect_reserve c (sy_mgr y))\<rparr>)"
| sy_media: "sys_step ops y (y\<lparr>sy_mgr := snd (initialize_media created (sy_mgr y))\<rparr>)"
| sy_abort: "0 < sm_inflight (sy_mgr y) \<Longrightarrow> sys_step ops y (y\<lparr>sy_mgr := connect_abort (sy_mgr y)\<rparr>)"
| sy_install: "c \<in> sy_open y \<Longrightarrow> 0 < sm_inflight (sy_mgr y) \<Longrightarrow> ws_fresh w \<Longrightarrow> connect_install ops c username w (sy_mgr y) = (res, m') \<Longrightarrow>
    sys_step ops y (y\<lparr>sy_mgr := m', sy_tasks := spawn_events (sm_next (sy_mgr y)) c res (sy_tasks y)\<rparr>)"
| sy_user: "c \<in> sy_open y \<Longrightarrow> sm_sessions (sy_mgr y) c = Some r \<Longrightarrow> sm_heap (sy_mgr y) r = Some s \<Longrightarrow>
    session_step ops By_user s msgs s' \<Longrightarrow> sys_step ops y (y\<lparr>sy_mgr := put_session r s' (sy_mgr y)\<rparr>)"
| sy_refresh: "c \<in> sy_open y \<Longrightarrow> sys_step ops y (y\<lparr>sy_mgr := snd (snd (manager_refresh_ice gen env c (sy_mgr y)))\<rparr>)"
| sy_background: "k \<in> {By_setup_task, By_downlink, By_mumble} \<Longrightarrow> sm_heap (sy_mgr y) r = Some s \<Longrightarrow>
    session_step ops k s msgs s' \<Longrightarrow> sys_step ops y (y\<lparr>sy_mgr := put_session r s' (sy_mgr y)\<rparr>)"
| sy_task: "sy_tasks y r = Some (c, ph) \<Longrightarrow> task_step ops c r ph (sy_mgr y) msgs ph' m' \<Longrightarrow>
    sys_step ops y (y\<lparr>sy_mgr := m', sy_tasks := (sy_tasks y)(r \<mapsto> (c, ph'))\<rparr>)"
| sy_remove: "sys_step ops y (y\<lparr>sy_mgr := snd (disconnect_remove c (sy_mgr y))\<rparr>)"
| sy_teardown: "r \<in> sm_teardown (sy_mgr y) \<Longrightarrow> sys_step ops y (y\<lparr>sy_mgr := teardown_run ops r (sy_mgr y)\<rparr>)"
| sy_leave: "c \<in> sy_open y \<Longrightarrow> sm_sessions (sy_mgr y) c = None \<Longrightarrow>
    sys_step ops y (y\<lparr>sy_mgr := revoke_turn strong order c (sy_mgr y), sy_open := sy_open y - {c}\<rparr>)"
| sy_shutdown: "sys_step ops y (y\<lparr>sy_mgr := begin_shutdown (sy_mgr y)\<rparr>)"
| sy_media_close: "sys_step ops y (y\<lparr>sy_mgr := (sy_mgr y)\<lparr>sm_media := map_option media_api_close (sm_media (sy_mgr y))\<rparr>\<rparr>)"

section \<open>The system refines the manager\<close>

lemma put_step: "sm_heap m r = Some s \<Longrightarrow> session_step ops k s msgs s' \<Longrightarrow> mgr_step ops m (put_session r s' m)"
  unfolding put_session_def by (rule ms_session)

lemma revoke_step: "revoke_turn strong order c m = m \<or> mgr_step ops m (revoke_turn strong order c m)"
  by (auto simp: revoke_turn_def intro: ms_turn split: option.split)

lemma login_is_event:
  assumes "login_event inp = Some (env, sid, channels, users)" and "\<not> ur_closed s"
  shows "\<exists>msgs. session_step ops By_event_task s msgs (login_session sid users s)"
proof -
  from assms(1) obtain env0 where i: "inp = E_mumble env0 (Some (M_connected sid channels users))"
    by (auto simp: login_event_def split: event_input.splits option.splits mumble_event.splits)
  obtain gen :: auth_key_fn and display_state :: "peer_connection_state \<Rightarrow> string" and config :: config and et :: event_task where True by simp
  obtain msg turn' where a: "announce_login gen (ee_issue env0) config [] sid channels users None = (msg, turn')" by fastforce
  have "event_handle gen ops display_state config [] inp s None et =
      (Continue, [msg], login_session sid users s, turn', et\<lparr>et_user_map := insert_names users (et_user_map et)\<rparr>)"
    using assms(2) by (simp add: i event_handle_def handle_mumble_event_def on_connected_def a)
  then show ?thesis by (blast intro: ss_event)
qed

lemma task_step_mgr: "task_step ops c r ph m msgs ph' m' \<Longrightarrow> m' = m \<or> mgr_step ops m m' \<or> (\<exists>et. ph = T_remove et)"
proof (induction rule: task_step.induct)
  case (ts_login m s inp env sid channels users et' et)
  then show ?case using login_is_event [OF ts_login(2)] put_step [OF ts_login(1)] by fastforce
next
  case (ts_announce gen env m sid channels users msg turn' et)
  then show ?case by (auto intro: ms_turn)
next
  case (ts_revoke m strong order)
  then show ?case using revoke_step [of strong order c m ops] by auto
qed (auto intro: ms_finish_shutdown put_step ss_event_start ss_close_taken ss_event)

lemma finish_remove_step:
  assumes "sm_heap m r = Some s" and "\<not> ur_slot s" and "finish_remove c r e m = (b, msgs, m')"
  shows "mgr_step ops m m'"
  using ms_finish_remove [OF assms(1,2), of ops c e] assms(3) by simp

lemma refresh_step: "m' = snd (snd (manager_refresh_ice gen env c m)) \<Longrightarrow> m' = m \<or> mgr_step ops m m'"
  by (auto simp: manager_refresh_ice_def intro: ms_turn split: sum.split option.split prod.split)

section \<open>What every task and every session keeps\<close>

text \<open>
  \<open>phase_ok reg s ph\<close>: a registered session is closed only between the last two parts of its own
  task; a task that is waiting or handling an event in a closed session has its close notification
  still ahead; a finished task leaves a closed session that is no longer registered.
\<close>

primrec phase_ok :: "bool \<Rightarrow> ('p, 'snd) user_session \<Rightarrow> event_phase \<Rightarrow> bool" where
  "phase_ok reg s T_pending \<longleftrightarrow> (ur_closed s \<longrightarrow> \<not> reg)"
| "phase_ok reg s (T_select et) \<longleftrightarrow> (ur_closed s \<longrightarrow> \<not> reg \<and> ur_close_notify s)"
| "phase_ok reg s (T_handle et inp) \<longleftrightarrow> (ur_closed s \<longrightarrow> \<not> reg \<and> ur_close_notify s)"
| "phase_ok reg s (T_announce et env sid channels users) \<longleftrightarrow> (ur_closed s \<longrightarrow> \<not> reg \<and> ur_close_notify s)"
| "phase_ok reg s (T_shutdown et) \<longleftrightarrow> (ur_closed s \<longrightarrow> \<not> reg)"
| "phase_ok reg s (T_remove et) \<longleftrightarrow> ur_closed s"
| "phase_ok reg s T_revoke \<longleftrightarrow> ur_closed s \<and> \<not> reg"
| "phase_ok reg s T_done \<longleftrightarrow> ur_closed s \<and> \<not> reg"

definition session_ok :: "bool \<Rightarrow> ('p, 'snd) user_session \<Rightarrow> (string \<times> event_phase) option \<Rightarrow> bool" where
  "session_ok reg s tk \<longleftrightarrow> session_wf s \<and> (case tk of None \<Rightarrow> \<not> reg | Some (c, ph) \<Rightarrow> phase_ok reg s ph)"

definition tasks_inv :: "('p, 'snd) system \<Rightarrow> bool" where
  "tasks_inv y \<longleftrightarrow>
     dom (sy_tasks y) \<subseteq> dom (sm_heap (sy_mgr y)) \<and>
     sm_teardown (sy_mgr y) \<subseteq> dom (sm_heap (sy_mgr y)) \<and>
     sm_teardown (sy_mgr y) \<inter> ran (sm_sessions (sy_mgr y)) = {} \<and>
     (\<forall>c r. sm_sessions (sy_mgr y) c = Some r \<longrightarrow> (\<exists>ph. sy_tasks y r = Some (c, ph))) \<and>
     (\<forall>r s. sm_heap (sy_mgr y) r = Some s \<longrightarrow> session_ok (r \<in> ran (sm_sessions (sy_mgr y))) s (sy_tasks y r))"

definition sys_inv :: "nat \<Rightarrow> ('p, 'snd) system \<Rightarrow> bool" where
  "sys_inv n y \<longleftrightarrow> mgr_inv n (sy_mgr y) \<and> tasks_inv y"

lemma phase_unregister: "phase_ok reg s ph \<Longrightarrow> phase_ok False s ph"
  by (cases ph) auto

lemma session_unregister: "session_ok reg s tk \<Longrightarrow> session_ok False s tk"
  by (auto simp: session_ok_def intro: phase_unregister split: option.splits)

lemma phase_flags: "session_flags s' = session_flags s \<Longrightarrow> phase_ok reg s' ph = phase_ok reg s ph"
  by (cases ph) (auto simp: session_flags_def)

lemma session_ok_step:
  assumes "session_ok reg s tk" and "session_step ops k s msgs s'" and "k \<noteq> By_event_task"
  shows "session_ok reg s' tk"
proof -
  have "session_flags s' = session_flags s" using session_step_flags [OF assms(2)] assms(3) by auto
  with assms session_step_wf [OF assms(2)] phase_flags [of s' s] show ?thesis
    by (auto simp: session_ok_def split: option.splits)
qed

lemma phase_teardown: "session_wf s \<Longrightarrow> phase_ok False s ph \<Longrightarrow> phase_ok False (shutdown_user_session ops s) ph"
proof (cases "ur_slot s")
  case True
  then show ?thesis by (cases ph) (simp_all add: shutdown_fields)
qed (simp add: shutdown_user_session_def)

lemma session_ok_teardown: "session_ok False s tk \<Longrightarrow> session_ok False (shutdown_user_session ops s) tk"
  by (auto simp: session_ok_def intro: shutdown_wf phase_teardown split: option.splits)

lemma shutdown_closed: "session_wf s \<Longrightarrow> ur_closed (shutdown_user_session ops s)"
proof (cases "ur_slot s")
  case True
  then show ?thesis by (simp add: shutdown_fields)
next
  case False
  assume "session_wf s"
  with False show ?thesis by (simp add: shutdown_user_session_def session_wf_def)
qed

lemma session_ok_weaken: "session_ok reg s tk \<Longrightarrow> (reg' \<longrightarrow> reg) \<Longrightarrow> session_ok reg' s tk"
  by (cases reg') (auto dest: session_unregister)

lemma tasks_served: "tasks_inv y \<Longrightarrow> sm_sessions (sy_mgr y) c = Some r \<Longrightarrow> \<exists>ph. sy_tasks y r = Some (c, ph)"
  by (simp add: tasks_inv_def)

lemma tasks_session_ok: "tasks_inv y \<Longrightarrow> sm_heap (sy_mgr y) r = Some s \<Longrightarrow> session_ok (r \<in> ran (sm_sessions (sy_mgr y))) s (sy_tasks y r)"
  by (simp add: tasks_inv_def)

lemma tasks_doms:
  assumes "tasks_inv y"
  shows "dom (sy_tasks y) \<subseteq> dom (sm_heap (sy_mgr y))" "sm_teardown (sy_mgr y) \<subseteq> dom (sm_heap (sy_mgr y))"
    "sm_teardown (sy_mgr y) \<inter> ran (sm_sessions (sy_mgr y)) = {}" "ran (sm_sessions (sy_mgr y)) \<subseteq> dom (sm_heap (sy_mgr y))"
proof -
  show d: "dom (sy_tasks y) \<subseteq> dom (sm_heap (sy_mgr y))" "sm_teardown (sy_mgr y) \<subseteq> dom (sm_heap (sy_mgr y))"
    "sm_teardown (sy_mgr y) \<inter> ran (sm_sessions (sy_mgr y)) = {}" using assms by (simp_all add: tasks_inv_def)
  show "ran (sm_sessions (sy_mgr y)) \<subseteq> dom (sm_heap (sy_mgr y))"
  proof
    fix r
    assume "r \<in> ran (sm_sessions (sy_mgr y))"
    then obtain c where "sm_sessions (sy_mgr y) c = Some r" by (auto simp: ran_def)
    from tasks_served [OF assms this] d(1) show "r \<in> dom (sm_heap (sy_mgr y))" by blast
  qed
qed

lemma tasks_put:
  assumes inv: "tasks_inv y" and s: "sm_heap (sy_mgr y) r = Some s"
    and ok: "session_ok (r \<in> ran (sm_sessions (sy_mgr y))) s' (t' r)"
    and m': "sm_sessions m' = sm_sessions (sy_mgr y)" "sm_teardown m' \<subseteq> sm_teardown (sy_mgr y)" "sm_heap m' = (sm_heap (sy_mgr y))(r \<mapsto> s')"
    and t': "\<And>q. q \<noteq> r \<Longrightarrow> t' q = sy_tasks y q" "map_option fst (t' r) = map_option fst (sy_tasks y r)"
  shows "tasks_inv (y\<lparr>sy_mgr := m', sy_tasks := t'\<rparr>)"
proof -
  have served: "\<exists>ph. t' q = Some (c, ph)" if "sm_sessions (sy_mgr y) c = Some q" for c q
    using tasks_served [OF inv that] t'(1) [of q] t'(2) by (cases "q = r"; cases "t' r") auto
  have "dom t' \<subseteq> dom (sm_heap (sy_mgr y))"
  proof
    fix q
    assume "q \<in> dom t'"
    then have "q = r \<or> q \<in> dom (sy_tasks y)" using t'(1) [of q] by (metis domIff)
    with s tasks_doms(1) [OF inv] show "q \<in> dom (sm_heap (sy_mgr y))" by auto
  qed
  moreover have "session_ok (q \<in> ran (sm_sessions (sy_mgr y))) u (t' q)" if "sm_heap m' q = Some u" for q u
    using that ok m'(3) t'(1) [of q] tasks_session_ok [OF inv, of q u] by (cases "q = r") auto
  ultimately show ?thesis
    using tasks_doms [OF inv] served m' unfolding tasks_inv_def by (simp del: fun_upd_apply) blast
qed

lemma tasks_session:
  assumes "tasks_inv y" and "sm_heap (sy_mgr y) r = Some s"
    and "session_ok (r \<in> ran (sm_sessions (sy_mgr y))) s' (sy_tasks y r)"
    and "sm_sessions m' = sm_sessions (sy_mgr y)" "sm_teardown m' \<subseteq> sm_teardown (sy_mgr y)" "sm_heap m' = (sm_heap (sy_mgr y))(r \<mapsto> s')"
  shows "tasks_inv (y\<lparr>sy_mgr := m'\<rparr>)"
  using tasks_put [where t' = "sy_tasks y", OF assms(1-3) assms(4-6)] by simp

lemma tasks_same:
  assumes "tasks_inv y" and "sm_sessions m' = sm_sessions (sy_mgr y) \<and> sm_teardown m' = sm_teardown (sy_mgr y) \<and> sm_heap m' = sm_heap (sy_mgr y)"
  shows "tasks_inv (y\<lparr>sy_mgr := m'\<rparr>)"
  using assms by (simp add: tasks_inv_def)

lemma tasks_open: "tasks_inv (y\<lparr>sy_open := os\<rparr>) = tasks_inv y"
  by (simp add: tasks_inv_def)

lemma unregistered:
  assumes "tasks_inv y" and "sm_sessions (sy_mgr y) c = Some r"
  shows "r \<notin> ran ((sm_sessions (sy_mgr y))(c := None))"
proof
  assume "r \<in> ran ((sm_sessions (sy_mgr y))(c := None))"
  then obtain c' where c': "c' \<noteq> c" "sm_sessions (sy_mgr y) c' = Some r" by (auto simp: ran_def split: if_splits)
  from assms c'(2) obtain ph ph' where "sy_tasks y r = Some (c, ph)" "sy_tasks y r = Some (c', ph')"
    unfolding tasks_inv_def by blast
  with c'(1) show False by simp
qed

lemma tasks_unregister:
  assumes inv: "tasks_inv y"
    and m': "sm_sessions m' = (sm_sessions (sy_mgr y))(c := None)" "sm_heap m' = sm_heap (sy_mgr y)"
      "sm_teardown m' \<subseteq> sm_teardown (sy_mgr y) \<union> set_option (sm_sessions (sy_mgr y) c)"
  shows "tasks_inv (y\<lparr>sy_mgr := m'\<rparr>)"
proof -
  have sub: "ran ((sm_sessions (sy_mgr y))(c := None)) \<subseteq> ran (sm_sessions (sy_mgr y))" by (auto simp: ran_def)
  let ?f = "(sm_sessions (sy_mgr y))(c := None)"
  have "session_ok (r \<in> ran ?f) s (sy_tasks y r)" if "sm_heap (sy_mgr y) r = Some s" for r s
    using sub by (intro session_ok_weaken [OF tasks_session_ok [OF inv that]]) blast
  moreover have "set_option (sm_sessions (sy_mgr y) c) \<subseteq> dom (sm_heap (sy_mgr y))"
    using tasks_doms(4) [OF inv] by (cases "sm_sessions (sy_mgr y) c") (auto intro: ranI)
  moreover have "set_option (sm_sessions (sy_mgr y) c) \<inter> ran ?f = {}"
    using unregistered [OF inv, of c] by (cases "sm_sessions (sy_mgr y) c") auto
  moreover have "\<exists>ph. sy_tasks y r = Some (k, ph)" if "?f k = Some r" for k r
    using that by (intro tasks_served [OF inv]) (auto split: if_splits)
  moreover note tasks_doms [OF inv]
  ultimately show ?thesis unfolding tasks_inv_def using m' sub by (simp del: fun_upd_apply) blast
qed

text \<open>One lemma for each way a step changes the manager.\<close>

lemma shutdown_ref_heap: "sm_heap m r = Some s \<Longrightarrow> sm_heap (shutdown_ref ops r m) = (sm_heap m)(r \<mapsto> shutdown_user_session ops s)"
  by (simp add: shutdown_ref_def)

lemma tasks_teardown:
  assumes inv: "tasks_inv y" and r: "r \<in> sm_teardown (sy_mgr y)"
  shows "tasks_inv (y\<lparr>sy_mgr := teardown_run ops r (sy_mgr y)\<rparr>)"
proof -
  from tasks_doms [OF inv] r obtain s where s: "sm_heap (sy_mgr y) r = Some s" and nr: "r \<notin> ran (sm_sessions (sy_mgr y))" by blast
  have "session_ok (r \<in> ran (sm_sessions (sy_mgr y))) (shutdown_user_session ops s) (sy_tasks y r)"
    using session_ok_teardown tasks_session_ok [OF inv s] nr by auto
  then show ?thesis
    by (rule tasks_session [OF inv s]) (auto simp: teardown_run_def shutdown_ref_heap [OF s])
qed

lemma tasks_install:
  assumes inv: "tasks_inv y" and mi: "mgr_inv n (sy_mgr y)" and w: "ws_fresh w"
    and inst: "connect_install ops c username w (sy_mgr y) = (res, m')"
  shows "tasks_inv (y\<lparr>sy_mgr := m', sy_tasks := spawn_events (sm_next (sy_mgr y)) c res (sy_tasks y)\<rparr>)"
proof -
  let ?m = "sy_mgr y" let ?r = "sm_next ?m"
  have "?r \<notin> dom (sm_heap ?m)" using mi by (auto simp: mgr_inv_def)
  with tasks_doms [OF inv] have fresh: "sm_heap ?m ?r = None" "?r \<notin> ran (sm_sessions ?m)" "?r \<notin> sm_teardown ?m" "sy_tasks y ?r = None"
    by (auto simp: domIff)
  note wf = user_session_new_wf [OF w, of username]
  have others: "session_ok (q \<in> ran (sm_sessions ?m)) s (sy_tasks y q)" if "sm_heap ?m q = Some s" for q s
    by (rule tasks_session_ok [OF inv that])
  show ?thesis
  proof (cases "sm_sessions ?m c")
    case None
    let ?f = "(sm_sessions ?m)(c \<mapsto> ?r)"
    from None inst have res: "is_ok res"
      and m': "sm_sessions m' = ?f" "sm_heap m' = (sm_heap ?m)(?r \<mapsto> user_session_new w username)" "sm_teardown m' = sm_teardown ?m"
      by (auto simp: connect_install_def Let_def)
    have ran: "ran ?f = insert ?r (ran (sm_sessions ?m))" using None by (rule ran_map_upd)
    have "session_ok True (user_session_new w username) (Some (c, T_pending))"
      using wf by (simp add: session_ok_def user_session_new_def)
    moreover have "\<exists>ph. ((sy_tasks y)(?r \<mapsto> (c, T_pending))) q = Some (k, ph)" if "?f k = Some q" for k q
    proof (cases "k = c")
      case False
      with that have "sm_sessions ?m k = Some q" by simp
      with tasks_served [OF inv this] fresh(2) show ?thesis by (auto simp: ran_def)
    qed (use that in simp)
    ultimately show ?thesis
      using tasks_doms [OF inv] others res fresh unfolding tasks_inv_def by (auto simp: spawn_events_def m' ran)
  next
    case (Some q)
    let ?s = "shutdown_user_session ops (user_session_new w username)"
    from Some inst have res: "\<not> is_ok res"
      and m': "sm_sessions m' = sm_sessions ?m" "sm_heap m' = (sm_heap ?m)(?r \<mapsto> ?s)" "sm_teardown m' = sm_teardown ?m"
      by (auto simp: connect_install_def Let_def shutdown_ref_def)
    have "session_ok False ?s None" using shutdown_wf [OF wf] by (simp add: session_ok_def)
    then show ?thesis
      using tasks_doms [OF inv] others res fresh tasks_served [OF inv] unfolding tasks_inv_def by (auto simp: spawn_events_def m')
  qed
qed

lemma tasks_finish_remove:
  assumes inv: "tasks_inv y" and t: "sy_tasks y r = Some (c, T_remove et)" and s: "sm_heap (sy_mgr y) r = Some s"
    and f: "finish_remove c r e (sy_mgr y) = (b, msgs, m')"
  shows "tasks_inv (y\<lparr>sy_mgr := m', sy_tasks := (sy_tasks y)(r \<mapsto> (c, T_revoke))\<rparr>)"
proof -
  have ok: "session_wf s" "ur_closed s" using tasks_session_ok [OF inv s] t by (auto simp: session_ok_def)
  let ?y = "y\<lparr>sy_mgr := m'\<rparr>"
  have inv': "tasks_inv ?y \<and> r \<notin> ran (sm_sessions m') \<and> sm_heap m' = sm_heap (sy_mgr y)"
  proof (cases "sm_sessions (sy_mgr y) c = Some r")
    case True
    with f have m': "m' = (sy_mgr y)\<lparr>sm_sessions := (sm_sessions (sy_mgr y))(c := None)\<rparr>" by (simp add: finish_remove_def)
    have "tasks_inv (y\<lparr>sy_mgr := m'\<rparr>)" by (rule tasks_unregister [OF inv, of _ c]) (auto simp: m')
    with unregistered [OF inv True] m' show ?thesis by simp
  next
    case False
    with f have m': "m' = sy_mgr y" by (simp add: finish_remove_def)
    have "r \<notin> ran (sm_sessions (sy_mgr y))"
      using tasks_served [OF inv, of _ r] t False by (auto simp: ran_def)
    with inv m' show ?thesis by simp
  qed
  then have i: "tasks_inv ?y" and h: "sm_heap (sy_mgr ?y) r = Some s" and nr: "r \<notin> ran (sm_sessions (sy_mgr ?y))" using s by auto
  have "tasks_inv (?y\<lparr>sy_mgr := m', sy_tasks := (sy_tasks y)(r \<mapsto> (c, T_revoke))\<rparr>)"
    by (rule tasks_put [OF i h, where s' = s]) (use nr ok t h in \<open>auto simp: session_ok_def\<close>)
  then show ?thesis by simp
qed

lemma session_ok_phase:
  assumes "session_ok reg s (Some (c, ph))" and "session_step ops k s msgs s'" and "phase_ok reg s' ph'"
  shows "session_ok reg s' (Some (c, ph'))"
  using assms session_step_wf [OF assms(2)] by (simp add: session_ok_def)

lemma tasks_task_step:
  assumes inv: "tasks_inv y" and t: "sy_tasks y r = Some (c, ph)" and st: "task_step ops c r ph (sy_mgr y) msgs ph' m'"
  shows "tasks_inv (y\<lparr>sy_mgr := m', sy_tasks := (sy_tasks y)(r \<mapsto> (c, ph'))\<rparr>)"
proof -
  let ?reg = "r \<in> ran (sm_sessions (sy_mgr y))"
  from tasks_doms(1) [OF inv] t obtain s where s: "sm_heap (sy_mgr y) r = Some s" by blast
  have ok: "session_ok ?reg s (Some (c, ph))" using tasks_session_ok [OF inv s] t by simp
  have put: "tasks_inv (y\<lparr>sy_mgr := m1, sy_tasks := (sy_tasks y)(r \<mapsto> (c, ph1))\<rparr>)"
    if "session_ok ?reg s' (Some (c, ph1))" "sm_sessions m1 = sm_sessions (sy_mgr y)" "sm_teardown m1 = sm_teardown (sy_mgr y)"
      "sm_heap m1 = (sm_heap (sy_mgr y))(r \<mapsto> s')" for s' ph1 m1
    by (rule tasks_put [OF inv s, where s' = s']) (use that t in auto)
  have move: "tasks_inv (y\<lparr>sy_mgr := put_session r s' (sy_mgr y), sy_tasks := (sy_tasks y)(r \<mapsto> (c, ph1))\<rparr>)"
    if "session_step ops k s ls s'" "phase_ok ?reg s' ph1" for k ls s' ph1
    using session_ok_phase [OF ok that] by (rule put) (simp_all add: put_session_def)
  have idle: "(sm_heap (sy_mgr y))(r \<mapsto> s) = sm_heap (sy_mgr y)" using s by (simp add: fun_upd_idem)
  from st show ?thesis
  proof (cases rule: task_step.cases)
    case (ts_start s1 et s')
    with s have e: "event_task_start s = Some (et, s')" by simp
    then have "phase_ok ?reg s' (T_select et)" by (auto simp: event_task_start_def split: if_splits)
    with move [OF ss_event_start [OF e]] ts_start show ?thesis by simp
  next
    case (ts_closed s1)
    with s have "ur_closed s" by (auto simp: event_task_start_def split: if_splits)
    with ok ts_closed put [of s T_done "sy_mgr y"] idle show ?thesis by (simp add: session_ok_def)
  next
    case (ts_notified s1 et)
    then have "phase_ok ?reg (close_taken s) (T_shutdown et)" using ok by (auto simp: session_ok_def close_taken_def)
    with move [OF ss_close_taken] ts_notified s show ?thesis by simp
  next
    case (ts_select s1 et inp)
    with ok put [of s ph' "sy_mgr y"] idle show ?thesis by (simp add: session_ok_def)
  next
    case (ts_handle s1 inp gen display_state et l s' turn' et')
    with s have e: "event_handle gen ops display_state (sm_config (sy_mgr y)) c inp s (sm_turn (sy_mgr y)) et = (l, msgs, s', turn', et')" by simp
    have "ur_closed s' = ur_closed s" "ur_close_notify s' = ur_close_notify s"
      using event_handle_flags [OF e] by (simp_all add: session_flags_def)
    then have "phase_ok ?reg s' (T_handle et inp)" using ok ts_handle by (simp add: session_ok_def)
    then have "phase_ok ?reg s' ph'" using ts_handle by (cases l) auto
    with move [OF ss_event [OF e]] ts_handle show ?thesis by simp
  next
    case (ts_login s1 inp env sid channels users et' et)
    show ?thesis
    proof (cases "ur_closed s")
      case True
      with ok ts_login s put [of s ph' "sy_mgr y"] idle show ?thesis by (simp add: session_ok_def)
    next
      case False
      have "login_event inp = Some (env, sid, channels, users)" using ts_login by simp
      from login_is_event [OF this False] obtain ls where e: "session_step ops By_event_task s ls (login_session sid users s)" by blast
      have "phase_ok ?reg (login_session sid users s) ph'" using False ts_login s by (simp add: login_session_def)
      with move [OF e] ts_login s False show ?thesis by simp
    qed
  next
    case (ts_announce gen env sid channels users msg turn' et)
    with ok put [of s ph' m'] idle show ?thesis by (simp add: session_ok_def)
  next
    case (ts_shutdown et)
    have "session_wf s" using ok by (simp add: session_ok_def)
    then have "session_ok ?reg (shutdown_user_session ops s) (Some (c, T_remove et))"
      by (simp add: session_ok_def shutdown_wf shutdown_closed)
    with put [of "shutdown_user_session ops s" "T_remove et" m'] ts_shutdown show ?thesis by (simp add: shutdown_ref_heap [OF s])
  next
    case (ts_remove et removed)
    with tasks_finish_remove [OF inv _ s] t show ?thesis by simp
  next
    case (ts_revoke strong order)
    have "sm_heap m' = sm_heap (sy_mgr y) \<and> sm_teardown m' = sm_teardown (sy_mgr y) \<and> sm_sessions m' = sm_sessions (sy_mgr y)"
      using ts_revoke by (simp add: revoke_turn_def split: option.split)
    with ok ts_revoke put [of s T_done m'] idle show ?thesis by (simp add: session_ok_def)
  qed
qed

lemma sys_step_tasks:
  assumes "sys_step ops y y'" and mi: "mgr_inv n (sy_mgr y)" and inv: "tasks_inv y"
  shows "tasks_inv y'"
  using assms(1)
proof (cases rule: sys_step.cases)
  case (sy_install c w username res m')
  then show ?thesis using tasks_install [OF inv mi] by simp
next
  case (sy_user c r s msgs s')
  then have "session_ok (r \<in> ran (sm_sessions (sy_mgr y))) s' (sy_tasks y r)"
    by (intro session_ok_step [OF tasks_session_ok [OF inv sy_user(4)] sy_user(5)]) auto
  then show ?thesis unfolding sy_user(1) by (rule tasks_session [OF inv sy_user(4)]) (simp_all add: put_session_def)
next
  case (sy_background k r s msgs s')
  then have "session_ok (r \<in> ran (sm_sessions (sy_mgr y))) s' (sy_tasks y r)"
    by (intro session_ok_step [OF tasks_session_ok [OF inv sy_background(3)] sy_background(4)]) auto
  then show ?thesis unfolding sy_background(1) by (rule tasks_session [OF inv sy_background(3)]) (simp_all add: put_session_def)
next
  case (sy_task r c ph msgs ph' m')
  then show ?thesis using tasks_task_step [OF inv] by simp
next
  case (sy_remove c)
  then show ?thesis
  proof (cases "sm_sessions (sy_mgr y) c")
    case (Some r)
    then show ?thesis unfolding sy_remove by (intro tasks_unregister [OF inv, of _ c]) (auto simp: disconnect_remove_def)
  qed (use inv in \<open>simp add: disconnect_remove_def\<close>)
next
  case (sy_teardown r)
  then show ?thesis using tasks_teardown [OF inv] by simp
next
  case (sy_leave c strong order)
  have "tasks_inv (y\<lparr>sy_mgr := revoke_turn strong order c (sy_mgr y)\<rparr>)"
    by (rule tasks_same [OF inv]) (simp add: revoke_turn_def split: option.split)
  then show ?thesis unfolding sy_leave by (simp add: tasks_inv_def)
next
  case (sy_accept c)
  with inv show ?thesis by (simp add: tasks_open)
next
  case (sy_reserve c)
  show ?thesis unfolding sy_reserve by (rule tasks_same [OF inv]) (simp add: connect_reserve_def split: option.split)
next
  case (sy_media created)
  show ?thesis unfolding sy_media by (rule tasks_same [OF inv]) (simp add: initialize_media_def split: option.split sum.split)
next
  case (sy_refresh c gen env)
  show ?thesis unfolding sy_refresh
    by (rule tasks_same [OF inv]) (simp add: manager_refresh_ice_def split: option.split sum.split prod.split)
qed (auto intro!: tasks_same [OF inv] simp: connect_abort_def begin_shutdown_def)

lemma sys_step_mgr:
  assumes "sys_step ops y y'" and inv: "tasks_inv y"
  shows "sy_mgr y' = sy_mgr y \<or> mgr_step ops (sy_mgr y) (sy_mgr y')"
  using assms(1)
proof (cases rule: sys_step.cases)
  case (sy_task r c ph msgs ph' m')
  show ?thesis
  proof (cases "\<exists>et. ph = T_remove et")
    case True
    then obtain et where ph: "ph = T_remove et" ..
    from tasks_doms(1) [OF inv] sy_task(2) obtain s where s: "sm_heap (sy_mgr y) r = Some s" by blast
    have "\<not> ur_slot s" using tasks_session_ok [OF inv s] sy_task(2) ph by (simp add: session_ok_def session_wf_def)
    moreover obtain b msgs' where "finish_remove c r (et_terminal et) (sy_mgr y) = (b, msgs', m')"
      using sy_task(3) unfolding ph by (auto elim: task_step.cases)
    ultimately have "mgr_step ops (sy_mgr y) m'" using finish_remove_step [OF s] by blast
    with sy_task(1) show ?thesis by simp
  next
    case False
    with task_step_mgr [OF sy_task(3)] sy_task(1) show ?thesis by auto
  qed
next
  case (sy_install c w username res m')
  then show ?thesis using ms_install [of "sy_mgr y" ops c username w] by simp
next
  case (sy_user c r s msgs s')
  then show ?thesis using put_step [OF sy_user(4,5)] by simp
next
  case (sy_background k r s msgs s')
  then show ?thesis using put_step [OF sy_background(3,4)] by simp
next
  case (sy_refresh c gen env)
  then show ?thesis using refresh_step [of "sy_mgr y'" gen env c "sy_mgr y" ops] by simp
next
  case (sy_leave c strong order)
  then show ?thesis using revoke_step [of strong order c "sy_mgr y" ops] by simp
qed (auto intro: ms_reserve ms_media ms_abort ms_remove ms_teardown ms_shutdown ms_media_close)

lemma sys_step_inv: "sys_step ops y y' \<Longrightarrow> sys_inv n y \<Longrightarrow> sys_inv n y'"
  using sys_step_mgr [of ops y y'] sys_step_tasks [of ops y y' n] mgr_step_inv [of ops "sy_mgr y" "sy_mgr y'" n]
  by (auto simp: sys_inv_def)

lemma system_new_inv: "sys_inv (sc_max_connections (cf_server c)) (system_new c t)"
  using manager_new_inv [of c]
  by (simp add: sys_inv_def tasks_inv_def system_new_def with_turn_def mgr_inv_def manager_new_def holders_def)

interpretation session_system: simulation "\<lambda>y. y = system_new c t" "sys_step ops" "sys_inv (sc_max_connections (cf_server c))"
  "\<lambda>m. m = with_turn t (manager_new c)" "mgr_step ops" sy_mgr for c t ops
proof unfold_locales
  fix y :: "('a, 'b) system"
  assume y: "y = system_new c t"
  show "sys_inv (sc_max_connections (cf_server c)) y" using system_new_inv y by simp
  show "sy_mgr y = with_turn t (manager_new c)" using y by (simp add: system_new_def)
next
  fix y y' :: "('a, 'b) system"
  assume st: "sys_step ops y y'"
  show "sys_inv (sc_max_connections (cf_server c)) y \<Longrightarrow> sys_inv (sc_max_connections (cf_server c)) y'" by (rule sys_step_inv [OF st])
  show "sys_inv (sc_max_connections (cf_server c)) y \<Longrightarrow> sy_mgr y' = sy_mgr y \<or> mgr_step ops (sy_mgr y) (sy_mgr y')"
    using sys_step_mgr [OF st] by (simp add: sys_inv_def)
qed

section \<open>TURN credentials of the system\<close>

definition turn_users :: "turn_service option \<Rightarrow> string \<Rightarrow> string set" where
  "turn_users t c = (case t of None \<Rightarrow> {} | Some ts \<Rightarrow> session_users (ts_credentials ts) c)"

definition manager_users :: "('p, 'snd) manager \<Rightarrow> string \<Rightarrow> string set" where
  "manager_users m c = turn_users (sm_turn m) c"

lemma ice_config_users:
  assumes "d \<noteq> c"
  shows "turn_users (snd (session_ice_config gen env config c t)) d \<subseteq> turn_users t d"
proof (cases t)
  case (Some ts)
  have "session_users (snd (issue_at gen (ie_draw env) (ie_order env) c urls (ie_now env) (ts_credentials ts))) d \<subseteq> session_users (ts_credentials ts) d" for urls
    using issue_others_users [OF assms, of gen "(ie_draw env, ie_order env, urls, ie_now env)"] by (simp add: issue_op_def)
  with Some show ?thesis by (simp add: turn_users_def session_ice_config_def turn_ice_config_def case_prod_unfold Let_def)
qed (simp add: turn_users_def session_ice_config_def)

lemma revoke_turn_effect: "manager_users (revoke_turn strong order c m) d = (if d = c then {} else manager_users m d)"
proof (cases "sm_turn m")
  case (Some ts)
  with revoke_users [of order c "ts_credentials ts" d] show ?thesis
    by (simp add: manager_users_def turn_users_def revoke_turn_def turn_revoke_def revoke_op_def case_prod_unfold Let_def)
qed (simp add: manager_users_def turn_users_def revoke_turn_def)

interpretation manager_credentials: credential_store manager_users
  "\<lambda>(gen, env) c m. snd (manager_ice_config gen env c m)" "\<lambda>(strong, order) c m. revoke_turn strong order c m"
proof unfold_locales
  fix e :: "(nat \<Rightarrow> bool) \<times> string list" and c d :: string and m :: "('a, 'b) manager"
  show "manager_users ((case e of (strong, order) \<Rightarrow> revoke_turn strong order) c m) d = (if d = c then {} else manager_users m d)"
    by (simp add: revoke_turn_effect split: prod.split)
next
  fix e :: "auth_key_fn \<times> issue_env" and c d :: string and m :: "('a, 'b) manager"
  assume "d \<noteq> c"
  then show "manager_users ((case e of (gen, env) \<Rightarrow> \<lambda>c m. snd (manager_ice_config gen env c m)) c m) d \<subseteq> manager_users m d"
    using ice_config_users [of d c "fst e" "snd e" "sm_config m" "sm_turn m"]
    by (simp add: manager_ice_config_def manager_users_def case_prod_unfold Let_def)
qed

primrec will_revoke :: "event_phase \<Rightarrow> bool" where
  "will_revoke T_pending = False"
| "will_revoke (T_select et) = True"
| "will_revoke (T_handle et inp) = True"
| "will_revoke (T_announce et env sid channels users) = True"
| "will_revoke (T_shutdown et) = True"
| "will_revoke (T_remove et) = True"
| "will_revoke T_revoke = True"
| "will_revoke T_done = False"

text \<open>Credentials of a connection whose handler has left are covered by an event task that will revoke them.\<close>

definition cred_cover :: "('p, 'snd) system \<Rightarrow> bool" where
  "cred_cover y \<longleftrightarrow> (\<forall>c. c \<notin> sy_open y \<longrightarrow> manager_users (sy_mgr y) c \<noteq> {} \<longrightarrow>
     (\<exists>r ph. sy_tasks y r = Some (c, ph) \<and> will_revoke ph))"

lemma manager_users_cong: "sm_turn m' = sm_turn m \<Longrightarrow> manager_users m' = manager_users m"
  by (simp add: manager_users_def fun_eq_iff)

lemma turn_unchanged [simp]:
  "sm_turn (snd (connect_reserve c m)) = sm_turn m" "sm_turn (snd (initialize_media a m)) = sm_turn m" "sm_turn (connect_abort m) = sm_turn m"
  "sm_turn (put_session r s m) = sm_turn m" "sm_turn (snd (disconnect_remove c m)) = sm_turn m" "sm_turn (teardown_run ops r m) = sm_turn m"
  "sm_turn (begin_shutdown m) = sm_turn m" "sm_turn (snd (connect_install ops c u w m)) = sm_turn m"
  "sm_turn (snd (snd (finish_remove c r e m))) = sm_turn m"
  by (auto simp: connect_reserve_def initialize_media_def connect_abort_def put_session_def disconnect_remove_def teardown_run_def
      begin_shutdown_def connect_install_def finish_remove_def Let_def split: option.split sum.split)

lemma refresh_users: "d \<noteq> c \<Longrightarrow> manager_users (snd (snd (manager_refresh_ice gen env c m))) d \<subseteq> manager_users m d"
  using ice_config_users [of d c gen env "sm_config m" "sm_turn m"]
  by (auto simp: manager_refresh_ice_def refresh_ice_def manager_users_def case_prod_unfold Let_def split: sum.split option.split)

lemma task_step_users:
  assumes "task_step ops c r ph m msgs ph' m'"
  shows "(\<forall>d. d \<noteq> c \<longrightarrow> manager_users m' d \<subseteq> manager_users m d) \<and>
    (manager_users m' c = {} \<or> will_revoke ph' \<or> manager_users m' c = manager_users m c \<and> \<not> will_revoke ph)"
  using assms
proof (cases rule: task_step.cases)
  case (ts_announce gen env sid channels users msg turn' et)
  then have "turn' = snd (session_ice_config gen env (sm_config m) c (sm_turn m))"
    by (auto simp: announce_login_def split: prod.splits)
  then have "manager_users m' d \<subseteq> manager_users m d" if "d \<noteq> c" for d
    using ice_config_users [OF that, of gen env "sm_config m" "sm_turn m"] ts_announce by (simp add: manager_users_def)
  with ts_announce show ?thesis by simp
next
  case (ts_revoke strong order)
  then show ?thesis by (simp add: revoke_turn_effect)
next
  case (ts_remove et removed)
  then have "sm_turn m' = sm_turn m" using turn_unchanged(9) [of c r "et_terminal et" m] by simp
  then have "manager_users m' = manager_users m" by (rule manager_users_cong)
  with ts_remove(2) show ?thesis by simp
next
  case (ts_handle s inp gen display_state et l s' turn' et')
  then show ?thesis by (cases l) (simp_all add: manager_users_def)
qed (simp_all add: manager_users_def)

lemma cred_cover_same:
  "cred_cover y \<Longrightarrow> sm_turn m' = sm_turn (sy_mgr y) \<Longrightarrow> cred_cover (y\<lparr>sy_mgr := m'\<rparr>)"
  by (simp add: cred_cover_def manager_users_def)

lemma sys_step_cover:
  assumes "sys_step ops y y'" and inv: "tasks_inv y" and mi: "mgr_inv n (sy_mgr y)" and cov: "cred_cover y"
  shows "cred_cover y'"
  using assms(1)
proof (cases rule: sys_step.cases)
  case (sy_accept c)
  with cov show ?thesis by (auto simp: cred_cover_def)
next
  case (sy_install c w username res m')
  let ?r = "sm_next (sy_mgr y)"
  have "?r \<notin> dom (sm_heap (sy_mgr y))" using mi by (auto simp: mgr_inv_def)
  with tasks_doms(1) [OF inv] have "sy_tasks y ?r = None" by (auto simp: domIff)
  then have keep: "sy_tasks y q = Some x \<Longrightarrow> spawn_events ?r c res (sy_tasks y) q = Some x" for q x
    by (cases "q = ?r") (auto simp: spawn_events_def)
  have "sm_turn m' = sm_turn (sy_mgr y)" using turn_unchanged(8) [of ops c username w "sy_mgr y"] sy_install(5) by simp
  then show ?thesis using cov keep unfolding sy_install(1) cred_cover_def by (simp add: manager_users_def) blast
next
  case (sy_refresh c gen env)
  have "manager_users (sy_mgr y') d \<subseteq> manager_users (sy_mgr y) d" if "d \<notin> sy_open y" for d
    using refresh_users [of d c gen env "sy_mgr y"] that sy_refresh by auto
  with cov show ?thesis unfolding sy_refresh(1) cred_cover_def by simp blast
next
  case (sy_task r c ph msgs ph' m')
  note u = task_step_users [OF sy_task(3)]
  show ?thesis unfolding cred_cover_def
  proof (intro allI impI)
    fix d
    assume d: "d \<notin> sy_open y'" "manager_users (sy_mgr y') d \<noteq> {}"
    show "\<exists>q ph. sy_tasks y' q = Some (d, ph) \<and> will_revoke ph"
    proof (cases "d = c \<and> will_revoke ph'")
      case True
      then show ?thesis unfolding sy_task(1) by (intro exI [of _ r]) simp
    next
      case False
      have nz: "manager_users m' d \<noteq> {}" using d(2) sy_task(1) by simp
      have "manager_users (sy_mgr y) d \<noteq> {} \<and> (d = c \<longrightarrow> \<not> will_revoke ph)"
      proof (cases "d = c")
        case True
        with u False nz show ?thesis by simp
      next
        case False
        with u nz show ?thesis by blast
      qed
      then have "manager_users (sy_mgr y) d \<noteq> {}" "d = c \<Longrightarrow> \<not> will_revoke ph" by blast+
      moreover have "d \<notin> sy_open y" using d(1) sy_task(1) by simp
      ultimately obtain q ph1 where q: "sy_tasks y q = Some (d, ph1)" "will_revoke ph1" using cov unfolding cred_cover_def by blast
      with sy_task(2) \<open>d = c \<Longrightarrow> \<not> will_revoke ph\<close> have "q \<noteq> r" by auto
      with q show ?thesis unfolding sy_task(1) by auto
    qed
  qed
next
  case (sy_leave c strong order)
  with cov show ?thesis by (auto simp: cred_cover_def revoke_turn_effect)
qed (use cov in \<open>auto intro!: cred_cover_same\<close>)

lemma reachable_cover:
  assumes "reachable (\<lambda>y. y = system_new cfg t) (sys_step ops) y" and "\<And>c. turn_users t c = {}"
  shows "cred_cover y"
  using assms(1)
proof (induction rule: reachable.induct)
  case (reachable_init y)
  with assms(2) show ?case by (simp add: cred_cover_def system_new_def manager_users_def with_turn_def)
next
  case (reachable_step y y')
  from session_system.reachable_inv [OF reachable_step(1)]
  have "tasks_inv y" "mgr_inv (sc_max_connections (cf_server cfg)) (sy_mgr y)" by (auto simp: sys_inv_def)
  from sys_step_cover [OF reachable_step(2) this reachable_step(3)] show ?case .
qed

section \<open>The end of an event task\<close>

text \<open>The steps a task of a closed session can still make.\<close>

primrec task_rank :: "event_phase \<Rightarrow> nat" where
  "task_rank (T_handle et inp) = 5"
| "task_rank (T_announce et env sid channels users) = 5"
| "task_rank (T_select et) = 4"
| "task_rank (T_shutdown et) = 3"
| "task_rank (T_remove et) = 2"
| "task_rank T_revoke = 1"
| "task_rank T_pending = 1"
| "task_rank T_done = 0"

lemma task_rank_decreases:
  assumes "task_step ops c r ph m msgs ph' m'" and "sm_heap m r = Some s" and "ur_closed s" and "phase_ok reg s ph"
  shows "task_rank ph' < task_rank ph"
  using assms
proof (cases rule: task_step.cases)
  case (ts_start s1 et s')
  with assms(2,3) show ?thesis by (simp add: event_task_start_def)
next
  case (ts_handle s1 inp gen display_state et l s' turn' et')
  then show ?thesis by (cases l) simp_all
qed (use assms in auto)

lemma task_progress:
  assumes s: "sm_heap m r = Some s" and "ph \<noteq> T_done" and closed: "ur_closed s" and ok: "phase_ok reg s ph"
  shows "\<exists>msgs ph' m'. task_step ops c r ph m msgs ph' m'"
proof (cases ph)
  case T_pending
  have "event_task_start s = None" using closed by (simp add: event_task_start_def)
  with T_pending ts_closed [OF s] show ?thesis by blast
next
  case (T_select et)
  then have "ur_close_notify s" using ok closed by simp
  with T_select ts_notified [OF s] show ?thesis by blast
next
  case (T_handle et inp)
  show ?thesis
  proof (cases "login_event inp")
    case None
    obtain gen :: auth_key_fn and display_state :: "peer_connection_state \<Rightarrow> string" where True by simp
    obtain l msgs s' turn' et' where
      "event_handle gen ops display_state (sm_config m) c inp s (sm_turn m) et = (l, msgs, s', turn', et')"
      by (metis prod_cases5)
    from ts_handle [OF s None this] T_handle show ?thesis by blast
  next
    case (Some x)
    obtain env sid channels users where x: "x = (env, sid, channels, users)" by (metis prod_cases4)
    from ts_login [OF s Some [unfolded x] refl] T_handle show ?thesis by blast
  qed
next
  case (T_announce et env sid channels users)
  obtain gen :: auth_key_fn where True by simp
  obtain msg turn' where "announce_login gen env (sm_config m) c sid channels users (sm_turn m) = (msg, turn')" by fastforce
  from ts_announce [OF this] T_announce show ?thesis by blast
next
  case (T_remove et)
  obtain b msgs m' where "finish_remove c r (et_terminal et) m = (b, msgs, m')" by (metis prod_cases3)
  from ts_remove [OF this] T_remove show ?thesis by blast
qed (use assms ts_shutdown ts_revoke in blast)+

lemma shutdown_ref_closed:
  assumes "\<And>q s. sm_heap m q = Some s \<Longrightarrow> session_wf s" and "sm_heap m r = Some s" and "ur_closed s"
  shows "\<exists>s'. sm_heap (shutdown_ref ops q m) r = Some s' \<and> ur_closed s'"
  using assms by (auto simp: shutdown_ref_def intro: shutdown_closed split: option.split)

lemma session_step_closed: "session_step ops k s msgs s' \<Longrightarrow> ur_closed s' = ur_closed s"
  by (drule session_step_flags) (auto simp: session_flags_def close_taken_def)

lemma put_closed:
  "sm_heap m r = Some s \<Longrightarrow> ur_closed s \<Longrightarrow> sm_heap m q = Some u \<Longrightarrow> ur_closed u' = ur_closed u \<Longrightarrow>
     \<exists>s'. sm_heap (put_session q u' m) r = Some s' \<and> ur_closed s'"
  by (auto simp: put_session_def)

lemma task_step_closed:
  assumes "task_step ops c q ph m msgs ph' m'" and wf: "\<And>q s. sm_heap m q = Some s \<Longrightarrow> session_wf s"
    and s: "sm_heap m r = Some s" "ur_closed s"
  shows "\<exists>s'. sm_heap m' r = Some s' \<and> ur_closed s'"
  using assms(1)
proof (cases rule: task_step.cases)
  case (ts_handle s1 inp gen display_state et l s' turn' et')
  then show ?thesis using put_closed [OF s ts_handle(4)] session_step_closed [OF ss_event [OF ts_handle(6)]] by simp
next
  case (ts_login s1 inp env sid channels users et' et)
  then show ?thesis using s put_closed [OF s ts_login(5), of "login_session sid users s1"] by (simp add: login_session_def)
next
  case (ts_start s1 et s')
  then show ?thesis using put_closed [OF s ts_start(5), of s'] by (auto simp: event_task_start_def split: if_splits)
next
  case (ts_notified s1 et)
  then show ?thesis using put_closed [OF s ts_notified(5), of "close_taken s1"] by (simp add: close_taken_def)
next
  case (ts_shutdown et)
  then show ?thesis using shutdown_ref_closed [OF wf s] by simp
next
  case (ts_remove et removed)
  then show ?thesis using s by (auto simp: finish_remove_def split: if_splits)
next
  case (ts_revoke strong order)
  then show ?thesis using s by (simp add: revoke_turn_def split: option.split)
qed (use s in auto)

lemma sys_step_closed:
  assumes "sys_step ops y y'" and inv: "sys_inv n y" and s: "sm_heap (sy_mgr y) r = Some s" "ur_closed s"
  shows "\<exists>s'. sm_heap (sy_mgr y') r = Some s' \<and> ur_closed s'"
proof -
  have ti: "tasks_inv y" and mi: "mgr_inv n (sy_mgr y)" using inv by (auto simp: sys_inv_def)
  have wf: "session_wf u" if "sm_heap (sy_mgr y) q = Some u" for q u
    using tasks_session_ok [OF ti that] by (simp add: session_ok_def)
  from assms(1) show ?thesis
  proof (cases rule: sys_step.cases)
    case (sy_install c w username res m')
    have "r \<noteq> sm_next (sy_mgr y)" using mi s(1) by (auto simp: mgr_inv_def)
    with sy_install s show ?thesis by (auto simp: connect_install_def shutdown_ref_def Let_def split: if_splits)
  next
    case (sy_user c q u msgs u')
    with put_closed [OF s sy_user(4), of u'] session_step_closed [OF sy_user(5)] show ?thesis by simp
  next
    case (sy_background k q u msgs u')
    with put_closed [OF s sy_background(3), of u'] session_step_closed [OF sy_background(4)] show ?thesis by simp
  next
    case (sy_task q c ph msgs ph' m')
    with task_step_closed [OF sy_task(3) wf s] show ?thesis by simp
  next
    case (sy_teardown q)
    with shutdown_ref_closed [OF wf s, where ops = ops and q = q] show ?thesis by (simp add: teardown_run_def)
  next
    case (sy_refresh c gen env)
    with s show ?thesis by (simp add: manager_refresh_ice_def split: sum.split option.split prod.split)
  next
    case (sy_leave c strong order)
    with s show ?thesis by (simp add: revoke_turn_def split: option.split)
  next
    case (sy_reserve c)
    with s show ?thesis by (simp add: connect_reserve_def split: option.split)
  next
    case (sy_media created)
    with s show ?thesis by (simp add: initialize_media_def split: option.split sum.split)
  next
    case (sy_remove c)
    with s show ?thesis by (simp add: disconnect_remove_def split: option.split)
  qed (use s in \<open>simp_all add: connect_abort_def begin_shutdown_def\<close>)
qed

lemma sys_step_other_tasks:
  assumes "sys_step ops y y'" and inv: "sys_inv n y" and t: "sy_tasks y r = Some (c, ph)"
    and s: "sm_heap (sy_mgr y) r = Some s" "ur_closed s"
  shows "\<exists>ph'. sy_tasks y' r = Some (c, ph') \<and> task_rank ph' \<le> task_rank ph"
proof -
  have ti: "tasks_inv y" and mi: "mgr_inv n (sy_mgr y)" using inv by (auto simp: sys_inv_def)
  from assms(1) show ?thesis
  proof (cases rule: sys_step.cases)
    case (sy_install d w username res m')
    have "r \<noteq> sm_next (sy_mgr y)" using mi s(1) by (auto simp: mgr_inv_def)
    with sy_install t show ?thesis by (auto simp: spawn_events_def)
  next
    case (sy_task q d ph1 msgs ph' m')
    show ?thesis
    proof (cases "q = r")
      case True
      have "phase_ok (r \<in> ran (sm_sessions (sy_mgr y))) s ph1"
        using tasks_session_ok [OF ti s(1)] sy_task(2) True by (simp add: session_ok_def)
      from task_rank_decreases [OF sy_task(3) [unfolded True] s this] sy_task t True show ?thesis by simp
    qed (use sy_task t in simp)
  qed (use t in simp_all)
qed

text \<open>A connection that logs nothing in: accepted, connected, disconnected and torn down; then its task ends and its handler leaves.\<close>

definition demo_torn :: "(sim_peer, nat) system" where
  "demo_torn =
     (let m = snd (connect_reserve ''a'' (with_turn (Some demo_turn_service) (manager_new demo_turn_config)));
          m1 = snd (connect_install sim_peer_ops ''a'' ''alice'' (ur_webrtc fresh_demo) m);
          m2 = snd (disconnect_remove ''a'' m1)
      in \<lparr>sy_mgr = teardown_run sim_peer_ops 0 m2, sy_tasks = [0 \<mapsto> (''a'', T_pending)], sy_open = {''a''}\<rparr>)"

definition demo_gone :: "(sim_peer, nat) system" where
  "demo_gone = demo_torn\<lparr>sy_tasks := [0 \<mapsto> (''a'', T_done)], sy_mgr := revoke_turn (\<lambda>_. True) [] ''a'' (sy_mgr demo_torn), sy_open := {}\<rparr>"

lemma demo_torn_reachable:
  "reachable (\<lambda>y. y = system_new demo_turn_config (Some demo_turn_service)) (sys_step sim_peer_ops) demo_torn"
proof -
  let ?y0 = "system_new demo_turn_config (Some demo_turn_service) :: (sim_peer, nat) system"
  let ?R = "reachable (\<lambda>y. y = ?y0) (sys_step sim_peer_ops)"
  let ?m = "snd (connect_reserve ''a'' (sy_mgr ?y0))"
  let ?w = "ur_webrtc fresh_demo"
  let ?i = "connect_install sim_peer_ops ''a'' ''alice'' ?w ?m"
  let ?y1 = "?y0\<lparr>sy_open := {''a''}\<rparr>" let ?y2 = "?y1\<lparr>sy_mgr := ?m\<rparr>"
  let ?y3 = "?y2\<lparr>sy_mgr := snd ?i, sy_tasks := spawn_events (sm_next ?m) ''a'' (fst ?i) (sy_tasks ?y2)\<rparr>"
  let ?y4 = "?y3\<lparr>sy_mgr := snd (disconnect_remove ''a'' (snd ?i))\<rparr>"
  let ?y5 = "?y4\<lparr>sy_mgr := teardown_run sim_peer_ops 0 (snd (disconnect_remove ''a'' (snd ?i)))\<rparr>"
  have w: "ws_fresh ?w" by (auto simp: fresh_demo_def user_session_new_def ws_fresh_def webrtc_session_new_def)
  have m: "sm_inflight ?m = 1" "sm_next ?m = 0" "sm_sessions ?m = Map.empty"
    by (simp_all add: connect_reserve_def system_new_def with_turn_def manager_new_def try_acquire_owned_def sem_new_def demo_turn_config_def)
  then have i: "fst ?i = Inr ()" "sm_sessions (snd ?i) = [''a'' \<mapsto> 0]" by (simp_all add: connect_install_def Let_def)
  have s1: "sys_step sim_peer_ops ?y0 ?y1" using sy_accept [of sim_peer_ops ?y0 "''a''"] by (simp add: system_new_def)
  have s2: "sys_step sim_peer_ops ?y1 ?y2" using sy_reserve [of "''a''" ?y1 sim_peer_ops] by simp
  have s3: "sys_step sim_peer_ops ?y2 ?y3"
    using sy_install [of "''a''" ?y2 ?w sim_peer_ops "''alice''" "fst ?i" "snd ?i"] w m by simp
  have s4: "sys_step sim_peer_ops ?y3 ?y4" using sy_remove [of sim_peer_ops ?y3 "''a''"] by simp
  have "0 \<in> sm_teardown (sy_mgr ?y4)" using i by (simp add: disconnect_remove_def)
  from sy_teardown [OF this, of sim_peer_ops] have s5: "sys_step sim_peer_ops ?y4 ?y5" by simp
  have "?R ?y0" by (rule reachable_init) (rule refl)
  then have "?R ?y5" using s1 s2 s3 s4 s5 by (meson reachable_step)
  then show ?thesis using i m by (simp add: demo_torn_def system_new_def spawn_events_def Let_def)
qed

lemma demo_torn_session: "\<exists>s. sm_heap (sy_mgr demo_torn) 0 = Some s \<and> ur_closed s"
  by (simp add: demo_torn_def connect_reserve_def with_turn_def manager_new_def try_acquire_owned_def sem_new_def demo_turn_config_def
      connect_install_def disconnect_remove_def teardown_run_def shutdown_ref_def shutdown_fields user_session_new_def Let_def)

lemma demo_gone_reachable:
  "reachable (\<lambda>y. y = system_new demo_turn_config (Some demo_turn_service)) (sys_step sim_peer_ops) demo_gone"
proof -
  let ?R = "reachable (\<lambda>y. y = system_new demo_turn_config (Some demo_turn_service)) (sys_step sim_peer_ops)"
  have t: "sy_tasks demo_torn 0 = Some (''a'', T_pending)" "sy_tasks demo_torn = [0 \<mapsto> (''a'', T_pending)]" "sy_open demo_torn = {''a''}"
    by (simp_all add: demo_torn_def Let_def)
  obtain s where s: "sm_heap (sy_mgr demo_torn) 0 = Some s" "ur_closed s" using demo_torn_session by blast
  then have "task_step sim_peer_ops ''a'' 0 T_pending (sy_mgr demo_torn) [] T_done (sy_mgr demo_torn)"
    by (intro ts_closed) (auto simp: event_task_start_def)
  from reachable_step [OF demo_torn_reachable sy_task [OF t(1) this]]
  have R1: "?R (demo_torn\<lparr>sy_tasks := [0 \<mapsto> (''a'', T_done)]\<rparr>)" using t by simp
  have "sm_sessions (sy_mgr demo_torn) ''a'' = None"
    by (simp add: demo_torn_def teardown_run_def disconnect_remove_def Let_def split: option.split)
  then have "sys_step sim_peer_ops (demo_torn\<lparr>sy_tasks := [0 \<mapsto> (''a'', T_done)]\<rparr>) demo_gone"
    using sy_leave [of "''a''" "demo_torn\<lparr>sy_tasks := [0 \<mapsto> (''a'', T_done)]\<rparr>" sim_peer_ops "\<lambda>_. True" "[]"] t
    by (simp add: demo_gone_def)
  with R1 show ?thesis by (rule reachable_step)
qed

text \<open>Two runs used by the last property: a connect, and a session whose browser goes away while its task waits.\<close>

lemma reach_connect:
  assumes R: "reachable init (sys_step ops) y" and "c \<in> sy_open y" and "sm_sessions (sy_mgr y) c = None" and "\<not> sm_shutdown (sy_mgr y)"
    and "0 < available_permits (sm_slots (sy_mgr y))" and w: "ws_fresh w"
  shows "\<exists>y'. reachable init (sys_step ops) y' \<and> sy_open y' = sy_open y \<and> sm_shutdown (sy_mgr y') = sm_shutdown (sy_mgr y) \<and>
    sm_sessions (sy_mgr y') = (sm_sessions (sy_mgr y))(c \<mapsto> sm_next (sy_mgr y)) \<and>
    sy_tasks y' = (sy_tasks y)(sm_next (sy_mgr y) \<mapsto> (c, T_pending)) \<and> sm_next (sy_mgr y') = Suc (sm_next (sy_mgr y)) \<and>
    sm_heap (sy_mgr y') = (sm_heap (sy_mgr y))(sm_next (sy_mgr y) \<mapsto> user_session_new w []) \<and>
    available_permits (sm_slots (sy_mgr y)) = Suc (available_permits (sm_slots (sy_mgr y')))"
proof -
  let ?m = "snd (connect_reserve c (sy_mgr y))"
  obtain slots where sl: "try_acquire_owned (sm_slots (sy_mgr y)) = Some slots" using tokio_semaphore.acquire_possible [OF assms(5)] by blast
  have m: "?m = (sy_mgr y)\<lparr>sm_slots := slots, sm_inflight := sm_inflight (sy_mgr y) + 1\<rparr>"
    using assms(3,4) sl by (simp add: connect_reserve_def)
  have R1: "reachable init (sys_step ops) (y\<lparr>sy_mgr := ?m\<rparr>)" by (rule reachable_step [OF R sy_reserve [OF assms(2)]])
  obtain res m' where i: "connect_install ops c [] w ?m = (res, m')" by fastforce
  have "sys_step ops (y\<lparr>sy_mgr := ?m\<rparr>) (y\<lparr>sy_mgr := ?m, sy_mgr := m', sy_tasks := spawn_events (sm_next ?m) c res (sy_tasks y)\<rparr>)"
    using sy_install [of c "y\<lparr>sy_mgr := ?m\<rparr>" w ops "[]" res m'] assms(2) w i m by simp
  from reachable_step [OF R1 this] i m assms(3) tokio_semaphore.acquire_Some [OF sl] show ?thesis
    by (intro exI [of _ "y\<lparr>sy_mgr := m', sy_tasks := spawn_events (sm_next ?m) c res (sy_tasks y)\<rparr>"])
      (auto simp: connect_install_def spawn_events_def Let_def)
qed

text \<open>The first connection of the example system, connected: its task has not started yet.\<close>

lemma reach_first_session:
  obtains y :: "(sim_peer, nat) system" and s where
    "reachable (\<lambda>y. y = system_new demo_turn_config (Some demo_turn_service)) (sys_step sim_peer_ops) y" "sy_tasks y 0 = Some (''a'', T_pending)"
    "sm_heap (sy_mgr y) 0 = Some s" "\<not> ur_closed s" "\<not> ur_close_notify s" "sm_sessions (sy_mgr y) ''a'' = Some 0" "\<not> sm_shutdown (sy_mgr y)"
    "available_permits (sm_slots (sy_mgr y)) = 9" "sm_sessions (sy_mgr y) = [''a'' \<mapsto> 0]" "sm_next (sy_mgr y) = 1" "sy_open y = {''a''}"
proof -
  let ?y0 = "system_new demo_turn_config (Some demo_turn_service) :: (sim_peer, nat) system"
  let ?R = "reachable (\<lambda>y. y = ?y0) (sys_step sim_peer_ops)" and ?w = "ur_webrtc fresh_demo"
  let ?y1 = "?y0\<lparr>sy_open := insert ''a'' (sy_open ?y0)\<rparr>"
  have "?R ?y0" by (rule reachable_init) (rule refl)
  from reachable_step [OF this sy_accept] have R1: "?R ?y1" .
  have w: "ws_fresh ?w" by (auto simp: fresh_demo_def user_session_new_def ws_fresh_def webrtc_session_new_def)
  have y1: "sm_sessions (sy_mgr ?y1) = Map.empty" "\<not> sm_shutdown (sy_mgr ?y1)" "sm_next (sy_mgr ?y1) = 0"
    "available_permits (sm_slots (sy_mgr ?y1)) = 10" "''a'' \<in> sy_open ?y1"
    by (simp_all add: system_new_def with_turn_def manager_new_def demo_turn_config_def tokio_semaphore.avail_new)
  obtain y2 where y2: "?R y2" "sy_open y2 = sy_open ?y1" "\<not> sm_shutdown (sy_mgr y2)" "sm_sessions (sy_mgr y2) = [''a'' \<mapsto> 0]"
    "sy_tasks y2 0 = Some (''a'', T_pending)" "sm_next (sy_mgr y2) = 1" "sm_heap (sy_mgr y2) 0 = Some (user_session_new ?w [])"
    "available_permits (sm_slots (sy_mgr y2)) = 9"
    using reach_connect [OF R1 y1(5) _ y1(2) _ w] y1 by auto
  then show thesis by (intro that [of y2 "user_session_new ?w []"]) (simp_all add: user_session_new_def system_new_def)
qed

lemma reach_task:
  assumes "reachable init (sys_step ops) y" and "sy_tasks y r = Some (c, ph)" and "task_step ops c r ph (sy_mgr y) msgs ph' m'"
  shows "reachable init (sys_step ops) (y\<lparr>sy_mgr := m', sy_tasks := (sy_tasks y)(r \<mapsto> (c, ph'))\<rparr>)"
  by (rule reachable_step [OF assms(1) sy_task [OF assms(2,3)]])

lemma reach_remove:
  fixes ops :: "('p, 'snd) peer_ops"
  assumes R: "reachable init (sys_step ops) y" and t: "sy_tasks y r = Some (c, T_pending)"
    and s: "sm_heap (sy_mgr y) r = Some s" "\<not> ur_closed s" "\<not> ur_close_notify s"
    and inp: "login_event inp = None"
      "\<And>u turn. event_handle gen ops display_state (sm_config (sy_mgr y)) c inp u turn \<lparr>et_user_map = Map.empty, et_terminal = None\<rparr> = (Break, [], u, turn, et)"
  shows "reachable init (sys_step ops) (y\<lparr>sy_mgr := shutdown_ref ops r (put_session r (s\<lparr>ur_voice_setup_task := True\<rparr>) (sy_mgr y)),
    sy_tasks := (sy_tasks y)(r \<mapsto> (c, T_remove et))\<rparr>)"
proof -
  let ?et = "\<lparr>et_user_map = Map.empty, et_terminal = None\<rparr>" and ?s = "s\<lparr>ur_voice_setup_task := True\<rparr>"
  let ?m1 = "put_session r ?s (sy_mgr y)"
  let ?y = "\<lambda>m ph. y\<lparr>sy_mgr := m, sy_tasks := (sy_tasks y)(r \<mapsto> (c, ph))\<rparr>"
  let ?R = "reachable init (sys_step ops)"
  have h: "sm_heap ?m1 r = Some ?s" by (simp add: put_session_def)
  have "event_task_start s = Some (?et, ?s)" using s by (simp add: event_task_start_def)
  from reach_task [OF R t ts_start [OF s(1) this]] have R1: "?R (?y ?m1 (T_select ?et))" .
  have go: "?R (?y m' ph')" if "?R (?y m ph)" "task_step ops c r ph m msgs ph' m'" for m ph msgs ph' m'
    using reach_task [of init ops "?y m ph" r c ph msgs ph' m'] that by simp
  have "task_step ops c r (T_select ?et) ?m1 [] (T_handle ?et inp) ?m1" using s by (intro ts_select [OF h]) simp
  from go [OF R1 this] have R2: "?R (?y ?m1 (T_handle ?et inp))" .
  have "event_handle gen ops display_state (sm_config ?m1) c inp ?s (sm_turn ?m1) ?et = (Break, [], ?s, sm_turn ?m1, et)"
    using inp(2) by (simp add: put_session_def)
  from ts_handle [OF h inp(1) this] have "task_step ops c r (T_handle ?et inp) ?m1 [] (T_shutdown et) ?m1"
    using h by (simp add: put_session_def fun_upd_idem)
  from go [OF go [OF R2 this] ts_shutdown] show ?thesis .
qed

lemma reach_browser_gone:
  assumes R: "reachable init (sys_step ops) y" and t: "sy_tasks y r = Some (c, T_pending)"
    and s: "sm_heap (sy_mgr y) r = Some s" "\<not> ur_closed s" "\<not> ur_close_notify s" and reg: "sm_sessions (sy_mgr y) c = Some r"
  shows "\<exists>y'. reachable init (sys_step ops) y' \<and> sy_open y' = sy_open y \<and> sm_shutdown (sy_mgr y') = sm_shutdown (sy_mgr y) \<and>
    sm_sessions (sy_mgr y') = (sm_sessions (sy_mgr y))(c := None) \<and> sy_tasks y' = (sy_tasks y)(r \<mapsto> (c, T_revoke)) \<and>
    sm_next (sy_mgr y') = sm_next (sy_mgr y) \<and> available_permits (sm_slots (sy_mgr y)) \<le> available_permits (sm_slots (sy_mgr y'))"
proof -
  let ?et = "\<lparr>et_user_map = Map.empty, et_terminal = None\<rparr>"
  let ?m3 = "shutdown_ref ops r (put_session r (s\<lparr>ur_voice_setup_task := True\<rparr>) (sy_mgr y))"
  let ?m4 = "?m3\<lparr>sm_sessions := (sm_sessions ?m3)(c := None)\<rparr>"
  let ?y = "\<lambda>m ph. y\<lparr>sy_mgr := m, sy_tasks := (sy_tasks y)(r \<mapsto> (c, ph))\<rparr>"
  obtain gen :: auth_key_fn and display_state :: "peer_connection_state \<Rightarrow> string" where True by simp
  have "event_handle gen ops display_state (sm_config (sy_mgr y)) c E_ws_closed u turn ?et = (Break, [], u, turn, ?et)" for u turn
    by (simp add: event_handle_def)
  from reach_remove [OF R t s _ this] have R4: "reachable init (sys_step ops) (?y ?m3 (T_remove ?et))" by (simp add: login_event_def)
  have f: "finish_remove c r (et_terminal ?et) ?m3 = (True, [], ?m4)" using reg by (simp add: finish_remove_def put_session_def)
  have "reachable init (sys_step ops) (?y ?m4 T_revoke)"
    using reach_task [OF R4, of r c "T_remove ?et" "[]" T_revoke ?m4] ts_remove [OF f, of ops] by simp
  moreover have "available_permits (sm_slots (sy_mgr y)) \<le> available_permits (sm_slots ?m4)"
    by (simp add: shutdown_ref_def put_session_def tokio_semaphore.avail_release)
  ultimately show ?thesis by (intro exI [of _ "?y ?m4 T_revoke"]) (simp add: put_session_def)
qed

section \<open>Properties of the system\<close>

text \<open>
  C22. A closed session's event task ends: whatever the rest of the system does, a task whose session was
  torn down can always make a step until it is done, each of its steps brings it closer (at most
  five are left), and no step of anything else reopens the session or moves the task back.
\<close>

theorem closed_session_task_ends:
  assumes "reachable (\<lambda>y. y = system_new cfg t) (sys_step ops) y"
    and "sy_tasks y r = Some (c, ph)" and "sm_heap (sy_mgr y) r = Some s" and "ur_closed s"
  shows "(ph \<noteq> T_done \<longrightarrow> (\<exists>msgs ph' m'. task_step ops c r ph (sy_mgr y) msgs ph' m')) \<and>
    (\<forall>msgs ph' m'. task_step ops c r ph (sy_mgr y) msgs ph' m' \<longrightarrow> task_rank ph' < task_rank ph) \<and>
    task_rank ph \<le> 5 \<and>
    (\<forall>y'. sys_step ops y y' \<longrightarrow> (\<exists>s' ph'. sm_heap (sy_mgr y') r = Some s' \<and> ur_closed s' \<and>
       sy_tasks y' r = Some (c, ph') \<and> task_rank ph' \<le> task_rank ph))"
proof -
  note inv = session_system.reachable_inv [OF assms(1)]
  then have "tasks_inv y" by (simp add: sys_inv_def)
  from tasks_session_ok [OF this assms(3)] assms(2) have ok: "phase_ok (r \<in> ran (sm_sessions (sy_mgr y))) s ph"
    by (simp add: session_ok_def)
  have "task_rank ph \<le> 5" by (cases ph) simp_all
  moreover have "\<exists>msgs ph' m'. task_step ops c r ph (sy_mgr y) msgs ph' m'" if "ph \<noteq> T_done"
    by (rule task_progress [OF assms(3) that assms(4) ok])
  moreover have "task_rank ph' < task_rank ph" if "task_step ops c r ph (sy_mgr y) msgs ph' m'" for msgs ph' m'
    by (rule task_rank_decreases [OF that assms(3,4) ok])
  moreover have "\<exists>s' ph'. sm_heap (sy_mgr y') r = Some s' \<and> ur_closed s' \<and> sy_tasks y' r = Some (c, ph') \<and> task_rank ph' \<le> task_rank ph"
    if "sys_step ops y y'" for y'
    using sys_step_closed [OF that inv assms(3,4)] sys_step_other_tasks [OF that inv assms(2-4)] by blast
  ultimately show ?thesis by blast
qed

theorem closed_session_task_ends_witness:
  "\<exists>msgs ph' m'. task_step sim_peer_ops ''a'' 0 T_pending (sy_mgr demo_torn) msgs ph' m'"
proof -
  obtain s where "sm_heap (sy_mgr demo_torn) 0 = Some s" "ur_closed s" using demo_torn_session by blast
  from closed_session_task_ends [OF demo_torn_reachable _ this, of "''a''" T_pending] show ?thesis
    by (simp add: demo_torn_def Let_def)
qed

text \<open>
  C14. A connection that is gone leaves nothing behind: once its handler has left and its event tasks are done,
  no TURN credential of it is left and no session is registered under it, whatever the order in which logins, ICE
  refreshes, disconnects, revocations and task ends happened.
\<close>

theorem gone_connection_leaves_nothing:
  assumes "reachable (\<lambda>y. y = system_new cfg t) (sys_step ops) y" and "\<forall>d. turn_users t d = {}"
    and "c \<notin> sy_open y" and "\<forall>r ph. sy_tasks y r = Some (c, ph) \<longrightarrow> ph = T_done"
  shows "turn_users (sm_turn (sy_mgr y)) c = {} \<and> sm_sessions (sy_mgr y) c = None"
proof -
  have "cred_cover y" by (rule reachable_cover [OF assms(1)]) (use assms(2) in simp)
  then have "turn_users (sm_turn (sy_mgr y)) c = {}"
    using assms(3,4) by (fastforce simp: cred_cover_def manager_users_def)
  moreover have "sm_sessions (sy_mgr y) c = None"
  proof (cases "sm_sessions (sy_mgr y) c")
    case (Some r)
    have ti: "tasks_inv y" using session_system.reachable_inv [OF assms(1)] by (simp add: sys_inv_def)
    with Some assms(4) have t: "sy_tasks y r = Some (c, T_done)" using tasks_served [OF ti Some] by auto
    from tasks_doms(4) [OF ti] Some obtain s where "sm_heap (sy_mgr y) r = Some s" by (auto simp: ran_def)
    from tasks_session_ok [OF ti this] t Some show ?thesis by (auto simp: session_ok_def intro: ranI)
  qed
  ultimately show ?thesis ..
qed

theorem gone_connection_leaves_nothing_witness: "sm_sessions (sy_mgr demo_gone) ''a'' = None"
  using gone_connection_leaves_nothing [OF demo_gone_reachable, of "''a''"]
  by (simp add: demo_gone_def turn_users_def demo_turn_service_def credentials_new_def session_users_def)

text \<open>
  C24. The system at rest holds nothing: when no connect is in flight, no teardown is pending and
  every event task is done, the session map is empty, every session that ever existed is closed and every slot is free again.
\<close>

theorem quiet_system_is_empty:
  assumes "reachable (\<lambda>y. y = system_new cfg t) (sys_step ops) y"
    and "sm_inflight (sy_mgr y) = 0" and "sm_teardown (sy_mgr y) = {}" and "\<forall>r c ph. sy_tasks y r = Some (c, ph) \<longrightarrow> ph = T_done"
  shows "sm_sessions (sy_mgr y) = Map.empty \<and> available_permits (sm_slots (sy_mgr y)) = sc_max_connections (cf_server cfg) \<and>
    (\<forall>r s. sm_heap (sy_mgr y) r = Some s \<longrightarrow> ur_closed s)"
proof -
  note inv = session_system.reachable_inv [OF assms(1)]
  then have ti: "tasks_inv y" and mi: "mgr_inv (sc_max_connections (cf_server cfg)) (sy_mgr y)" by (simp_all add: sys_inv_def)
  have "sm_sessions (sy_mgr y) c = None" for c
  proof (cases "sm_sessions (sy_mgr y) c")
    case (Some r)
    with assms(4) have t: "sy_tasks y r = Some (c, T_done)" using tasks_served [OF ti Some] by auto
    from tasks_doms(4) [OF ti] Some obtain s where "sm_heap (sy_mgr y) r = Some s" by (auto simp: ran_def)
    from tasks_session_ok [OF ti this] t Some show ?thesis by (auto simp: session_ok_def intro: ranI)
  qed
  then have e: "sm_sessions (sy_mgr y) = Map.empty" by blast
  have "holders (sy_mgr y) = {}" using mi e assms(3) by (simp add: mgr_inv_def)
  then have "ur_closed s" if "sm_heap (sy_mgr y) r = Some s" for r s
    using that tasks_session_ok [OF ti that] by (auto simp: holders_def session_ok_def session_wf_def)
  with e inv_quiet [OF mi e assms(3,2)] show ?thesis by blast
qed

theorem quiet_system_is_empty_witness: "available_permits (sm_slots (sy_mgr demo_gone)) = 10"
proof -
  have "sm_inflight (sy_mgr demo_gone) = 0" "sm_teardown (sy_mgr demo_gone) = {}"
    by (simp_all add: demo_gone_def demo_torn_def revoke_turn_def connect_reserve_def with_turn_def manager_new_def try_acquire_owned_def
        sem_new_def demo_turn_config_def connect_install_def disconnect_remove_def teardown_run_def Let_def split: option.split)
  from quiet_system_is_empty [OF demo_gone_reachable this] show ?thesis by (simp add: demo_gone_def demo_turn_config_def)
qed

text \<open>
  C40. The end of an old event task takes a reconnect's TURN credentials away: its last part revokes
  whatever was issued for the connection, also when another session was registered in the meantime; that session stays registered and open,
  without any credential.
\<close>

theorem old_task_revokes_reconnect:
  assumes "reachable (\<lambda>y. y = system_new cfg t) (sys_step ops) y"
    and "sy_tasks y r = Some (c, T_revoke)" and "sm_sessions (sy_mgr y) c = Some q"
  shows "\<exists>y' s. sys_step ops y y' \<and> sm_sessions (sy_mgr y') c = Some q \<and> q \<noteq> r \<and>
    sm_heap (sy_mgr y') q = sm_heap (sy_mgr y) q \<and> sm_heap (sy_mgr y) q = Some s \<and> turn_users (sm_turn (sy_mgr y')) c = {}"
proof -
  have ti: "tasks_inv y" using session_system.reachable_inv [OF assms(1)] by (simp add: sys_inv_def)
  from tasks_doms(4) [OF ti] assms(3) obtain s where s: "sm_heap (sy_mgr y) q = Some s" by (auto simp: ran_def)
  have "q \<noteq> r" using tasks_session_ok [OF ti s] assms(2,3) by (auto simp: session_ok_def intro: ranI)
  let ?m = "revoke_turn (\<lambda>_. True) [] c (sy_mgr y)"
  have "sys_step ops y (y\<lparr>sy_mgr := ?m, sy_tasks := (sy_tasks y)(r \<mapsto> (c, T_done))\<rparr>)" by (rule sy_task [OF assms(2) ts_revoke])
  moreover have "turn_users (sm_turn ?m) c = {}" using revoke_turn_effect [of "\<lambda>_. True" "[]" c "sy_mgr y" c] by (simp add: manager_users_def)
  moreover have "sm_heap ?m = sm_heap (sy_mgr y)" "sm_sessions ?m = sm_sessions (sy_mgr y)" by (simp_all add: revoke_turn_def split: option.split)
  ultimately show ?thesis
    using s assms(3) \<open>q \<noteq> r\<close> by (intro exI [of _ "y\<lparr>sy_mgr := ?m, sy_tasks := (sy_tasks y)(r \<mapsto> (c, T_done))\<rparr>"] exI [of _ s]) simp
qed

theorem old_task_revokes_reconnect_witness:
  "\<exists>y y' :: (sim_peer, nat) system. sys_step sim_peer_ops y y' \<and> sm_sessions (sy_mgr y') ''a'' = Some 1 \<and> turn_users (sm_turn (sy_mgr y')) ''a'' = {}"
proof -
  let ?R = "reachable (\<lambda>y. y = system_new demo_turn_config (Some demo_turn_service)) (sys_step sim_peer_ops)"
  have w: "ws_fresh (ur_webrtc fresh_demo)" by (auto simp: fresh_demo_def user_session_new_def ws_fresh_def webrtc_session_new_def)
  obtain y2 s where y2: "?R y2" "sy_tasks y2 0 = Some (''a'', T_pending)" "sm_heap (sy_mgr y2) 0 = Some s" "\<not> ur_closed s" "\<not> ur_close_notify s"
    "sm_sessions (sy_mgr y2) ''a'' = Some 0" "\<not> sm_shutdown (sy_mgr y2)" "available_permits (sm_slots (sy_mgr y2)) = 9"
    "sm_sessions (sy_mgr y2) = [''a'' \<mapsto> 0]" "sm_next (sy_mgr y2) = 1" "sy_open y2 = {''a''}"
    by (rule reach_first_session)
  from reach_browser_gone [OF y2(1-6)] obtain y3 where y3: "?R y3" "sy_open y3 = sy_open y2" "sm_shutdown (sy_mgr y3) = sm_shutdown (sy_mgr y2)"
    "sm_sessions (sy_mgr y3) = (sm_sessions (sy_mgr y2))(''a'' := None)" "sy_tasks y3 = (sy_tasks y2)(0 \<mapsto> (''a'', T_revoke))"
    "sm_next (sy_mgr y3) = sm_next (sy_mgr y2)" "available_permits (sm_slots (sy_mgr y2)) \<le> available_permits (sm_slots (sy_mgr y3))"
    by (elim exE conjE)
  then have free: "''a'' \<in> sy_open y3" "sm_sessions (sy_mgr y3) ''a'' = None" "\<not> sm_shutdown (sy_mgr y3)" "0 < available_permits (sm_slots (sy_mgr y3))"
    using y2 by simp_all
  obtain y4 where y4: "?R y4" "sm_sessions (sy_mgr y4) ''a'' = Some 1" "sy_tasks y4 0 = Some (''a'', T_revoke)"
    using reach_connect [OF y3(1) free w] y3(5,6) y2(10) by auto
  from old_task_revokes_reconnect [OF y4(1,3,2)] show ?thesis by blast
qed

end
