(* ===== verification/Handler_System.thy ===== *)
theory Handler_System
  imports Session_System
begin

text \<open>
  The WebSocket handler as written (\<open>Ws_Handler\<close>: one function from the inputs of its loop to its cleanup) inside the system of \<open>Session_System\<close>,
  whose steps are the parts of the operations between two waits: what the handler does to the session manager is a run of the system.
\<close>

text \<open>\<open>runs ops y m\<close>: a run of the system from \<open>y\<close> leaves the manager as \<open>m\<close>, with the same handlers.\<close>

definition runs :: "('p, 'snd) peer_ops \<Rightarrow> ('p, 'snd) system \<Rightarrow> ('p, 'snd) manager \<Rightarrow> bool" where
  "runs ops y m \<longleftrightarrow> (\<exists>y'. (sys_step ops)\<^sup>*\<^sup>* y y' \<and> sy_mgr y' = m \<and> sy_open y' = sy_open y)"

text \<open>
  What a message finds: \<open>WebrtcSession::new\<close> returns a session with nothing in it, and the iteration order of the known speakers lists that set.
  A handler that was cut off leaves the manager in a state of a run from where it started.
\<close>

definition env_ok :: "string \<Rightarrow> ('p, 'snd) handler_env \<Rightarrow> ('p, 'snd) manager \<Rightarrow> bool" where
  "env_ok c env m \<longleftrightarrow> (\<forall>w. ne_webrtc (he_connect env) = Inr w \<longrightarrow> ws_fresh w) \<and>
     (\<forall>r s. sm_sessions m c = Some r \<longrightarrow> sm_heap m r = Some s \<longrightarrow> set (he_speakers env) = ur_known_speakers s)"

definition input_ok :: "('p, 'snd) peer_ops \<Rightarrow> string \<Rightarrow> ('p, 'snd) ws_input \<Rightarrow> ('p, 'snd) manager \<Rightarrow> bool" where
  "input_ok ops c i m = (case i of
     In_text msg env \<Rightarrow> env_ok c env m
   | In_cancelled msg m' \<Rightarrow> (\<forall>y. sy_mgr y = m \<longrightarrow> c \<in> sy_open y \<longrightarrow> runs ops y m')
   | _ \<Rightarrow> True)"

fun inputs_ok :: "auth_key_fn \<Rightarrow> ('p, 'snd) peer_ops \<Rightarrow> string \<Rightarrow> ('p, 'snd) ws_input list \<Rightarrow> ('p, 'snd) ws_conn \<Rightarrow> bool" where
  "inputs_ok gen ops conn_id [] c = True"
| "inputs_ok gen ops conn_id (i # is) c \<longleftrightarrow> input_ok ops conn_id i (hc_manager c) \<and>
     (case ws_loop_step gen ops conn_id i c of (Break, c') \<Rightarrow> True | (Continue, c') \<Rightarrow> inputs_ok gen ops conn_id is c')"

section \<open>Runs\<close>

lemma runs_refl [intro]: "runs ops y (sy_mgr y)"
  by (auto simp: runs_def)

lemma runs_trans:
  assumes "runs ops y m" and "\<And>y'. sy_mgr y' = m \<Longrightarrow> sy_open y' = sy_open y \<Longrightarrow> runs ops y' m'"
  shows "runs ops y m'"
proof -
  from assms(1) obtain y' where y': "(sys_step ops)\<^sup>*\<^sup>* y y'" "sy_mgr y' = m" "sy_open y' = sy_open y" by (auto simp: runs_def)
  from assms(2) [OF y'(2,3)] obtain z where "(sys_step ops)\<^sup>*\<^sup>* y' z" "sy_mgr z = m'" "sy_open z = sy_open y'" by (auto simp: runs_def)
  with y' show ?thesis unfolding runs_def by (intro exI [of _ z]) auto
qed

lemma runs_step: "sys_step ops y y' \<Longrightarrow> sy_open y' = sy_open y \<Longrightarrow> runs ops y (sy_mgr y')"
  by (auto simp: runs_def)

lemma runs_update: "sys_step ops y (y\<lparr>sy_mgr := m\<rparr>) \<Longrightarrow> runs ops y m"
  using runs_step [of ops y "y\<lparr>sy_mgr := m\<rparr>"] by simp

lemmas runs_single =
  runs_update [OF sy_reserve] runs_update [OF sy_media] runs_update [OF sy_abort] runs_update [OF sy_user] runs_update [OF sy_refresh]
  runs_update [OF sy_remove] runs_update [OF sy_teardown]

section \<open>The operations of the handler\<close>

lemma connect_runs:
  fixes y :: "('p, 'snd) system"
  assumes "c \<in> sy_open y" and fresh: "\<And>w. ne_webrtc env = Inr w \<Longrightarrow> ws_fresh w"
    and run: "connect_user ops env c username (sy_mgr y) = (res, m')"
  shows "runs ops y m'"
proof -
  obtain x m1 where r: "connect_reserve c (sy_mgr y) = (x, m1)" by fastforce
  have R1: "runs ops y m1" using runs_single(1) [OF assms(1), of ops] r by simp
  show ?thesis
  proof (cases x)
    case (Inl e)
    with R1 r run show ?thesis by (simp add: connect_user_def)
  next
    case (Inr u)
    then have fl: "0 < sm_inflight m1" using r by (auto simp: connect_reserve_def split: if_splits option.splits)
    obtain z m2 where s: "connect_setup env m1 = (z, m2)" by fastforce
    have m2: "m2 = m1 \<or> m2 = snd (initialize_media (ne_media env) m1)" and z: "\<And>w. z = Inr w \<Longrightarrow> ne_webrtc env = Inr w"
      using s by (auto simp: connect_setup_def split: sum.splits option.splits prod.splits)
    have fl2: "0 < sm_inflight m2" using fl m2 by (auto simp: initialize_media_def split: option.splits sum.splits)
    have R2: "runs ops y m2"
      using R1 m2 by (auto intro: runs_trans runs_single(2))
    show ?thesis
    proof (cases z)
      case (Inl e)
      then have "m' = connect_abort m2" using r s run Inr by (simp add: connect_user_def)
      then show ?thesis using fl2 by (auto intro: runs_trans [OF R2] runs_single(3))
    next
      case (Inr w)
      then have i: "connect_install ops c username w m2 = (res, m')" using r s run \<open>x = Inr u\<close> by (simp add: connect_user_def)
      show ?thesis
      proof (rule runs_trans [OF R2])
        fix y' :: "('p, 'snd) system"
        assume y': "sy_mgr y' = m2" "sy_open y' = sy_open y"
        have "sys_step ops y' (y'\<lparr>sy_mgr := m', sy_tasks := spawn_events (sm_next (sy_mgr y')) c res (sy_tasks y')\<rparr>)"
          by (rule sy_install) (use y' assms(1) fl2 fresh [OF z [OF Inr]] i in simp_all)
        from runs_step [OF this] show "runs ops y' m'" by simp
      qed
    qed
  qed
qed

lemma disconnect_runs: "runs ops y (disconnect_user ops c (sy_mgr y))"
proof (cases "sm_sessions (sy_mgr y) c")
  case None
  then show ?thesis by (auto simp: disconnect_user_def disconnect_remove_def)
next
  case (Some r)
  let ?m = "snd (disconnect_remove c (sy_mgr y))"
  have r: "r \<in> sm_teardown ?m" and d: "disconnect_user ops c (sy_mgr y) = teardown_run ops r ?m"
    using Some by (simp_all add: disconnect_user_def disconnect_remove_def)
  have "runs ops y' (teardown_run ops r ?m)" if "sy_mgr y' = ?m" for y'
    using runs_single(7) [of r y' ops] r that by simp
  with runs_trans [OF runs_update [OF sy_remove [of ops y c]]] show ?thesis unfolding d by blast
qed

lemma on_session_runs:
  assumes c: "c \<in> sy_open y" and run: "on_session c f (sy_mgr y) = (x, msgs, m')"
    and f: "\<And>r s v new s'. sm_sessions (sy_mgr y) c = Some r \<Longrightarrow> sm_heap (sy_mgr y) r = Some s \<Longrightarrow> f s = (v, new, s') \<Longrightarrow> session_step ops By_user s new s'"
  shows "runs ops y m'"
proof (cases "\<exists>r s. sm_sessions (sy_mgr y) c = Some r \<and> sm_heap (sy_mgr y) r = Some s")
  case True
  then obtain r s where r: "sm_sessions (sy_mgr y) c = Some r" "sm_heap (sy_mgr y) r = Some s" by blast
  obtain v new s' where s': "f s = (v, new, s')" by (metis prod_cases3)
  have "m' = put_session r s' (sy_mgr y)" using run r s' by (simp add: on_session_def get_session_def put_session_def)
  with runs_single(4) [OF c r f [OF r s']] show ?thesis by simp
next
  case False
  then have "m' = sy_mgr y" using run by (auto simp: on_session_def get_session_def split: option.splits)
  then show ?thesis by auto
qed

lemma quiet_command:
  assumes "plain_command cmd" and "quiet (push_command cmd) s = (v, new, s')"
  shows "session_step ops By_user s new s'"
  using assms by (auto simp: quiet_def intro: ss_command split: prod.splits)

lemmas command_defs = send_chat_def join_channel_def set_mute_def set_deaf_def

lemma message_runs:
  assumes c: "c \<in> sy_open y" and env: "env_ok c env (sy_mgr y)"
    and run: "handle_client_message gen ops env c msg (sy_mgr y) = (msgs, m')"
  shows "runs ops y m'"
proof -
  have on: "runs ops y m'" if "report code (on_session c f (sy_mgr y)) = (msgs, m')"
    "\<And>r s v new s'. sm_sessions (sy_mgr y) c = Some r \<Longrightarrow> sm_heap (sy_mgr y) r = Some s \<Longrightarrow> f s = (v, new, s') \<Longrightarrow> session_step ops By_user s new s'"
    for code f
  proof -
    obtain x new m1 where o: "on_session c f (sy_mgr y) = (x, new, m1)" by (metis prod_cases3)
    have "m1 = m'" using that(1) o by (auto simp: report_def split: sum.splits)
    with on_session_runs [OF c o that(2)] show ?thesis by simp
  qed
  have command: "runs ops y m'" if "report code (on_session c (quiet (push_command cmd)) (sy_mgr y)) = (msgs, m')" "plain_command cmd" for code cmd
    by (rule on [OF that(1)]) (rule quiet_command [OF that(2)])
  show ?thesis
  proof (cases msg)
    case (Connect d)
    show ?thesis
    proof (cases "valid_username (cd_username d)")
      case True
      obtain res m1 where r: "connect_user ops (he_connect env) c (cd_username d) (sy_mgr y) = (res, m1)" by fastforce
      have "runs ops y m1" by (rule connect_runs [OF c _ r]) (use env in \<open>simp add: env_ok_def\<close>)
      moreover have "m1 = m'" using run Connect True r by (auto simp: handle_client_message_def split: sum.splits)
      ultimately show ?thesis by simp
    qed (use run Connect in \<open>auto simp: handle_client_message_def\<close>)
  next
    case Disconnect
    with run disconnect_runs [of ops y c] show ?thesis by (simp add: handle_client_message_def)
  next
    case (Answer d)
    with run show ?thesis by (intro on [of "''voice_error''" "handle_answer ops (ad_sdp d)"] ss_answer) (simp_all add: handle_client_message_def)
  next
    case StartVoice
    with run env show ?thesis
      by (intro on [of "''voice_error''" "start_voice ops (he_speakers env) False"] ss_voice) (simp_all add: handle_client_message_def env_ok_def)
  next
    case IceRestart
    with run env show ?thesis
      by (intro on [of "''voice_error''" "start_voice ops (he_speakers env) True"] ss_voice) (simp_all add: handle_client_message_def env_ok_def)
  next
    case IceRefresh
    then have "m' = snd (snd (manager_refresh_ice gen (he_issue env) c (sy_mgr y)))"
      using run by (auto simp: handle_client_message_def report_def split: sum.splits prod.splits)
    with runs_single(5) [OF c] show ?thesis by simp
  next
    case (IceCandidate d)
    have "session_step ops By_user s new s'" if "quiet (session_add_ice_candidate ops d) s = (v, new, s')" for s v new s'
      using that by (auto simp: quiet_def intro: ss_candidate split: prod.splits)
    with IceCandidate run show ?thesis by (intro on [of "''ice_failed''" "quiet (session_add_ice_candidate ops d)"]) (auto simp: handle_client_message_def)
  next
    case (ChatSend d)
    show ?thesis
    proof (cases "length (csd_message d) > 4096")
      case False
      with ChatSend run show ?thesis
        by (intro command [of "''chat_failed''" "C_send_chat (csd_channel_id d) (csd_message d)"])
          (auto simp: handle_client_message_def command_defs plain_command_def)
    qed (use run ChatSend in \<open>auto simp: handle_client_message_def\<close>)
  next
    case (ChannelJoin d)
    with run show ?thesis by (intro command [of "''channel_join_failed''" "C_join_channel (cj_channel_id d)"])
        (auto simp: handle_client_message_def command_defs plain_command_def)
  next
    case (Mute d)
    with run show ?thesis by (intro command [of "''mute_failed''" "C_set_mute (md_muted d)"])
        (auto simp: handle_client_message_def command_defs plain_command_def)
  next
    case (Deafen d)
    with run show ?thesis by (intro command [of "''deafen_failed''" "C_set_deaf (dd_deafened d)"])
        (auto simp: handle_client_message_def command_defs plain_command_def)
  qed (use run in \<open>auto simp: handle_client_message_def\<close>)
qed

lemma loop_step_runs:
  assumes c: "conn_id \<in> sy_open y" and m: "sy_mgr y = hc_manager c" and ok: "input_ok ops conn_id i (hc_manager c)"
  shows "runs ops y (hc_manager (snd (ws_loop_step gen ops conn_id i c)))"
proof (cases i)
  case (In_text msg env)
  obtain msgs m' where h: "handle_client_message gen ops env conn_id msg (hc_manager c) = (msgs, m')" by fastforce
  have "runs ops y m'" by (rule message_runs [OF c]) (use ok h In_text m in \<open>auto simp: input_ok_def\<close>)
  with In_text h m [symmetric] show ?thesis by (auto simp: ws_loop_step_def Let_def)
next
  case (In_cancelled msg m')
  with ok m c have "runs ops y m'" by (auto simp: input_ok_def)
  with In_cancelled m [symmetric] show ?thesis by (auto simp: ws_loop_step_def)
qed (use m [symmetric] in \<open>auto simp: ws_loop_step_def\<close>)

lemma loop_runs:
  "conn_id \<in> sy_open y \<Longrightarrow> sy_mgr y = hc_manager c \<Longrightarrow> inputs_ok gen ops conn_id is c \<Longrightarrow>
     runs ops y (hc_manager (ws_loop gen ops conn_id is c))"
proof (induction "is" arbitrary: c y)
  case Nil
  then show ?case using runs_refl [of ops y] by simp
next
  case (Cons i xs)
  obtain l c' where st: "ws_loop_step gen ops conn_id i c = (l, c')" by fastforce
  from loop_step_runs [OF Cons.prems(1,2), of ops i gen] Cons.prems(3) st have one: "runs ops y (hc_manager c')" by simp
  show ?case
  proof (cases l)
    case Continue
    have "runs ops y' (hc_manager (ws_loop gen ops conn_id xs c'))" if "sy_mgr y' = hc_manager c'" "sy_open y' = sy_open y" for y'
      using Cons.IH [of y' c'] Cons.prems(1,3) st Continue that by simp
    with runs_trans [OF one] Continue st show ?thesis by simp
  qed (use one st in simp)
qed

section \<open>The handler in the system\<close>

definition demo_connect_env :: "(sim_peer, nat) handler_env" where
  "demo_connect_env = \<lparr>he_connect = \<lparr>ne_lookup = Inr [Sock4 1 64738], ne_mumble = Some (Inr ()),
       ne_media = Inr \<lparr>ma_udp4_only = True, ma_mdns = False, ma_include_loopback = False, ma_nat_1to1 = [], ma_socket = None\<rparr>,
       ne_webrtc = Inr (ur_webrtc fresh_demo)\<rparr>,
     he_issue = \<lparr>ie_draw = demo_draw, ie_order = [], ie_now = 10\<rparr>, he_speakers = []\<rparr>"


lemma demo_connected:
  assumes "connect_user sim_peer_ops (he_connect demo_connect_env) ''a'' ''bob'' (with_turn (Some demo_turn_service) (manager_new demo_turn_config)) = (res, m)"
  shows "res = Inr () \<and> sm_sessions m = [''a'' \<mapsto> 0] \<and> sm_heap m = [0 \<mapsto> user_session_new (ur_webrtc fresh_demo) ''bob''] \<and> sm_next m = 1"
  using assms
  by (auto simp: connect_user_def connect_reserve_def connect_setup_def resolve_mumble_addr_def initialize_media_def connect_install_def demo_connect_env_def
      with_turn_def manager_new_def demo_turn_config_def try_acquire_owned_def sem_new_def Let_def)


end
