(* ===== verification/Terminal_Notice.thy ===== *)
theory Terminal_Notice
  imports Session_System
begin

text \<open>
  The end of a session as its browser learns of it (\<open>src/src/session.rs\<close>, \<open>finish_session\<close> and the end of \<open>process_events\<close>): the error
  \<open>mumble_disconnected\<close> is sent under the lock of the session map, by the task of the registered session and nobody else, after the session's
  slot was given back.
\<close>

definition disconnect_notice :: "server_message \<Rightarrow> bool" where
  "disconnect_notice msg \<longleftrightarrow> error_code msg = Some ''mumble_disconnected''"

definition terminal_ok :: "event_task \<Rightarrow> bool" where
  "terminal_ok et \<longleftrightarrow> (\<forall>msg. et_terminal et = Some msg \<longrightarrow> disconnect_notice msg)"

primrec phase_terminal_ok :: "event_phase \<Rightarrow> bool" where
  "phase_terminal_ok T_pending = True"
| "phase_terminal_ok (T_select et) = terminal_ok et"
| "phase_terminal_ok (T_handle et inp) = terminal_ok et"
| "phase_terminal_ok (T_announce et env sid channels users) = terminal_ok et"
| "phase_terminal_ok (T_shutdown et) = terminal_ok et"
| "phase_terminal_ok (T_remove et) = terminal_ok et"
| "phase_terminal_ok T_revoke = True"
| "phase_terminal_ok T_done = True"

section \<open>What the event task sends while the session lives\<close>

lemma notice_simps [simp]:
  "disconnect_notice (server_error code e) \<longleftrightarrow> code = ''mumble_disconnected''" "\<not> disconnect_notice (voice_error e)"
  by (auto simp: disconnect_notice_def voice_error_def)

lemma send_offer_quiet: "send_offer x s = (res, msgs, s') \<Longrightarrow> \<not> list_ex disconnect_notice msgs"
  by (auto simp: send_offer_def disconnect_notice_def error_code_def split: prod.splits sum.splits option.splits)

lemma announce_quiet: "announce_login gen env config c sid channels users turn = (msg, turn') \<Longrightarrow> \<not> disconnect_notice msg"
  by (auto simp: announce_login_def disconnect_notice_def error_code_def Let_def split: prod.splits)

lemma webrtc_event_quiet: "handle_webrtc_event ops display_state ev s = (msgs, s') \<Longrightarrow> \<not> list_ex disconnect_notice msgs"
  by (cases ev) (auto simp: handle_webrtc_event_def disconnect_notice_def [of "SIceCandidate _"] error_code_def
      dest: send_offer_quiet split: prod.splits sum.splits if_splits)

lemma mumble_event_quiet:
  assumes "handle_mumble_event gen ops config c env ev s turn et = (l, msgs, s', turn', et')"
  shows "\<not> list_ex disconnect_notice msgs \<and> (terminal_ok et \<longrightarrow> terminal_ok et')"
proof (cases ev)
  case (M_connected sid channels users)
  with assms show ?thesis
    by (auto simp: handle_mumble_event_def on_connected_def terminal_ok_def Let_def dest: announce_quiet split: prod.splits if_splits)
next
  case (M_user_joined u)
  with assms show ?thesis
    by (auto simp: handle_mumble_event_def on_user_joined_def terminal_ok_def disconnect_notice_def [of "SUserJoined _"] error_code_def Let_def
        split: prod.splits sum.splits if_splits)
next
  case (M_user_left sid)
  with assms show ?thesis
    by (auto simp: handle_mumble_event_def on_user_left_def terminal_ok_def disconnect_notice_def [of "SUserLeft _"] error_code_def Let_def
        split: prod.splits sum.splits if_splits)
qed (use assms in \<open>auto simp: handle_mumble_event_def terminal_ok_def disconnect_notice_def error_code_def server_error_def split: option.splits\<close>)

lemma event_handle_quiet:
  assumes "event_handle gen ops display_state config c inp s turn et = (l, msgs, s', turn', et')"
  shows "\<not> list_ex disconnect_notice msgs \<and> (terminal_ok et \<longrightarrow> terminal_ok et')"
  using assms
  by (auto simp: event_handle_def split: event_input.splits option.splits prod.splits dest: mumble_event_quiet webrtc_event_quiet)

lemma task_step_terminal:
  assumes "task_step ops c r ph m msgs ph' m'"
  shows "(phase_terminal_ok ph \<longrightarrow> phase_terminal_ok ph') \<and> (list_ex disconnect_notice msgs \<longrightarrow> (\<exists>et. ph = T_remove et))"
  using assms
proof (cases rule: task_step.cases)
  case (ts_handle s inp gen display_state et l s' turn' et')
  then show ?thesis using event_handle_quiet [OF ts_handle(6)] by (auto split: loop.split)
next
  case (ts_announce gen env sid channels users msg turn' et)
  then show ?thesis using announce_quiet [OF ts_announce(5)] by simp
qed (auto simp: event_task_start_def terminal_ok_def split: if_splits)

definition tasks_terminal_ok :: "('p, 'snd) system \<Rightarrow> bool" where
  "tasks_terminal_ok y \<longleftrightarrow> (\<forall>r c ph. sy_tasks y r = Some (c, ph) \<longrightarrow> phase_terminal_ok ph)"

lemma tasks_terminal_step: "sys_step ops y y' \<Longrightarrow> tasks_terminal_ok y \<Longrightarrow> tasks_terminal_ok y'"
proof (induction rule: sys_step.induct)
  case (sy_task y r c ph msgs ph' m')
  then show ?case using task_step_terminal [OF sy_task(2)] by (auto simp: tasks_terminal_ok_def)
qed (auto simp: tasks_terminal_ok_def spawn_events_def)

interpretation terminal_tasks: invariant_system "\<lambda>y. y = system_new cfg t" "sys_step ops" tasks_terminal_ok for cfg t ops
  by unfold_locales (simp add: tasks_terminal_ok_def system_new_def, rule tasks_terminal_step)

section \<open>A task that removed its session says nothing more\<close>

inductive_cases revoke_stepE: "task_step ops c r T_revoke m msgs ph' m'"
inductive_cases done_stepE: "task_step ops c r T_done m msgs ph' m'"
inductive_cases remove_stepE: "task_step ops c r (T_remove et) m msgs ph' m'"

definition settled :: "nat \<Rightarrow> string \<Rightarrow> ('p, 'snd) system \<Rightarrow> bool" where
  "settled r c y \<longleftrightarrow> (\<exists>ph \<in> {T_revoke, T_done}. sy_tasks y r = Some (c, ph))"

lemma settled_step:
  assumes "sys_step ops y y'" and inv: "sys_inv n y" and t: "settled r c y"
  shows "settled r c y'"
  using assms(1)
proof (cases rule: sys_step.cases)
  case (sy_install d w username res m')
  have "r \<in> dom (sm_heap (sy_mgr y))" using inv t tasks_doms(1) [of y] by (auto simp: sys_inv_def settled_def)
  then have "r \<noteq> sm_next (sy_mgr y)" using inv by (auto simp: sys_inv_def mgr_inv_def)
  with sy_install t show ?thesis by (auto simp: settled_def spawn_events_def)
next
  case (sy_task q d ph msgs ph' m')
  with t show ?thesis by (cases "q = r") (auto simp: settled_def elim: revoke_stepE done_stepE)
qed (use t in \<open>simp_all add: settled_def\<close>)

lemma settled_run:
  assumes "(sys_step ops)\<^sup>*\<^sup>* y z" and "reachable (\<lambda>y. y = system_new cfg t) (sys_step ops) y" and "settled r c y"
  shows "settled r c z"
  using assms(1)
proof (induction rule: rtranclp_induct)
  case (step z z')
  from session_system.reachable_inv [OF reachable_rtranclp [OF step(1) assms(2)]] step show ?case by (blast intro: settled_step)
qed (rule assms(3))

lemma settled_silent: "settled r c z \<Longrightarrow> sy_tasks z r = Some (c, ph) \<Longrightarrow> task_step ops c r ph m msgs ph' m' \<Longrightarrow> msgs = []"
  by (auto simp: settled_def elim: revoke_stepE done_stepE)

section \<open>The notice\<close>

text \<open>
  C13. A browser is told \<open>mumble_disconnected\<close> only once its session is over. A task sends that error exactly when it ends with the error set and its
  own session is still the one registered for the connection, so a reconnect never gets the error of the session it replaced. The session is then closed
  and has given its slot back; right after the message nothing is registered for the connection, so that a connect is refused only at shutdown or when every slot is
  taken; and the task never sends anything again.
\<close>

theorem disconnect_notice_after_release:
  assumes "reachable (\<lambda>y. y = system_new cfg t) (sys_step ops) y"
    and "sy_tasks y r = Some (c, ph)" and "task_step ops c r ph (sy_mgr y) msgs ph' m'"
  shows "(list_ex disconnect_notice msgs \<longleftrightarrow>
      (\<exists>et. ph = T_remove et \<and> et_terminal et \<noteq> None \<and> sm_sessions (sy_mgr y) c = Some r)) \<and>
    (list_ex disconnect_notice msgs \<longrightarrow> length msgs = 1 \<and>
      (\<exists>s. sm_heap m' r = Some s \<and> ur_closed s \<and> \<not> ur_slot s) \<and> sm_sessions m' c = None \<and>
      fst (connect_reserve c m') =
        (if sm_shutdown m' then Inl ''Server is shutting down'' else if available_permits (sm_slots m') = 0 then Inl ''Server full'' else Inr ()) \<and>
      (\<forall>z qh ms qh' mz. (sys_step ops)\<^sup>*\<^sup>* (y\<lparr>sy_mgr := m', sy_tasks := (sy_tasks y)(r \<mapsto> (c, ph'))\<rparr>) z \<longrightarrow>
         sy_tasks z r = Some (c, qh) \<longrightarrow> task_step ops c r qh (sy_mgr z) ms qh' mz \<longrightarrow> ms = []))"
proof -
  note inv = session_system.reachable_inv [OF assms(1)]
  then have ti: "tasks_inv y" by (simp add: sys_inv_def)
  have tok: "phase_terminal_ok ph" using terminal_tasks.reachable_inv [OF assms(1)] assms(2) by (simp add: tasks_terminal_ok_def)
  let ?y = "y\<lparr>sy_mgr := m', sy_tasks := (sy_tasks y)(r \<mapsto> (c, ph'))\<rparr>"
  show ?thesis
  proof (cases "\<exists>et. ph = T_remove et")
    case False
    then show ?thesis using task_step_terminal [OF assms(3)] by blast
  next
    case True
    then obtain et where et: "ph = T_remove et" ..
    from assms(3) obtain b where f: "finish_remove c r (et_terminal et) (sy_mgr y) = (b, msgs, m')" and ph': "ph' = T_revoke"
      unfolding et by (elim remove_stepE) simp
    obtain s where s: "sm_heap (sy_mgr y) r = Some s" using tasks_doms(1) [OF ti] assms(2) by blast
    have "ur_closed s" "session_wf s" using tasks_session_ok [OF ti s] assms(2) et by (simp_all add: session_ok_def)
    then have cl: "ur_closed s" "\<not> ur_slot s" by (simp_all add: session_wf_def)
    have iff: "list_ex disconnect_notice msgs \<longleftrightarrow> et_terminal et \<noteq> None \<and> sm_sessions (sy_mgr y) c = Some r"
      using f tok et by (auto simp: finish_remove_def terminal_ok_def split: if_splits option.splits)
    have silent: "ms = []" if "(sys_step ops)\<^sup>*\<^sup>* ?y z" "sy_tasks z r = Some (c, qh)" "task_step ops c r qh (sy_mgr z) ms qh' mz" for z qh ms qh' mz
    proof -
      have "settled r c z"
        by (rule settled_run [OF that(1) reachable_step [OF assms(1) sy_task [OF assms(2,3)]]]) (simp add: settled_def ph')
      from settled_silent [OF this that(2,3)] show ?thesis .
    qed
    have m': "sm_heap m' = sm_heap (sy_mgr y) \<and> sm_sessions m' c = None" if "sm_sessions (sy_mgr y) c = Some r"
      using f that by (auto simp: finish_remove_def)
    have "fst (connect_reserve c m') = (if sm_shutdown m' then Inl ''Server is shutting down''
        else if available_permits (sm_slots m') = 0 then Inl ''Server full'' else Inr ())" if "sm_sessions m' c = None"
      using that tokio_semaphore.acquire_None [of "sm_slots m'"] by (auto simp: connect_reserve_def split: option.split)
    moreover have "length msgs = 1" if "list_ex disconnect_notice msgs"
      using that f by (auto simp: finish_remove_def split: if_splits option.splits)
    ultimately show ?thesis using et iff m' silent s cl by auto
  qed
qed

theorem disconnect_notice_after_release_witness:
  "\<exists>(m :: (sim_peer, nat) manager) m'. task_step sim_peer_ops ''a'' 0
     (T_remove \<lparr>et_user_map = Map.empty, et_terminal = Some (server_error ''mumble_disconnected'' ''kicked'')\<rparr>) m
     [server_error ''mumble_disconnected'' ''kicked''] T_revoke m' \<and> fst (connect_reserve ''a'' m') = Inr ()"
proof -
  let ?y0 = "system_new demo_turn_config (Some demo_turn_service) :: (sim_peer, nat) system"
  let ?R = "reachable (\<lambda>y. y = ?y0) (sys_step sim_peer_ops)" and ?w = "ur_webrtc fresh_demo"
  let ?e = "server_error ''mumble_disconnected'' ''kicked''"
  let ?et = "\<lparr>et_user_map = Map.empty, et_terminal = Some ?e\<rparr>"
  obtain y s where y: "?R y" "sy_tasks y 0 = Some (''a'', T_pending)" "sm_heap (sy_mgr y) 0 = Some s" "\<not> ur_closed s" "\<not> ur_close_notify s"
    "sm_sessions (sy_mgr y) ''a'' = Some 0" "\<not> sm_shutdown (sy_mgr y)" "available_permits (sm_slots (sy_mgr y)) = 9"
    by (rule reach_first_session)
  obtain gen :: auth_key_fn and display_state :: "peer_connection_state \<Rightarrow> string" and env :: event_env where True by simp
  have "event_handle gen sim_peer_ops display_state (sm_config (sy_mgr y)) ''a'' (E_mumble env (Some (M_disconnected ''kicked''))) u turn
      \<lparr>et_user_map = Map.empty, et_terminal = None\<rparr> = (Break, [], u, turn, ?et)" for u turn
    by (simp add: event_handle_def handle_mumble_event_def)
  note R = reach_remove [OF y(1-5) _ this]
  let ?m = "shutdown_ref sim_peer_ops 0 (put_session 0 (s\<lparr>ur_voice_setup_task := True\<rparr>) (sy_mgr y))"
  let ?m' = "?m\<lparr>sm_sessions := (sm_sessions ?m)(''a'' := None)\<rparr>"
  have "finish_remove ''a'' 0 (et_terminal ?et) ?m = (True, [?e], ?m')" using y(6) by (simp add: finish_remove_def put_session_def)
  note st = ts_remove [OF this, of sim_peer_ops]
  have a: "available_permits (sm_slots ?m') \<noteq> 0" "\<not> sm_shutdown ?m'"
    using y(7,8) by (simp_all add: shutdown_ref_def put_session_def tokio_semaphore.avail_release)
  have "fst (connect_reserve ''a'' ?m') = Inr ()"
    using disconnect_notice_after_release [OF R, of 0 "''a''" "T_remove ?et" "[?e]" T_revoke ?m'] st a by (simp add: login_event_def)
  with st show ?thesis by blast
qed

end
