(* ===== verification/Presence_Path.thy ===== *)
theory Presence_Path
  imports Session_Lifecycle
begin

text \<open>
  From the Mumble control connection to the browser: the packets the Mumble server sends
  (\<open>src/src/mumble/client.rs\<close>), the events they become, the event task that turns them into messages
  (\<open>src/src/session.rs\<close>), and the picture of channels and users that a browser has which follows
  \<open>docs/frontend-api.md\<close>. The tasks run at their own pace: the connection may be ahead of the event task by any number of events, and
  other tasks of the session put their messages in between.
\<close>

section \<open>The browser's picture\<close>

record browser_view =
  bv_channels :: "u32 \<rightharpoonup> channel_info"
  bv_users :: "u32 \<rightharpoonup> user_info"

text \<open>
  \<open>connected\<close> is a snapshot, \<open>user_joined\<close>, \<open>user_left\<close> and \<open>user_state\<close> (absent fields keep their value) change the users,
  \<open>channel_updated\<close> adds or replaces channels; no other message concerns the picture.
\<close>

definition browser_apply :: "server_message \<Rightarrow> browser_view \<Rightarrow> browser_view" where
  "browser_apply msg v = (case msg of
     SConnected d \<Rightarrow> \<lparr>bv_channels = map_of (map (\<lambda>ch. (ch_id ch, ch)) (cn_channels d)),
                     bv_users = map_of (map (\<lambda>u. (ui_session_id u, u)) (cn_users d))\<rparr>
   | SUserJoined u \<Rightarrow> v\<lparr>bv_users := (bv_users v)(ui_session_id u \<mapsto> u)\<rparr>
   | SUserLeft d \<Rightarrow> v\<lparr>bv_users := (bv_users v)(ul_session_id d := None)\<rparr>
   | SUserState st \<Rightarrow> v\<lparr>bv_users := (bv_users v)(us_session_id st := map_option (apply_user_state st) (bv_users v (us_session_id st)))\<rparr>
   | SChannelUpdated d \<Rightarrow> v\<lparr>bv_channels := fold (\<lambda>ch m. m(ch_id ch \<mapsto> ch)) (cu_channels d) (bv_channels v)\<rparr>
   | _ \<Rightarrow> v)"

definition browser_sees :: "server_message list \<Rightarrow> browser_view" where
  "browser_sees msgs = fold browser_apply msgs \<lparr>bv_channels = Map.empty, bv_users = Map.empty\<rparr>"

definition concerns_view :: "server_message \<Rightarrow> bool" where
  "concerns_view msg = (case msg of
     SConnected _ \<Rightarrow> True | SUserJoined _ \<Rightarrow> True | SUserLeft _ \<Rightarrow> True | SUserState _ \<Rightarrow> True | SChannelUpdated _ \<Rightarrow> True
   | SChatReceived _ \<Rightarrow> True | _ \<Rightarrow> False)"

section \<open>The pipeline\<close>

text \<open>
  The connection with all events it ever sent, how many of them the event task has taken, the
  session, the locals of the event task, a login whose answer is still to be sent, and all messages put on the WebSocket channel.
\<close>

record ('p, 'snd) presence =
  pv_conn :: mumble_conn
  pv_taken :: nat
  pv_session :: "('p, 'snd) user_session"
  pv_turn :: "turn_service option"
  pv_task :: event_task
  pv_pending :: "(issue_env \<times> u32 \<times> channel_info list \<times> user_info list) option"
  pv_running :: bool
  pv_sent :: "server_message list"

definition next_event :: "('p, 'snd) presence \<Rightarrow> mumble_event option" where
  "next_event v =
     (if pv_running v \<and> pv_pending v = None \<and> pv_taken v < length (mc_events (pv_conn v))
      then Some (mc_events (pv_conn v) ! pv_taken v) else None)"

definition is_login :: "mumble_event \<Rightarrow> bool" where
  "is_login ev = (case ev of M_connected _ _ _ \<Rightarrow> True | _ \<Rightarrow> False)"

inductive presence_step ::
  "auth_key_fn \<Rightarrow> ('p, 'snd) peer_ops \<Rightarrow> config \<Rightarrow> string \<Rightarrow> ('p, 'snd) presence \<Rightarrow> ('p, 'snd) presence \<Rightarrow> bool"
  for gen :: auth_key_fn and ops :: "('p, 'snd) peer_ops" and config :: config and conn_id :: string where
  pv_packet: "packet_step (pv_conn v) c' \<Longrightarrow> presence_step gen ops config conn_id v (v\<lparr>pv_conn := c'\<rparr>)"
| pv_login: "next_event v = Some (M_connected sid channels users) \<Longrightarrow>
    et' = (pv_task v)\<lparr>et_user_map := insert_names users (et_user_map (pv_task v))\<rparr> \<Longrightarrow>
    presence_step gen ops config conn_id v
      (if ur_closed (pv_session v) then v\<lparr>pv_taken := pv_taken v + 1, pv_task := et', pv_running := False\<rparr>
       else v\<lparr>pv_taken := pv_taken v + 1, pv_task := et', pv_session := login_session sid users (pv_session v),
              pv_pending := Some (env, sid, channels, users)\<rparr>)"
| pv_announce: "pv_pending v = Some (env, sid, channels, users) \<Longrightarrow>
    announce_login gen env config conn_id sid channels users (pv_turn v) = (msg, turn') \<Longrightarrow>
    presence_step gen ops config conn_id v (v\<lparr>pv_pending := None, pv_turn := turn', pv_sent := pv_sent v @ [msg]\<rparr>)"
| pv_event: "next_event v = Some ev \<Longrightarrow> \<not> is_login ev \<Longrightarrow>
    handle_mumble_event gen ops config conn_id env ev (pv_session v) (pv_turn v) (pv_task v) = (l, msgs, s', turn', et') \<Longrightarrow>
    presence_step gen ops config conn_id v
      (v\<lparr>pv_taken := pv_taken v + 1, pv_session := s', pv_turn := turn', pv_task := et', pv_running := (l = Continue), pv_sent := pv_sent v @ msgs\<rparr>)"
| pv_webrtc: "pv_running v \<Longrightarrow> pv_pending v = None \<Longrightarrow> handle_webrtc_event ops display_state ev (pv_session v) = (msgs, s') \<Longrightarrow>
    presence_step gen ops config conn_id v (v\<lparr>pv_session := s', pv_sent := pv_sent v @ msgs\<rparr>)"
| pv_stop: "pv_pending v = None \<Longrightarrow> presence_step gen ops config conn_id v (v\<lparr>pv_running := False\<rparr>)"
| pv_others: "session_step ops k (pv_session v) msgs s' \<Longrightarrow> k \<noteq> By_event_task \<Longrightarrow>
    presence_step gen ops config conn_id v (v\<lparr>pv_session := s', pv_sent := pv_sent v @ msgs\<rparr>)"
| pv_refresh: "refresh_ice gen env config conn_id (pv_turn v) (pv_session v) = (x, msgs, turn') \<Longrightarrow>
    presence_step gen ops config conn_id v (v\<lparr>pv_turn := turn', pv_sent := pv_sent v @ msgs\<rparr>)"
| pv_report: "presence_step gen ops config conn_id v (v\<lparr>pv_sent := pv_sent v @ [server_error code e]\<rparr>)"
| pv_teardown: "presence_step gen ops config conn_id v (v\<lparr>pv_session := shutdown_user_session ops (pv_session v)\<rparr>)"

text \<open>A session that was just connected, with its event task about to enter its loop.\<close>

definition presence_init :: "turn_service option \<Rightarrow> ('p, 'snd) presence \<Rightarrow> bool" where
  "presence_init turn v \<longleftrightarrow> (\<exists>w username et s. event_task_start (user_session_new w username) = Some (et, s) \<and>
     v = \<lparr>pv_conn = mumble_conn_new, pv_taken = 0, pv_session = s, pv_turn = turn, pv_task = et, pv_pending = None, pv_running = True, pv_sent = []\<rparr>)"

section \<open>Messages beside the picture\<close>

lemma browser_sees_append: "browser_sees (xs @ ys) = fold browser_apply ys (browser_sees xs)"
  by (simp add: browser_sees_def)

lemma browser_apply_other: "\<not> concerns_view msg \<Longrightarrow> browser_apply msg v = v"
  by (simp add: browser_apply_def concerns_view_def split: server_message.splits)

lemma browser_sees_other: "list_all (\<lambda>m. \<not> concerns_view m) ys \<Longrightarrow> browser_sees (xs @ ys) = browser_sees xs"
proof (induction ys rule: rev_induct)
  case (snoc y ys)
  then show ?case using browser_sees_append [of "xs @ ys" "[y]"] by (simp add: browser_apply_other)
qed simp

lemma error_beside [simp]: "\<not> concerns_view (server_error c e)" "\<not> concerns_view (voice_error e)"
  by (simp_all add: concerns_view_def server_error_def voice_error_def)

lemma send_offer_beside: "list_all (\<lambda>m. \<not> concerns_view m) (fst (snd (send_offer ow s)))"
  by (auto simp: send_offer_def concerns_view_def split: prod.split sum.split option.split)

lemma start_voice_beside: "list_all (\<lambda>m. \<not> concerns_view m) (fst (snd (start_voice ops order restart s)))"
  by (auto simp: start_voice_def Let_def send_offer_beside split: prod.split sum.split)

lemma voice_setup_beside: "list_all (\<lambda>m. \<not> concerns_view m) (fst (voice_setup k a b la s))"
  by (auto simp: voice_setup_def attach_voice_def split: option.split sum.split prod.split)

lemma webrtc_beside: "list_all (\<lambda>m. \<not> concerns_view m) (fst (handle_webrtc_event ops d ev s))"
proof (cases ev)
  case NegotiationNeeded
  with send_offer_beside [of "offer ops False (ur_webrtc s)" s] show ?thesis
    by (auto simp: handle_webrtc_event_def split: prod.split sum.split)
qed (auto simp: handle_webrtc_event_def concerns_view_def server_error_def)

lemma refresh_beside: "refresh_ice gen env config conn_id turn s = (x, msgs, turn') \<Longrightarrow> list_all (\<lambda>m. \<not> concerns_view m) msgs"
  by (auto simp: refresh_ice_def concerns_view_def split: if_splits prod.splits)

lemma session_step_beside: "session_step ops k s msgs s' \<Longrightarrow> k \<noteq> By_event_task \<Longrightarrow> list_all (\<lambda>m. \<not> concerns_view m) msgs"
proof (induction rule: session_step.induct)
  case (ss_voice order s restart x msgs s')
  then show ?case using start_voice_beside [of ops order restart s] by simp
next
  case (ss_answer sdp s x msgs s')
  then show ?case using send_offer_beside [of "answer ops sdp (ur_webrtc s)" s] by (simp add: handle_answer_def)
next
  case (ss_setup crypt addr bind local_addr s msgs s')
  then have m: "msgs = fst (voice_setup crypt addr bind local_addr (s\<lparr>ur_voice_start := False\<rparr>))"
    by (auto simp: voice_setup_run_def split: if_splits)
  show ?case unfolding m by (rule voice_setup_beside)
qed simp_all

section \<open>What an event means to the browser\<close>

text \<open>The same as to a listener of the connection, except that the removal of a channel is not passed on.\<close>

definition channel_removal :: "mumble_event \<Rightarrow> bool" where
  "channel_removal ev = (case ev of M_channel_removed _ \<Rightarrow> True | _ \<Rightarrow> False)"

definition told :: "mumble_event list \<Rightarrow> browser_view" where
  "told evs = (case replay (filter (\<lambda>ev. \<not> channel_removal ev) evs) of (channels, users) \<Rightarrow> \<lparr>bv_channels = channels, bv_users = users\<rparr>)"

lemma replay_snoc_told:
  "told (evs @ [ev]) = (if channel_removal ev then told evs
     else (case apply_event ev (bv_channels (told evs), bv_users (told evs)) of (channels, users) \<Rightarrow> \<lparr>bv_channels = channels, bv_users = users\<rparr>))"
  by (simp add: told_def split: prod.split)

lemma told_users: "bv_users (told evs) = snd (replay evs)"
proof (induction evs rule: rev_induct)
  case (snoc ev evs)
  then show ?case by (cases ev) (simp_all add: replay_snoc_told channel_removal_def)
qed (simp add: told_def replay_def)

text \<open>The channels agree where the connection has one; beyond those the browser keeps only channels that were removed.\<close>

lemma told_channels:
  "(\<forall>i ch. fst (replay evs) i = Some ch \<longrightarrow> bv_channels (told evs) i = Some ch) \<and>
   (\<forall>i. bv_channels (told evs) i \<noteq> None \<longrightarrow> fst (replay evs) i \<noteq> None \<or> M_channel_removed i \<in> set evs)"
proof (induction evs rule: rev_induct)
  case (snoc ev evs)
  then show ?case by (cases ev) (auto simp: replay_snoc_told channel_removal_def)
qed (simp add: told_def replay_def)

lemma handle_event_tells:
  assumes "handle_mumble_event gen ops config conn_id env ev s turn et = (l, msgs, s', turn', et')" and "\<not> is_login ev"
  shows "l = Break \<or> fold browser_apply msgs (told evs) = told (evs @ [ev])"
proof (cases ev)
  case (M_user_joined u)
  then show ?thesis using assms
    by (auto simp: handle_mumble_event_def on_user_joined_def Let_def replay_snoc_told channel_removal_def browser_apply_def voice_error_def
        server_error_def split: prod.splits sum.splits if_splits)
next
  case (M_user_left i)
  then show ?thesis using assms
    by (auto simp: handle_mumble_event_def on_user_left_def Let_def replay_snoc_told channel_removal_def browser_apply_def voice_error_def
        server_error_def split: prod.splits sum.splits)
qed (use assms in \<open>auto simp: handle_mumble_event_def is_login_def replay_snoc_told channel_removal_def browser_apply_def\<close>)

lemma announce_tells:
  assumes "announce_login gen env config conn_id sid channels users turn = (msg, turn')"
  shows "browser_apply msg v = told (evs @ [M_connected sid channels users])"
  using assms by (auto simp: announce_login_def browser_apply_def replay_snoc_told channel_removal_def split: prod.splits)

section \<open>Names\<close>

text \<open>After any number of events, the names the event task keeps are those of the users a listener knows.\<close>

definition names_ok :: "mumble_event list \<Rightarrow> bool" where
  "names_ok evs \<longleftrightarrow> fold name_event evs Map.empty = map_option ui_name \<circ> snd (replay evs)"

definition named_inv :: "mumble_conn \<Rightarrow> bool" where
  "named_inv c \<longleftrightarrow> learns_inv c \<and> (\<not> mc_connected c \<longrightarrow> replay (mc_events c) = (Map.empty, Map.empty)) \<and> (\<forall>n. names_ok (take n (mc_events c)))"

lemma handle_events:
  "mc_events (snd (handle_control_packet co uo packet c)) = mc_events c \<or>
   (\<exists>ev. mc_events (snd (handle_control_packet co uo packet c)) = mc_events c @ [ev] \<and>
      (mc_connected (snd (handle_control_packet co uo packet c)) \<or> (\<forall>r. apply_event ev r = r)))"
  by (cases packet) (auto simp: mumble_simps split: option.split sum.split)

lemma handle_connected: "mc_connected c \<Longrightarrow> mc_connected (snd (handle_control_packet co uo packet c))"
  by (cases packet) (auto simp: mumble_simps split: option.split sum.split)

lemma learns_names: "learns_inv c \<Longrightarrow> (\<not> mc_connected c \<Longrightarrow> replay (mc_events c) = (Map.empty, Map.empty)) \<Longrightarrow> names_ok (mc_events c)"
  by (cases "mc_connected c") (auto simp: names_ok_def learns_inv_def conn_inv_def)

lemma named_step:
  assumes "packet_step c c'" and inv: "named_inv c"
  shows "named_inv c'"
proof -
  from assms(1) obtain co uo packet where c': "c' = snd (handle_control_packet co uo packet c)" by (auto simp: packet_step_iff)
  have l: "learns_inv c'" using assms by (auto simp: named_inv_def intro: mumble_listener.step_inv)
  note ev = handle_events [of co uo packet c, folded c'] and conn = handle_connected [of c co uo packet, folded c']
  have e: "replay (mc_events c') = (Map.empty, Map.empty)" if "\<not> mc_connected c'"
    using that ev conn inv by (auto simp: named_inv_def)
  have last: "names_ok (mc_events c')" by (rule learns_names [OF l e])
  have "names_ok (take n (mc_events c'))" for n
  proof (cases "n < length (mc_events c')")
    case True
    with ev have "take n (mc_events c') = take n (mc_events c)" by auto
    with inv show ?thesis by (simp add: named_inv_def)
  qed (use last in simp)
  with l e show ?thesis by (simp add: named_inv_def)
qed

lemma named_init: "named_inv mumble_conn_new"
  using learns_init by (simp add: named_inv_def mumble_conn_new_def names_ok_def replay_def fun_eq_iff)

section \<open>Labels of chat messages\<close>

definition roster_label :: "browser_view \<Rightarrow> u32 \<Rightarrow> string" where
  "roster_label v u = user_label (map_option ui_name \<circ> bv_users v) u"

definition labelled :: "server_message list \<Rightarrow> bool" where
  "labelled msgs \<longleftrightarrow> (\<forall>pre d post. msgs = pre @ SChatReceived d # post \<longrightarrow>
     cr_sender_name d = roster_label (browser_sees pre) (cr_sender_session d))"

lemma labelled_snoc:
  "labelled msgs \<Longrightarrow> (\<And>d. m = SChatReceived d \<Longrightarrow> cr_sender_name d = roster_label (browser_sees msgs) (cr_sender_session d)) \<Longrightarrow> labelled (msgs @ [m])"
  unfolding labelled_def by (metis (no_types, lifting) append_assoc append_butlast_last_id butlast_snoc last_snoc append_Cons
      butlast_append butlast.simps(2) last_appendR list.distinct(1) last_ConsL list.exhaust append_is_Nil_conv)

lemma labelled_other: "labelled msgs \<Longrightarrow> list_all (\<lambda>m. \<forall>d. m \<noteq> SChatReceived d) ys \<Longrightarrow> labelled (msgs @ ys)"
proof (induction ys rule: rev_induct)
  case (snoc y ys)
  then show ?case using labelled_snoc [of "msgs @ ys" y] by simp
qed simp

lemma beside_not_chat: "list_all (\<lambda>m. \<not> concerns_view m) ys \<Longrightarrow> list_all (\<lambda>m. \<forall>d. m \<noteq> SChatReceived d) ys"
  by (auto simp: list_all_iff concerns_view_def)

section \<open>The pipeline keeps the picture\<close>

definition taken_events :: "('p, 'snd) presence \<Rightarrow> mumble_event list" where
  "taken_events v = take (pv_taken v) (mc_events (pv_conn v))"

definition picture_ok :: "('p, 'snd) presence \<Rightarrow> bool" where
  "picture_ok v \<longleftrightarrow> et_user_map (pv_task v) = fold name_event (taken_events v) Map.empty \<and>
     (case pv_pending v of
        None \<Rightarrow> browser_sees (pv_sent v) = told (taken_events v)
      | Some (env, sid, channels, users) \<Rightarrow> (\<exists>evs. taken_events v = evs @ [M_connected sid channels users]))"

definition presence_inv :: "('p, 'snd) presence \<Rightarrow> bool" where
  "presence_inv v \<longleftrightarrow> named_inv (pv_conn v) \<and> pv_taken v \<le> length (mc_events (pv_conn v)) \<and> labelled (pv_sent v) \<and>
     (pv_running v \<longrightarrow> picture_ok v) \<and> (pv_pending v \<noteq> None \<longrightarrow> pv_running v)"

lemma presence_beside:
  assumes "presence_inv v" and "list_all (\<lambda>m. \<not> concerns_view m) msgs"
  shows "presence_inv (v\<lparr>pv_session := s', pv_turn := t', pv_sent := pv_sent v @ msgs\<rparr>)"
proof -
  have "labelled (pv_sent v @ msgs)" using assms by (auto simp: presence_inv_def intro: labelled_other beside_not_chat)
  with assms browser_sees_other [OF assms(2)] show ?thesis
    by (auto simp: presence_inv_def picture_ok_def taken_events_def split: option.splits)
qed

lemma presence_packet:
  assumes inv: "presence_inv v" and st: "packet_step (pv_conn v) c'"
  shows "presence_inv (v\<lparr>pv_conn := c'\<rparr>)"
proof -
  from st obtain co uo packet where c': "c' = snd (handle_control_packet co uo packet (pv_conn v))" by (auto simp: packet_step_iff)
  have "pv_taken v \<le> length (mc_events (pv_conn v))" using inv by (simp add: presence_inv_def)
  with handle_events [of co uo packet "pv_conn v", folded c'] have "taken_events (v\<lparr>pv_conn := c'\<rparr>) = taken_events v" "pv_taken v \<le> length (mc_events c')"
    by (auto simp: taken_events_def)
  with inv named_step [OF st] show ?thesis by (auto simp: presence_inv_def picture_ok_def split: option.splits)
qed

lemma next_event_taken:
  assumes "next_event v = Some ev"
  shows "pv_running v" "pv_pending v = None" "take (Suc (pv_taken v)) (mc_events (pv_conn v)) = taken_events v @ [ev]"
    "Suc (pv_taken v) \<le> length (mc_events (pv_conn v))"
  using assms by (auto simp: next_event_def taken_events_def take_Suc_conv_app_nth split: if_splits)

lemma event_names:
  assumes "handle_mumble_event gen ops config conn_id env ev s turn et = (l, msgs, s', turn', et')" and "\<not> is_login ev"
  shows "l = Break \<or> et_user_map et' = name_event ev (et_user_map et)"
  using assms by (cases ev) (auto simp: handle_mumble_event_def is_login_def Let_def split: prod.splits option.splits)

lemma event_labels:
  assumes "handle_mumble_event gen ops config conn_id env ev s turn et = (l, msgs, s', turn', et')" and "\<not> is_login ev"
    and "labelled sent" and "et_user_map et = map_option ui_name \<circ> bv_users (browser_sees sent)"
  shows "labelled (sent @ msgs)"
proof (cases ev)
  case (M_chat_message sender ch m)
  with assms show ?thesis by (auto simp: handle_mumble_event_def roster_label_def intro!: labelled_snoc)
next
  case (M_user_joined u)
  with assms show ?thesis
    by (intro labelled_other) (auto simp: handle_mumble_event_def on_user_joined_def voice_error_def server_error_def Let_def split: prod.splits sum.splits if_splits)
next
  case (M_user_left i)
  with assms show ?thesis
    by (intro labelled_other) (auto simp: handle_mumble_event_def on_user_left_def voice_error_def server_error_def Let_def split: prod.splits sum.splits)
qed (use assms in \<open>(intro labelled_other; auto simp: handle_mumble_event_def is_login_def)\<close>)+

lemma presence_event:
  assumes inv: "presence_inv v" and ev: "next_event v = Some ev" "\<not> is_login ev"
    and h: "handle_mumble_event gen ops config conn_id env ev (pv_session v) (pv_turn v) (pv_task v) = (l, msgs, s', turn', et')"
  shows "presence_inv (v\<lparr>pv_taken := pv_taken v + 1, pv_session := s', pv_turn := turn', pv_task := et', pv_running := (l = Continue), pv_sent := pv_sent v @ msgs\<rparr>)"
    (is "presence_inv ?w")
proof -
  note tk = next_event_taken [OF ev(1)]
  have p: "picture_ok v" and lab: "labelled (pv_sent v)" and nm: "names_ok (taken_events v)"
    using inv tk(1) by (auto simp: presence_inv_def named_inv_def taken_events_def)
  have seen: "browser_sees (pv_sent v) = told (taken_events v)" using p tk(2) by (simp add: picture_ok_def)
  have "et_user_map (pv_task v) = map_option ui_name \<circ> bv_users (browser_sees (pv_sent v))"
    using p nm by (simp add: picture_ok_def names_ok_def seen told_users)
  from event_labels [OF h ev(2) lab this] have "labelled (pv_sent v @ msgs)" .
  moreover have "picture_ok ?w" if "l = Continue"
    using handle_event_tells [OF h ev(2), of "taken_events v"] event_names [OF h ev(2)] p seen tk that
    by (simp add: picture_ok_def browser_sees_append taken_events_def)
  ultimately show ?thesis using inv tk by (simp add: presence_inv_def)
qed

lemma presence_login:
  assumes inv: "presence_inv v" and ev: "next_event v = Some (M_connected sid channels users)"
    and et': "et' = (pv_task v)\<lparr>et_user_map := insert_names users (et_user_map (pv_task v))\<rparr>"
  shows "presence_inv (v\<lparr>pv_taken := pv_taken v + 1, pv_task := et', pv_running := False\<rparr>)"
    "presence_inv (v\<lparr>pv_taken := pv_taken v + 1, pv_task := et', pv_session := s', pv_pending := Some (env, sid, channels, users)\<rparr>)"
proof -
  note tk = next_event_taken [OF ev]
  have p: "picture_ok v" using inv tk(1) by (simp add: presence_inv_def)
  show "presence_inv (v\<lparr>pv_taken := pv_taken v + 1, pv_task := et', pv_running := False\<rparr>)"
    using inv tk by (simp add: presence_inv_def)
  show "presence_inv (v\<lparr>pv_taken := pv_taken v + 1, pv_task := et', pv_session := s', pv_pending := Some (env, sid, channels, users)\<rparr>)"
    using inv tk p et' by (auto simp: presence_inv_def picture_ok_def taken_events_def)
qed

lemma presence_announce:
  assumes inv: "presence_inv v" and pend: "pv_pending v = Some (env, sid, channels, users)"
    and a: "announce_login gen env config conn_id sid channels users (pv_turn v) = (msg, turn')"
  shows "presence_inv (v\<lparr>pv_pending := None, pv_turn := turn', pv_sent := pv_sent v @ [msg]\<rparr>)"
proof -
  have "pv_running v" "picture_ok v" using inv pend by (auto simp: presence_inv_def)
  then obtain evs where evs: "taken_events v = evs @ [M_connected sid channels users]" using pend by (auto simp: picture_ok_def)
  have "labelled (pv_sent v @ [msg])"
    using inv a by (auto simp: presence_inv_def announce_login_def intro!: labelled_snoc split: prod.splits)
  moreover have "browser_sees (pv_sent v @ [msg]) = told (taken_events v)"
    using announce_tells [OF a] by (simp add: browser_sees_append evs)
  ultimately show ?thesis using inv \<open>picture_ok v\<close> by (auto simp: presence_inv_def picture_ok_def taken_events_def)
qed

lemma presence_step_inv: "presence_step gen ops config conn_id v v' \<Longrightarrow> presence_inv v \<Longrightarrow> presence_inv v'"
proof (induction rule: presence_step.induct)
  case (pv_login v sid channels users et' env)
  then show ?case using presence_login [OF pv_login(3,1,2)] by simp
next
  case (pv_webrtc v display_state ev msgs s')
  then show ?case using presence_beside [where v = v and msgs = msgs and s' = s' and t' = "pv_turn v"] webrtc_beside [of ops display_state ev "pv_session v"] by simp
next
  case (pv_others k v msgs s')
  then show ?case using presence_beside [where v = v and msgs = msgs and s' = s' and t' = "pv_turn v"] session_step_beside by fastforce
next
  case (pv_refresh env v x msgs turn')
  then show ?case using presence_beside [where v = v and msgs = msgs and s' = "pv_session v" and t' = turn'] refresh_beside by fastforce
next
  case (pv_report v code e)
  then show ?case using presence_beside [where v = v and msgs = "[server_error code e]" and s' = "pv_session v" and t' = "pv_turn v"] by simp
next
  case (pv_stop v)
  then show ?case by (auto simp: presence_inv_def)
next
  case (pv_teardown v)
  then show ?case by (auto simp: presence_inv_def picture_ok_def taken_events_def split: option.splits)
qed (auto intro: presence_packet presence_announce presence_event [simplified])

lemma presence_init_inv: "presence_init turn v \<Longrightarrow> presence_inv v"
  using named_init
  by (auto simp: presence_init_def presence_inv_def picture_ok_def taken_events_def labelled_def browser_sees_def told_def replay_def
      event_task_start_def split: if_splits)

interpretation presence_pipeline: invariant_system "presence_init turn" "presence_step gen ops config conn_id" presence_inv
  for turn gen ops config conn_id
  by unfold_locales (auto intro: presence_init_inv presence_step_inv)

text \<open>An example run: Bob is there, alice logs in without TURN, Bob writes.\<close>

definition demo_presence :: "(sim_peer, nat) presence" where
  "demo_presence = \<lparr>pv_conn = mumble_conn_new, pv_taken = 0, pv_session = demo_user\<lparr>ur_voice_setup_task := True\<rparr>, pv_turn = None,
     pv_task = \<lparr>et_user_map = Map.empty, et_terminal = None\<rparr>, pv_pending = None, pv_running = True, pv_sent = []\<rparr>"

definition demo_connected_msg :: server_message where
  "demo_connected_msg = SConnected \<lparr>cn_protocol_version = 2, cn_ice = \<lparr>ic_ice_servers = [], ic_expires_at = None\<rparr>, cn_session_id = 9,
     cn_channels = [], cn_users = [user_info_of demo_user_state]\<rparr>"

definition demo_logged_in :: "(sim_peer, nat) presence" where
  "demo_logged_in = demo_presence\<lparr>pv_conn := demo_synced, pv_taken := 1, pv_session := login_session 9 [user_info_of demo_user_state] (pv_session demo_presence),
     pv_task := (pv_task demo_presence)\<lparr>et_user_map := [4 \<mapsto> ''Bob'']\<rparr>, pv_sent := [demo_connected_msg]\<rparr>"

definition demo_chat :: chat_received_data where
  "demo_chat = \<lparr>cr_sender_session = 4, cr_sender_name = ''Bob'', cr_channel_id = 0, cr_message = ''hi'', cr_timestamp = 10\<rparr>"

definition demo_chatted :: "(sim_peer, nat) presence" where
  "demo_chatted = demo_logged_in\<lparr>pv_conn := emit (M_chat_message 4 0 ''hi'') demo_synced, pv_taken := Suc 1, pv_sent := [demo_connected_msg, SChatReceived demo_chat]\<rparr>"

abbreviation demo_path :: "(sim_peer, nat) presence \<Rightarrow> bool" where
  "demo_path \<equiv> reachable (presence_init None) (presence_step demo_key sim_peer_ops demo_turn_config ''c'')"

lemma demo_path_step: "demo_path v \<Longrightarrow> presence_step demo_key sim_peer_ops demo_turn_config ''c'' v w \<Longrightarrow> demo_path w"
  by (rule reachable_step [where s = v])

lemma demo_presence_init: "presence_init None demo_presence"
  unfolding presence_init_def
  by (rule exI [of _ demo_session], rule exI [of _ "''alice''"])
    (auto simp: demo_presence_def event_task_start_def demo_user_def user_session_new_def)

lemma demo_packets: "packet_step mumble_conn_new (snd (handle_control_packet [] [] (P_user_state demo_user_state) mumble_conn_new))"
  "packet_step (snd (handle_control_packet [] [] (P_user_state demo_user_state) mumble_conn_new)) demo_synced"
  "packet_step demo_synced (emit (M_chat_message 4 0 ''hi'') demo_synced)"
proof -
  show "packet_step mumble_conn_new (snd (handle_control_packet [] [] (P_user_state demo_user_state) mumble_conn_new))"
    by (rule packet_step.intros) (simp_all add: mumble_conn_new_def iterates_def)
  show "packet_step (snd (handle_control_packet [] [] (P_user_state demo_user_state) mumble_conn_new)) demo_synced"
    unfolding demo_synced_def
    by (rule packet_step.intros)
      (simp_all add: mumble_conn_new_def iterates_def mumble_simps demo_user_state_def empty_user_state_def get_u32_def)
  have "packet_step demo_synced (snd (handle_control_packet [] [4] (P_text_message \<lparr>tm_actor = Some 4, tm_channel_id = [], tm_message = Some ''hi''\<rparr>) demo_synced))"
    by (rule packet_step.intros) (simp_all add: demo_synced_eq iterates_def)
  then show "packet_step demo_synced (emit (M_chat_message 4 0 ''hi'') demo_synced)"
    by (simp add: handle_control_packet_def get_u32_def get_str_def)
qed

lemma demo_bob: "get_u32 (um_session demo_user_state) = 4" "ui_name (user_info_of demo_user_state) = ''Bob''"
  by (simp_all add: user_info_of_def demo_user_state_def empty_user_state_def get_u32_def get_str_def)

lemma demo_logged_in_path: "demo_path demo_logged_in"
proof -
  let ?v1 = "demo_presence\<lparr>pv_conn := snd (handle_control_packet [] [] (P_user_state demo_user_state) mumble_conn_new)\<rparr>"
  let ?v2 = "?v1\<lparr>pv_conn := demo_synced\<rparr>"
  let ?us = "[user_info_of demo_user_state]"
  let ?et = "(pv_task demo_presence)\<lparr>et_user_map := [4 \<mapsto> ''Bob'']\<rparr>"
  let ?v3 = "?v2\<lparr>pv_taken := 1, pv_task := ?et, pv_session := login_session 9 ?us (pv_session ?v2),
    pv_pending := Some (\<lparr>ie_draw = demo_draw, ie_order = [], ie_now = 10\<rparr>, 9, [], ?us)\<rparr>"
  have s1: "presence_step demo_key sim_peer_ops demo_turn_config ''c'' demo_presence ?v1"
    by (rule pv_packet) (simp add: demo_presence_def demo_packets)
  have s2: "presence_step demo_key sim_peer_ops demo_turn_config ''c'' ?v1 ?v2" by (rule pv_packet) (simp add: demo_packets)
  have "next_event ?v2 = Some (M_connected 9 [] ?us)" by (simp add: next_event_def demo_presence_def demo_synced_eq)
  from pv_login [OF this refl, of demo_key sim_peer_ops demo_turn_config "''c''" "\<lparr>ie_draw = demo_draw, ie_order = [], ie_now = 10\<rparr>"]
  have s3: "presence_step demo_key sim_peer_ops demo_turn_config ''c'' ?v2 ?v3"
    by (simp add: demo_presence_def insert_names_def demo_bob demo_user_def user_session_new_def)
  have "announce_login demo_key \<lparr>ie_draw = demo_draw, ie_order = [], ie_now = 10\<rparr> demo_turn_config ''c'' 9 [] ?us (pv_turn ?v3) = (demo_connected_msg, None)"
    by (simp add: announce_login_def session_ice_config_def demo_presence_def demo_connected_msg_def demo_turn_config_def)
  from pv_announce [OF _ this] have "presence_step demo_key sim_peer_ops demo_turn_config ''c'' ?v3 (?v3\<lparr>pv_pending := None, pv_turn := None, pv_sent := [demo_connected_msg]\<rparr>)"
    by (simp add: demo_presence_def)
  moreover have "?v3\<lparr>pv_pending := None, pv_turn := None, pv_sent := [demo_connected_msg]\<rparr> = demo_logged_in"
    by (simp add: demo_logged_in_def demo_presence_def)
  ultimately have s4: "presence_step demo_key sim_peer_ops demo_turn_config ''c'' ?v3 demo_logged_in" by simp
  have "demo_path demo_presence" by (rule reachable_init) (rule demo_presence_init)
  from demo_path_step [OF demo_path_step [OF demo_path_step [OF demo_path_step [OF this s1] s2] s3] s4] show ?thesis .
qed

lemma demo_chatted_path: "demo_path demo_chatted"
proof -
  let ?v = "demo_logged_in\<lparr>pv_conn := emit (M_chat_message 4 0 ''hi'') demo_synced\<rparr>"
  have s1: "presence_step demo_key sim_peer_ops demo_turn_config ''c'' demo_logged_in ?v"
    by (rule pv_packet) (simp add: demo_logged_in_def demo_packets)
  have n: "next_event ?v = Some (M_chat_message 4 0 ''hi'')" by (simp add: next_event_def demo_logged_in_def demo_presence_def demo_synced_eq)
  have h: "handle_mumble_event demo_key sim_peer_ops demo_turn_config ''c'' demo_env (M_chat_message 4 0 ''hi'') (pv_session ?v) (pv_turn ?v) (pv_task ?v) =
      (Continue, [SChatReceived demo_chat], pv_session ?v, pv_turn ?v, pv_task ?v)"
    by (simp add: handle_mumble_event_def demo_chat_def demo_env_def demo_logged_in_def user_label_def)
  have "presence_step demo_key sim_peer_ops demo_turn_config ''c'' ?v demo_chatted"
    using pv_event [OF n _ h] by (simp add: is_login_def demo_chatted_def demo_logged_in_def demo_presence_def)
  with s1 show ?thesis by (rule demo_path_step [OF demo_path_step [OF demo_logged_in_path]])
qed

section \<open>Properties of the path to the browser\<close>



text \<open>
  C21. Chat messages are signed with the name the browser knows: the sender of each chat message put on the WebSocket is named as in
  the picture the messages before it give, and \<open>User#\<close> with the session number when the picture has no such user.
\<close>

theorem chat_labels_follow_roster:
  assumes "reachable (presence_init turn) (presence_step gen ops config conn_id) v" and "pv_sent v = pre @ SChatReceived d # post"
  shows "cr_sender_name d = (case bv_users (browser_sees pre) (cr_sender_session d) of
     Some u \<Rightarrow> ui_name u | None \<Rightarrow> ''User#'' @ dec (unat (cr_sender_session d)))"
proof -
  have "labelled (pv_sent v)" using presence_pipeline.reachable_inv [OF assms(1)] by (simp add: presence_inv_def)
  with assms(2) have "cr_sender_name d = roster_label (browser_sees pre) (cr_sender_session d)" unfolding labelled_def by blast
  then show ?thesis by (simp add: roster_label_def user_label_def split: option.split)
qed

theorem chat_labels_follow_roster_witness:
  "case bv_users (browser_sees [demo_connected_msg]) 4 of Some u \<Rightarrow> ui_name u = cr_sender_name demo_chat | None \<Rightarrow> False"
proof -
  have "pv_sent demo_chatted = [demo_connected_msg] @ SChatReceived demo_chat # []" by (simp add: demo_chatted_def)
  note label = chat_labels_follow_roster [OF demo_chatted_path this]
  have "bv_users (browser_sees [demo_connected_msg]) 4 = Some (user_info_of demo_user_state)"
    by (simp add: browser_sees_def browser_apply_def demo_connected_msg_def demo_bob)
  moreover have "cr_sender_session demo_chat = 4" by (simp add: demo_chat_def)
  ultimately show ?thesis using label by simp
qed

end
