(* ===== verification/Ws_Delivery.thy ===== *)
theory Ws_Delivery
  imports Ws_Handler
begin

text \<open>
  The outgoing side of a WebSocket (\<open>src/src/ws/handler.rs\<close>): the unbounded channel \<open>ws_tx\<close>, which the handler and the session's event task fill
  at any time, and the send task that empties it onto the socket, up to the end of the task by a failed send, a closing frame or the handler's
  \<open>abort\<close>.
\<close>

datatype send_phase = S_select | S_sending ws_frame bool | S_closing | S_ended

text \<open>\<open>wo_wire\<close> are the frames the browser may see; \<open>wo_queue\<close> is dropped with its receiver when the task ends.\<close>

record ws_out =
  wo_queue :: "server_message list"
  wo_task :: send_phase
  wo_wire :: "ws_frame list"

definition ws_out_new :: ws_out where
  "ws_out_new = \<lparr>wo_queue = [], wo_task = S_select, wo_wire = []\<rparr>"

text \<open>\<open>ws_tx.send\<close>, whose error is ignored: without a receiver the message is lost.\<close>

definition ws_push :: "server_message \<Rightarrow> ws_out \<Rightarrow> ws_out" where
  "ws_push m w = (if wo_task w = S_ended then w else w\<lparr>wo_queue := wo_queue w @ [m]\<rparr>)"

definition send_choose :: "(server_message \<Rightarrow> string result) \<Rightarrow> send_event \<Rightarrow> ws_out \<Rightarrow> ws_out" where
  "send_choose ser ev w = (case send_choice ser ev of
     None \<Rightarrow> w\<lparr>wo_task := S_ended, wo_queue := []\<rparr>
   | Some (frame, terminal) \<Rightarrow>
       w\<lparr>wo_task := S_sending frame terminal, wo_queue := (case ev of Send_message m \<Rightarrow> tl (wo_queue w) | _ \<Rightarrow> wo_queue w)\<rparr>)"

text \<open>A send that completed; then the task goes on, or closes the socket after a terminal error or behind a long queue.\<close>

definition send_finished :: "ws_frame \<Rightarrow> bool \<Rightarrow> ws_out \<Rightarrow> ws_out" where
  "send_finished frame terminal w =
     w\<lparr>wo_wire := wo_wire w @ [frame], wo_task := (if terminal \<or> length (wo_queue w) > 256 then S_closing else S_select)\<rparr>"

text \<open>The task ends, by itself or by \<open>abort\<close>; a frame whose send was cut off may have got out or not.\<close>

definition send_end :: "ws_frame list \<Rightarrow> ws_out \<Rightarrow> ws_out" where
  "send_end out w = w\<lparr>wo_wire := wo_wire w @ out, wo_task := S_ended, wo_queue := []\<rparr>"

inductive out_step :: "(server_message \<Rightarrow> string result) \<Rightarrow> ws_out \<Rightarrow> server_message list \<Rightarrow> ws_out \<Rightarrow> bool"
  for ser :: "server_message \<Rightarrow> string result" where
  os_push: "out_step ser w [m] (ws_push m w)"
| os_tick: "wo_task w = S_select \<Longrightarrow> out_step ser w [] (send_choose ser Send_tick w)"
| os_take: "wo_task w = S_select \<Longrightarrow> wo_queue w = m # q \<Longrightarrow> out_step ser w [] (send_choose ser (Send_message m) w)"
| os_channel_closed: "wo_task w = S_select \<Longrightarrow> wo_queue w = [] \<Longrightarrow> out_step ser w [] (send_choose ser Send_channel_closed w)"
| os_sent: "wo_task w = S_sending f t \<Longrightarrow> out_step ser w [] (send_finished f t w)"
| os_send_failed: "wo_task w = S_sending f t \<Longrightarrow> out \<in> {[], [f]} \<Longrightarrow> out_step ser w [] (send_end out w)"
| os_close: "wo_task w = S_closing \<Longrightarrow> out \<in> {[], [F_close]} \<Longrightarrow> out_step ser w [] (send_end out w)"
| os_abort: "wo_task w = S_select \<or> wo_task w = S_closing \<Longrightarrow> out_step ser w [] (send_end [] w)"

definition wire_texts :: "ws_frame list \<Rightarrow> string list" where
  "wire_texts fs = concat (map (\<lambda>f. case f of F_text t \<Rightarrow> [t] | _ \<Rightarrow> []) fs)"

text \<open>The part of the queue that is still delivered: up to the first terminal error.\<close>

fun upto_terminal :: "server_message list \<Rightarrow> server_message list" where
  "upto_terminal [] = []"
| "upto_terminal (m # q) = m # (if terminal_message m then [] else upto_terminal q)"

section \<open>Messages taken, messages left\<close>

lemma wire_texts_simps [simp]:
  "wire_texts [] = []" "wire_texts (fs @ gs) = wire_texts fs @ wire_texts gs" "wire_texts [F_ping] = []" "wire_texts [F_close] = []"
  "wire_texts [F_text t] = [t]"
  by (simp_all add: wire_texts_def)

text \<open>Why the task closes the socket: the last message taken was terminal, or more than 256 were waiting.\<close>

definition close_reason :: "server_message list \<Rightarrow> server_message list \<Rightarrow> bool" where
  "close_reason taken rest \<longleftrightarrow> (taken \<noteq> [] \<and> terminal_message (last taken)) \<or> length rest > 256"

definition harmless :: "server_message list \<Rightarrow> bool" where
  "harmless xs \<longleftrightarrow> list_all (\<lambda>m. \<not> terminal_message m) xs"

definition out_phase_ok :: "(server_message \<Rightarrow> string result) \<Rightarrow> server_message list \<Rightarrow> server_message list \<Rightarrow> ws_out \<Rightarrow> bool" where
  "out_phase_ok ser taken rest w = (case wo_task w of
     S_select \<Rightarrow> wo_queue w = rest \<and> wire_texts (wo_wire w) = map (to_json ser) taken \<and> harmless taken \<and> F_close \<notin> set (wo_wire w)
   | S_sending f t \<Rightarrow> wo_queue w = rest \<and> F_close \<notin> set (wo_wire w) \<and>
       (f = F_ping \<and> \<not> t \<and> wire_texts (wo_wire w) = map (to_json ser) taken \<and> harmless taken \<or>
        (\<exists>before m. taken = before @ [m] \<and> f = F_text (to_json ser m) \<and> t = terminal_message m \<and>
           wire_texts (wo_wire w) = map (to_json ser) before \<and> harmless before))
   | S_closing \<Rightarrow> wo_queue w = rest \<and> wire_texts (wo_wire w) = map (to_json ser) taken \<and> harmless (butlast taken) \<and>
       F_close \<notin> set (wo_wire w) \<and> close_reason taken rest
   | S_ended \<Rightarrow> wire_texts (wo_wire w) \<in> {map (to_json ser) taken, map (to_json ser) (butlast taken)} \<and> harmless (butlast taken) \<and>
       (\<exists>out. F_close \<notin> set out \<and> (wo_wire w = out \<or> wo_wire w = out @ [F_close] \<and> wire_texts out = map (to_json ser) taken \<and> close_reason taken rest)))"

definition out_inv :: "(server_message \<Rightarrow> string result) \<Rightarrow> server_message list \<Rightarrow> ws_out \<Rightarrow> bool" where
  "out_inv ser pushed w \<longleftrightarrow> (\<exists>taken rest. pushed = taken @ rest \<and> out_phase_ok ser taken rest w)"

lemma harmless_simps [simp]: "harmless []" "harmless (xs @ ys) = (harmless xs \<and> harmless ys)" "harmless [m] = (\<not> terminal_message m)"
  by (simp_all add: harmless_def)

lemma harmless_butlast: "harmless xs \<Longrightarrow> harmless (butlast xs)"
  by (cases xs rule: rev_cases) simp_all

lemma close_reason_more: "close_reason taken rest \<Longrightarrow> close_reason taken (rest @ later)"
  by (auto simp: close_reason_def)

lemma out_inv_push: "out_phase_ok ser taken rest w \<Longrightarrow> out_phase_ok ser taken (rest @ [m]) (ws_push m w)"
  by (auto simp: out_phase_ok_def ws_push_def intro: close_reason_more split: send_phase.splits)

lemma out_inv_keep:
  "out_inv ser pushed w \<Longrightarrow> (\<And>taken rest. out_phase_ok ser taken rest w \<Longrightarrow> out_phase_ok ser taken rest w') \<Longrightarrow> out_inv ser (pushed @ []) w'"
  by (auto simp: out_inv_def)

lemma out_inv_step: "out_step ser w new w' \<Longrightarrow> out_inv ser pushed w \<Longrightarrow> out_inv ser (pushed @ new) w'"
proof (induction rule: out_step.induct)
  case (os_push w m)
  then show ?case using out_inv_push [of ser _ _ w m] unfolding out_inv_def by (metis append.assoc)
next
  case (os_take w m q)
  then obtain taken where "pushed = taken @ m # q" "wire_texts (wo_wire w) = map (to_json ser) taken" "harmless taken" "F_close \<notin> set (wo_wire w)"
    by (auto simp: out_inv_def out_phase_ok_def)
  with os_take(1,2) show ?case unfolding out_inv_def
    by (intro exI [of _ "taken @ [m]"] exI [of _ q]) (simp add: out_phase_ok_def send_choose_def send_choice_def)
next
  case (os_tick w)
  then show ?case by (elim out_inv_keep) (simp add: out_phase_ok_def send_choose_def send_choice_def)
next
  case (os_channel_closed w)
  then show ?case by (elim out_inv_keep) (auto simp: out_phase_ok_def send_choose_def send_choice_def harmless_butlast)
next
  case (os_sent w f t)
  then show ?case by (elim out_inv_keep) (auto simp: out_phase_ok_def send_finished_def close_reason_def harmless_butlast)
next
  case (os_send_failed w f t out)
  then show ?case by (elim out_inv_keep) (auto simp: out_phase_ok_def send_end_def harmless_butlast)
next
  case (os_close w out)
  then show ?case by (elim out_inv_keep) (auto simp: out_phase_ok_def send_end_def)
next
  case (os_abort w)
  then show ?case by (elim out_inv_keep) (auto simp: out_phase_ok_def send_end_def harmless_butlast)
qed

lemma out_inv_run: "traced (out_step ser) ws_out_new pushed w \<Longrightarrow> out_inv ser pushed w"
proof (induction "ws_out_new" pushed w rule: traced.induct)
  case traced_nil
  show ?case by (simp add: out_inv_def out_phase_ok_def ws_out_new_def)
next
  case (traced_snoc ls t ls' u)
  then show ?case by (blast intro: out_inv_step)
qed

section \<open>The queue drains\<close>

lemma traced_pushes: "traced (out_step ser) w xs (fold ws_push xs w)"
proof (induction xs rule: rev_induct)
  case Nil
  show ?case by (simp add: traced_nil)
next
  case (snoc m xs)
  from traced_snoc [where step = "out_step ser", OF snoc os_push] show ?case by simp
qed

lemma deliver_one:
  fixes ser :: "server_message \<Rightarrow> string result"
  assumes "wo_task w = S_select" and "wo_queue w = m # q" and "length q \<le> 256"
  defines "w' \<equiv> w\<lparr>wo_queue := q, wo_wire := wo_wire w @ [F_text (to_json ser m)], wo_task := (if terminal_message m then S_closing else S_select)\<rparr>"
  shows "traced (out_step ser) w' [] u \<Longrightarrow> traced (out_step ser) w [] u"
proof -
  let ?v = "send_choose ser (Send_message m) w"
  have v: "wo_task ?v = S_sending (F_text (to_json ser m)) (terminal_message m)" "wo_queue ?v = q"
    using assms(2) by (simp_all add: send_choose_def send_choice_def)
  have "send_finished (F_text (to_json ser m)) (terminal_message m) ?v = w'"
    using assms(2,3) by (simp add: send_finished_def send_choose_def send_choice_def w'_def)
  with os_sent [of ?v, OF v(1), of ser] have "out_step ser ?v [] w'" by simp
  with os_take [OF assms(1,2), of ser] show "traced (out_step ser) w' [] u \<Longrightarrow> traced (out_step ser) w [] u"
    by (blast intro: traced_silent)
qed

lemma queue_drains:
  "wo_task w = S_select \<Longrightarrow> wo_queue w = q \<Longrightarrow> length q \<le> 257 \<Longrightarrow>
     \<exists>w'. traced (out_step ser) w [] w' \<and>
       wo_wire w' = wo_wire w @ map (\<lambda>m. F_text (to_json ser m)) (upto_terminal q) @ (if list_ex terminal_message q then [F_close] else [])"
proof (induction q arbitrary: w)
  case Nil
  have "traced (out_step ser) w [] w" by (rule traced_nil)
  then show ?case by (intro exI [of _ w]) simp
next
  case (Cons m q)
  let ?v = "w\<lparr>wo_queue := q, wo_wire := wo_wire w @ [F_text (to_json ser m)], wo_task := (if terminal_message m then S_closing else S_select)\<rparr>"
  note one = deliver_one [where ser = ser, OF Cons.prems(1,2)]
  show ?case
  proof (cases "terminal_message m")
    case True
    then have "out_step ser ?v [] (send_end [F_close] ?v)" by (intro os_close) simp_all
    from one [OF _ traced_single [where step = "out_step ser", OF this]] Cons.prems(3) True show ?thesis
      by (intro exI [of _ "send_end [F_close] ?v"]) (simp add: send_end_def)
  next
    case False
    with Cons.IH [of ?v] Cons.prems(3) obtain u where u: "traced (out_step ser) ?v [] u"
      "wo_wire u = wo_wire ?v @ map (\<lambda>m. F_text (to_json ser m)) (upto_terminal q) @ (if list_ex terminal_message q then [F_close] else [])" by auto
    from one [OF _ u(1)] u(2) Cons.prems(3) False show ?thesis by (intro exI [of _ u]) simp
  qed
qed

section \<open>Delivery\<close>



end
