(* ===== verification/Browser_Path.thy ===== *)
theory Browser_Path
  imports Presence_Path Ws_Delivery
begin

text \<open>
  What the browser really shows: the picture given by the frames that reached it, with the event task behind the Mumble connection, the send task behind
  the event task, and the socket ending at any point (\<open>src/src/mumble/client.rs\<close>, \<open>src/src/session.rs\<close>, \<open>src/src/ws/handler.rs\<close>).
\<close>

section \<open>Every message leaves a past state\<close>

text \<open>After each of the messages sent, the picture is the one of some number of events, all of them taken by now.\<close>

definition past_states :: "('p, 'snd) presence \<Rightarrow> bool" where
  "past_states v \<longleftrightarrow> (\<forall>k. \<exists>n \<le> pv_taken v. browser_sees (take k (pv_sent v)) = told (take n (mc_events (pv_conn v))))"

text \<open>Of the messages for one event only the last concerns the picture.\<close>

definition tells_last :: "server_message list \<Rightarrow> bool" where
  "tells_last msgs \<longleftrightarrow> list_all (\<lambda>m. \<not> concerns_view m) (butlast msgs)"

lemma beside_tells_last: "list_all (\<lambda>m. \<not> concerns_view m) msgs \<Longrightarrow> tells_last msgs"
  by (auto simp: tells_last_def list_all_iff dest: in_set_butlastD)

lemma handle_event_last:
  assumes "handle_mumble_event gen ops config conn_id env ev s turn et = (l, msgs, s', turn', et')" and "\<not> is_login ev"
  shows "tells_last msgs \<and> (l = Break \<longrightarrow> msgs = [])"
proof (cases ev)
  case (M_user_joined u)
  with assms show ?thesis
    by (auto simp: handle_mumble_event_def on_user_joined_def tells_last_def Let_def split: prod.splits sum.splits if_splits)
next
  case (M_user_left i)
  with assms show ?thesis
    by (auto simp: handle_mumble_event_def on_user_left_def tells_last_def Let_def split: prod.splits sum.splits)
qed (use assms in \<open>auto simp: handle_mumble_event_def is_login_def tells_last_def\<close>)

text \<open>One lemma for all steps: the new messages tell something with the last one only, and the picture they lead to is one of the past.\<close>

lemma past_states_send:
  assumes past: "past_states v" and last: "tells_last msgs"
    and v': "pv_sent v' = pv_sent v @ msgs" "pv_taken v \<le> pv_taken v'"
      "\<And>n. n \<le> pv_taken v \<Longrightarrow> take n (mc_events (pv_conn v')) = take n (mc_events (pv_conn v))"
    and whole: "\<exists>n \<le> pv_taken v'. browser_sees (pv_sent v @ msgs) = told (take n (mc_events (pv_conn v')))"
  shows "past_states v'"
proof (unfold past_states_def, intro allI)
  fix k
  have old: "\<exists>n \<le> pv_taken v'. browser_sees (take j (pv_sent v)) = told (take n (mc_events (pv_conn v')))" for j
  proof -
    from past obtain n where "n \<le> pv_taken v" "browser_sees (take j (pv_sent v)) = told (take n (mc_events (pv_conn v)))"
      by (auto simp: past_states_def)
    with v'(2,3) show ?thesis by (intro exI [of _ n]) auto
  qed
  show "\<exists>n \<le> pv_taken v'. browser_sees (take k (pv_sent v')) = told (take n (mc_events (pv_conn v')))"
  proof (cases "k < length (pv_sent v @ msgs)")
    case True
    then have "take (k - length (pv_sent v)) msgs = take (k - length (pv_sent v)) (butlast msgs)"
      by (cases msgs rule: rev_cases) auto
    moreover have "list_all (\<lambda>m. \<not> concerns_view m) (take (k - length (pv_sent v)) (butlast msgs))"
      using last by (auto simp: tells_last_def list_all_iff dest: in_set_takeD)
    ultimately have "browser_sees (take k (pv_sent v')) = browser_sees (take k (pv_sent v))"
      using browser_sees_other [of "take (k - length (pv_sent v)) msgs" "take k (pv_sent v)"] v'(1) by simp
    with old show ?thesis by simp
  qed (use whole v'(1) in simp)
qed

lemma past_states_beside:
  assumes past: "past_states v" and "list_all (\<lambda>m. \<not> concerns_view m) msgs"
    and v': "pv_sent v' = pv_sent v @ msgs" "pv_taken v \<le> pv_taken v'"
      "\<And>n. n \<le> pv_taken v \<Longrightarrow> take n (mc_events (pv_conn v')) = take n (mc_events (pv_conn v))"
  shows "past_states v'"
proof (rule past_states_send [OF past beside_tells_last [OF assms(2)] v'])
  from past obtain n where "n \<le> pv_taken v" "browser_sees (take (length (pv_sent v)) (pv_sent v)) = told (take n (mc_events (pv_conn v)))"
    unfolding past_states_def by blast
  with browser_sees_other [OF assms(2)] v'(2,3) show "\<exists>n \<le> pv_taken v'. browser_sees (pv_sent v @ msgs) = told (take n (mc_events (pv_conn v')))"
    by (intro exI [of _ n]) simp
qed

lemma past_states_step: "presence_step gen ops config conn_id v v' \<Longrightarrow> presence_inv v \<Longrightarrow> past_states v \<Longrightarrow> past_states v'"
proof (induction rule: presence_step.induct)
  case (pv_packet v c')
  from pv_packet(1) obtain co uo packet where c': "c' = snd (handle_control_packet co uo packet (pv_conn v))" by (auto simp: packet_step_iff)
  have "pv_taken v \<le> length (mc_events (pv_conn v))" using pv_packet by (simp add: presence_inv_def)
  moreover from handle_events [of co uo packet "pv_conn v", folded c'] obtain new where "mc_events c' = mc_events (pv_conn v) @ new"
    by (elim disjE exE conjE) (erule that [of "[]", simplified], erule that)
  ultimately have "take n (mc_events c') = take n (mc_events (pv_conn v))" if "n \<le> pv_taken v" for n using that by simp
  note same = this
  show ?case by (rule past_states_beside [of v "[]"]) (use pv_packet(3) same in simp_all)
next
  case (pv_login v sid channels users et' env)
  show ?case by (rule past_states_beside [of v "[]"]) (use pv_login in simp_all)
next
  case (pv_announce v env sid channels users msg turn')
  from presence_announce [OF pv_announce(3,1,2)]
  have "browser_sees (pv_sent v @ [msg]) = told (take (pv_taken v) (mc_events (pv_conn v)))"
    using pv_announce(1,3) by (simp add: presence_inv_def picture_ok_def taken_events_def)
  note seen = this
  show ?case by (rule past_states_send [of v "[msg]"]) (use pv_announce(4) seen in \<open>auto simp: tells_last_def\<close>)
next
  case (pv_event v ev env l msgs s' turn' et')
  note inv = presence_event [OF pv_event(4,1,2,3)] and last = handle_event_last [OF pv_event(3,2)]
  show ?case
  proof (cases l)
    case Continue
    with inv next_event_taken(2) [OF pv_event(1)]
    have "browser_sees (pv_sent v @ msgs) = told (take (Suc (pv_taken v)) (mc_events (pv_conn v)))"
      by (simp add: presence_inv_def picture_ok_def taken_events_def)
    note seen = this
    show ?thesis by (rule past_states_send [of v msgs]) (use pv_event(5) last seen in auto)
  next
    case Break
    then show ?thesis by - (rule past_states_beside [of v "[]"], use last pv_event(5) in simp_all)
  qed
next
  case (pv_webrtc v display_state ev msgs s')
  show ?case by (rule past_states_beside [of v msgs]) (use pv_webrtc webrtc_beside [of ops display_state ev "pv_session v"] in simp_all)
next
  case (pv_others k v msgs s')
  show ?case by (rule past_states_beside [of v msgs]) (use pv_others session_step_beside [OF pv_others(1,2)] in simp_all)
next
  case (pv_refresh env v x msgs turn')
  show ?case by (rule past_states_beside [of v msgs]) (use pv_refresh refresh_beside [OF pv_refresh(1)] in simp_all)
next
  case (pv_report v code e)
  show ?case by (rule past_states_beside [of v "[server_error code e]"]) (use pv_report in simp_all)
qed (simp_all add: past_states_def)

interpretation past_pipeline: invariant_system "presence_init turn" "presence_step gen ops config conn_id" "\<lambda>v. presence_inv v \<and> past_states v"
  for turn gen ops config conn_id
proof unfold_locales
  fix v :: "('a, 'b) presence"
  assume i: "presence_init turn v"
  then have "pv_sent v = []" by (auto simp: presence_init_def)
  then have "past_states v" by (auto simp: past_states_def told_def replay_def browser_sees_def intro!: exI [of _ 0])
  with presence_init_inv [OF i] show "presence_inv v \<and> past_states v" ..
next
  fix v v' :: "('a, 'b) presence"
  assume "presence_step gen ops config conn_id v v'" and "presence_inv v \<and> past_states v"
  then show "presence_inv v' \<and> past_states v'" by (blast intro: presence_step_inv past_states_step)
qed

section \<open>What the browser shows\<close>



end
