(* ===== verification/Audio_Path.thy ===== *)
theory Audio_Path
  imports Webrtc_Session Bridge Mumble_Voice
begin

text \<open>
  The two audio paths from end to end, over the components they pass: browser track, uplink task and
  voice socket one way, voice socket, downlink task and speaker tracks the other
  (\<open>webrtc/audio.rs\<close>, \<open>bridge.rs\<close>, \<open>mumble/voice.rs\<close>, \<open>webrtc/speakers.rs\<close>). The bounded channels between them are
  first-in first-out; what a task has received so far is a prefix of what was put into its channel.
\<close>

section \<open>From the browser to the Mumble server\<close>

definition delivered :: "(webrtc_voice_data \<times> try_send_result) list \<Rightarrow> webrtc_voice_data list" where
  "delivered offered = map fst (filter (\<lambda>(w, res). res = SendOk) offered)"

definition outgoing_frames :: "voice_input list \<Rightarrow> webrtc_voice_data list" where
  "outgoing_frames inps = concat (map (\<lambda>i. case i of Vi_outgoing d \<Rightarrow> [d] | _ \<Rightarrow> []) inps)"

definition wire_audio :: "voice_packet list \<Rightarrow> (u64 \<times> bytes \<times> bool) list" where
  "wire_audio sends = concat (map (\<lambda>p. case p of V_audio_out target n (Opus data end_flag) \<Rightarrow> [(n, data, end_flag)] | _ \<Rightarrow> []) sends)"

definition frame_triple :: "webrtc_voice_data \<Rightarrow> u64 \<times> bytes \<times> bool" where
  "frame_triple d = (wv_seq_num d, wv_opus_data d, wv_last_frame d)"

lemma wire_audio_append: "wire_audio (xs @ ys) = wire_audio xs @ wire_audio ys"
  by (simp add: wire_audio_def)

lemma wire_expected: "wire_audio (expected_sends inps) = map frame_triple (outgoing_frames inps)"
proof (induction inps)
  case (Cons i inps)
  then show ?case
    by (cases i) (auto simp: wire_audio_def expected_sends_def expected_send_def outgoing_frames_def outgoing_packet_def frame_triple_def)
qed (simp add: wire_audio_def expected_sends_def outgoing_frames_def)

lemma outgoing_takeWhile: "prefix (outgoing_frames (takeWhile P inps)) (outgoing_frames inps)"
  by (induction inps) (auto simp: outgoing_frames_def)

lemma incoming_source:
  "p \<in> set (incoming_audio_run reads) \<Longrightarrow>
     \<exists>pkt now. Read_rtp pkt now SendOk \<in> set reads \<and> rp_payload pkt = ia_opus_data p"
proof (induction reads rule: incoming_audio_run.induct)
  case (3 pkt now res rs)
  show ?case
  proof (cases res)
    case SendOk
    with 3(3) consider "ia_opus_data p = rp_payload pkt" | "p \<in> set (incoming_audio_run rs)" by (auto simp: audio_packet_def)
    then show ?thesis
    proof cases
      case 1
      with SendOk show ?thesis by (intro exI [of _ pkt] exI [of _ now]) simp
    next
      case 2
      from 3(1) [OF SendOk this] show ?thesis by auto
    qed
  next
    case SendFull
    with 3(2,3) show ?thesis by fastforce
  qed (use 3(3) in simp)
qed simp_all

lemma sorted_wrt_subseq: "subseq xs ys \<Longrightarrow> sorted_wrt P ys \<Longrightarrow> sorted_wrt P xs"
  by (induction rule: list_emb.induct) (auto dest: list_emb_set)

lemma delivered_audio_subseq:
  "prefix fs (delivered offered) \<Longrightarrow> subseq (filter (\<lambda>w. \<not> wv_last_frame w) fs) (audio_frames offered)"
proof -
  assume "prefix fs (delivered offered)"
  then have "subseq fs (map fst offered)"
    unfolding delivered_def by (meson prefix_imp_subseq subseq_filter_left subseq_map subseq_order.trans)
  then show ?thesis unfolding audio_frames_def by (rule subseq_filter)
qed

section \<open>From the Mumble server to the browser\<close>

text \<open>A peer connection that also records the RTP packets it is handed, around any library.\<close>

definition recorded :: "('p, 'snd) peer_ops \<Rightarrow> ('p \<times> (rtp_track \<times> rtp_packet) list, 'snd) peer_ops" where
  "recorded ops = \<lparr>
     signaling_state = (\<lambda>(p, l). signaling_state ops p),
     remote_description = (\<lambda>(p, l). remote_description ops p),
     create_offer = (\<lambda>restart (p, l). case create_offer ops restart p of (r, p') \<Rightarrow> (r, (p', l))),
     set_local_description = (\<lambda>sdp (p, l). case set_local_description ops sdp p of (r, p') \<Rightarrow> (r, (p', l))),
     answer_description = answer_description ops,
     set_remote_description = (\<lambda>sdp (p, l). case set_remote_description ops sdp p of (r, p') \<Rightarrow> (r, (p', l))),
     peer_add_ice_candidate = (\<lambda>c (p, l). case peer_add_ice_candidate ops c p of (r, p') \<Rightarrow> (r, (p', l))),
     add_track = (\<lambda>tr (p, l). case add_track ops tr p of (r, p') \<Rightarrow> (r, (p', l))),
     remove_track = (\<lambda>x (p, l). case remove_track ops x p of (r, p') \<Rightarrow> (r, (p', l))),
     write_rtp = (\<lambda>tr pkt (p, l). case write_rtp ops tr pkt p of (r, p') \<Rightarrow> (r, (p', l @ [(tr, pkt)]))),
     peer_close = (\<lambda>(p, l). case peer_close ops p of (r, p') \<Rightarrow> (r, (p', l)))\<rparr>"

definition rtp_packet_of :: "mumble_voice_data \<Rightarrow> u16 \<times> u32 \<times> bool \<Rightarrow> rtp_packet" where
  "rtp_packet_of d y = (case y of (sq, ts, marker) \<Rightarrow>
     \<lparr>rp_header = \<lparr>rh_version = 2, rh_sequence_number = sq, rh_timestamp = ts, rh_marker = marker\<rparr>, rp_payload = mv_opus_data d\<rparr>)"

text \<open>The reference for one speaker on its own: the RTP packet for a Mumble packet, if any, and the clock after it.\<close>

definition speaker_write :: "media_clock \<Rightarrow> mumble_voice_data \<times> instant \<times> instant \<Rightarrow> rtp_packet option \<times> media_clock" where
  "speaker_write c x = (case x of (d, n1, n2) \<Rightarrow>
     if as_millis (n1 - mv_received_at d) > 120 then (None, c)
     else if mv_opus_data d = [] then (None, c\<lparr>mc_ended := mc_ended c \<or> mv_last_frame d\<rparr>)
     else (case opus_packet_total_samples (mv_opus_data d) of
             Inl e \<Rightarrow> (None, c)
           | Inr samples \<Rightarrow>
               (case media_clock_packet c (mv_seq_num d) samples (mv_last_frame d) n2 of (out, c') \<Rightarrow>
                  (map_option (rtp_packet_of d) out, c'))))"

definition own_packets :: "u32 \<Rightarrow> (mumble_voice_data \<times> instant \<times> instant) list \<Rightarrow> (mumble_voice_data \<times> instant \<times> instant) list" where
  "own_packets u ds = filter (\<lambda>(d, _). mv_session_id d = u) ds"

definition rtp_of :: "u32 \<Rightarrow> (rtp_track \<times> rtp_packet) list \<Rightarrow> rtp_packet list" where
  "rtp_of u l = map snd (filter (\<lambda>(tr, _). tr = speaker_track u) l)"

lemma speaker_track_inj: "speaker_track u = speaker_track v \<Longrightarrow> u = v"
  by (simp add: speaker_track_def dec_inj unsigned_word_eqI)

text \<open>One packet: only the addressed speaker's clock moves, as the reference says, and only its track gets the RTP packet.\<close>

lemma speakers_write_recorded:
  assumes "st_speakers t (mv_session_id d) = Some sp"
  shows "st_speakers (snd (speakers_write (recorded ops) d n1 n2 t)) =
      (st_speakers t)(mv_session_id d \<mapsto> sp\<lparr>sp_clock := snd (speaker_write (sp_clock sp) (d, n1, n2))\<rparr>) \<and>
    snd (st_peer (snd (speakers_write (recorded ops) d n1 n2 t))) =
      snd (st_peer t) @ map (Pair (sp_track sp)) (case fst (speaker_write (sp_clock sp) (d, n1, n2)) of None \<Rightarrow> [] | Some p \<Rightarrow> [p])"
proof -
  have idem: "(st_speakers t)(mv_session_id d \<mapsto> sp\<lparr>sp_clock := sp_clock sp\<rparr>) = st_speakers t"
    using assms by (simp add: fun_upd_idem)
  show ?thesis
  proof (cases "as_millis (n1 - mv_received_at d) > 120 \<or> mv_opus_data d = []")
    case True
    with assms idem show ?thesis by (auto simp: speakers_write_def speaker_write_def)
  next
    case False
    show ?thesis
    proof (cases "opus_packet_total_samples (mv_opus_data d)")
      case (Inl e)
      with False assms idem show ?thesis by (auto simp: speakers_write_def speaker_write_def)
    next
      case (Inr samples)
      obtain out c' where "media_clock_packet (sp_clock sp) (mv_seq_num d) samples (mv_last_frame d) n2 = (out, c')" by fastforce
      with False assms Inr show ?thesis
        by (cases out) (auto simp: speakers_write_def speaker_write_def rtp_packet_of_def recorded_def case_prod_unfold)
    qed
  qed
qed

lemma speakers_write_unknown:
  "st_speakers t (mv_session_id d) = None \<Longrightarrow> snd (speakers_write ops d n1 n2 t) = t"
  by (simp add: speakers_write_def)

definition named_tracks :: "('p, 'snd) speaker_tracks \<Rightarrow> bool" where
  "named_tracks t \<longleftrightarrow> (\<forall>v sp. st_speakers t v = Some sp \<longrightarrow> sp_track sp = speaker_track v)"

lemma rtp_of_append: "rtp_of u (xs @ ys) = rtp_of u xs @ rtp_of u ys"
  by (simp add: rtp_of_def)

lemma rtp_of_simps [simp]: "rtp_of u [] = []" "rtp_of u ((speaker_track v, p) # l) = (if u = v then [p] else []) @ rtp_of u l"
  using speaker_track_inj [of v u] by (auto simp: rtp_of_def)

lemma downlink_per_speaker:
  assumes "named_tracks t" and "st_speakers t u = Some sp"
  shows "rtp_of u (snd (st_peer (downlink_run (recorded ops) ds t))) =
    rtp_of u (snd (st_peer t)) @ fst (clock_run (\<lambda>c x. speaker_write c x) (sp_clock sp) (own_packets u ds))"
  using assms
proof (induction ds arbitrary: t sp)
  case (Cons x ds)
  obtain d n1 n2 where x: "x = (d, n1, n2)" by (cases x)
  let ?v = "mv_session_id d"
  let ?t = "snd (speakers_write (recorded ops) d n1 n2 t)"
  show ?case
  proof (cases "st_speakers t ?v")
    case None
    with Cons.prems(2) have "?v \<noteq> u" by auto
    with Cons.IH [OF Cons.prems] None show ?thesis by (simp add: x own_packets_def speakers_write_unknown)
  next
    case (Some spv)
    obtain o1 c1 where w: "speaker_write (sp_clock spv) (d, n1, n2) = (o1, c1)" by fastforce
    note wr = speakers_write_recorded [OF Some, of ops n1 n2]
    have tr: "sp_track spv = speaker_track ?v" using Cons.prems(1) Some by (simp add: named_tracks_def)
    have nt: "named_tracks ?t" using Cons.prems(1) wr tr by (auto simp: named_tracks_def)
    show ?thesis
    proof (cases "?v = u")
      case True
      with Some Cons.prems(2) have sp: "spv = sp" by simp
      have "st_speakers ?t u = Some (sp\<lparr>sp_clock := c1\<rparr>)" using wr w True sp by simp
      from Cons.IH [OF nt this] wr w tr True sp show ?thesis
        by (cases o1) (simp_all add: x own_packets_def rtp_of_append Let_def case_prod_unfold)
    next
      case False
      have "st_speakers ?t u = Some sp" using wr Cons.prems(2) False by simp
      from Cons.IH [OF nt this] wr w tr False show ?thesis
        by (cases o1) (simp_all add: x own_packets_def rtp_of_append)
    qed
  qed
qed (simp add: own_packets_def)

text \<open>A talk spurt as the clock sees it, and when a packet is neither stale nor malformed.\<close>

definition clock_input :: "mumble_voice_data \<times> instant \<times> instant \<Rightarrow> media_input" where
  "clock_input x = (case x of (d, _, n2) \<Rightarrow>
     (mv_seq_num d, (case opus_packet_total_samples (mv_opus_data d) of Inr k \<Rightarrow> k | Inl _ \<Rightarrow> 0), mv_last_frame d, n2))"

definition timely :: "mumble_voice_data \<times> instant \<times> instant \<Rightarrow> bool" where
  "timely x = (case x of (d, n1, _) \<Rightarrow>
     as_millis (n1 - mv_received_at d) \<le> 120 \<and> mv_opus_data d \<noteq> [] \<and> is_ok (opus_packet_total_samples (mv_opus_data d)))"

lemma speaker_write_timely:
  "timely x \<Longrightarrow> speaker_write c x = map_prod (map_option (rtp_packet_of (fst x))) id (media_step c (clock_input x))"
  by (auto simp: speaker_write_def timely_def clock_input_def media_step_def map_prod_def
      split: prod.split sum.splits)

lemma clock_run_length: "length (fst (clock_run st c xs)) \<le> length xs"
  by (induction xs arbitrary: c) (auto simp: Let_def case_prod_unfold le_SucI split: option.split)

lemma speaker_run_timely:
  "list_all timely xs \<Longrightarrow> clock_run media_step c (map clock_input xs) = (os, c') \<Longrightarrow> length os = length xs \<Longrightarrow>
     fst (clock_run (\<lambda>c x. speaker_write c x) c xs) = map2 (\<lambda>x. rtp_packet_of (fst x)) xs os"
proof (induction xs arbitrary: c os c')
  case (Cons x xs)
  obtain o1 c1 where s: "media_step c (clock_input x) = (o1, c1)" by fastforce
  obtain os2 c2 where r: "clock_run media_step c1 (map clock_input xs) = (os2, c2)" by fastforce
  have "length os2 \<le> length xs" using clock_run_length [of media_step c1 "map clock_input xs"] r by simp
  with Cons.prems(2,3) s r obtain y where y: "o1 = Some y" "os = y # os2" "length os2 = length xs" by (cases o1) auto
  have "speaker_write c x = (Some (rtp_packet_of (fst x) y), c1)" using Cons.prems(1) s y by (simp add: speaker_write_timely)
  with Cons.IH [OF _ r y(3)] Cons.prems(1) y show ?case by (simp add: Let_def case_prod_unfold)
qed simp

section \<open>The paths end to end\<close>

text \<open>
  From the uplink task to the wire, when the voice task received a prefix of the frames that found room in its channel.
\<close>

lemma wire_frames:
  "wire_audio (vt_sends (voice_run inps (voice_run_start b))) = map frame_triple (if b then outgoing_frames (takeWhile (\<lambda>i. \<not> ends_voice i) inps) else [])"
proof (cases b)
  case True
  then have "vt_sends (voice_run inps (voice_run_start b)) = [V_ping 0] @ expected_sends (takeWhile (\<lambda>i. \<not> ends_voice i) inps)"
    using voice_run_spec [of "voice_run_start b" inps] by (simp add: voice_run_start_def)
  then have "wire_audio (vt_sends (voice_run inps (voice_run_start b))) = wire_audio [V_ping 0] @ map frame_triple (outgoing_frames (takeWhile (\<lambda>i. \<not> ends_voice i) inps))"
    by (simp only: wire_audio_append wire_expected)
  with True show ?thesis by (simp add: wire_audio_def)
next
  case False
  then have "voice_run inps (voice_run_start b) = voice_run_start b" by (intro voice_run_stopped) (simp add: voice_run_start_def)
  with False show ?thesis by (simp add: voice_run_start_def wire_audio_def)
qed

lemma uplink_chain:
  assumes "prefix (outgoing_frames inps) (delivered (snd (uplink_run uplink_start es)))" and "length es < 2 ^ 41"
  shows "case wire_audio (vt_sends (voice_run inps (voice_run_start b))) of wire \<Rightarrow>
    sorted_wrt (<) (map (\<lambda>(n, _). unat n) (filter (\<lambda>(_, _, end_flag). \<not> end_flag) wire)) \<and>
    (\<forall>(n, data, end_flag) \<in> set wire. if end_flag then data = [] else
       (\<exists>k. opus_packet_total_samples data = Inr k \<and> unat k mod 480 = 0 \<and> unat k \<le> 5760) \<and> (\<exists>p \<in> set (event_packets es). data = ia_opus_data p))"
proof -
  let ?offered = "snd (uplink_run uplink_start es)"
  define fs where "fs = (if b then outgoing_frames (takeWhile (\<lambda>i. \<not> ends_voice i) inps) else [])"
  have wire: "wire_audio (vt_sends (voice_run inps (voice_run_start b))) = map frame_triple fs" unfolding fs_def by (rule wire_frames)
  have pre: "prefix fs (delivered ?offered)"
    unfolding fs_def using prefix_order.trans [OF outgoing_takeWhile assms(1)] by simp
  have "sorted_wrt (<) (map (\<lambda>w. unat (wv_seq_num w)) (filter (\<lambda>w. \<not> wv_last_frame w) fs))"
    using subseq_map [OF delivered_audio_subseq [OF pre]] uplink_run_sorted [OF assms(2)] by (rule sorted_wrt_subseq)
  moreover have "playable w \<and> (\<not> wv_last_frame w \<longrightarrow> (\<exists>p \<in> set (event_packets es). wv_opus_data w = ia_opus_data p))" if w: "w \<in> set fs" for w
  proof -
    have "w \<in> set (delivered ?offered)" using w pre by (meson set_mono_prefix subsetD)
    then obtain res where "(w, res) \<in> set ?offered" by (auto simp: delivered_def)
    then show ?thesis by (rule uplink_run_offers)
  qed
  ultimately show ?thesis
    unfolding wire by (auto simp: filter_map comp_def frame_triple_def playable_def split: if_splits)
qed

text \<open>From the downlink task to a speaker's track, for one talk spurt on a fresh track.\<close>

lemma downlink_chain:
  assumes "named_tracks t" and "st_speakers t u = Some sp" and "sp_clock sp = media_clock_default" and "rtp_of u (snd (st_peer t)) = []"
    and "own_packets u ds = x # xs" and "list_all timely (x # xs)"
    and "in_talk (mv_seq_num (fst x)) (snd (snd x)) (map clock_input xs)" and "xs \<noteq> [] \<longrightarrow> \<not> mv_last_frame (fst x)"
  shows "case rtp_of u (snd (st_peer (downlink_run (recorded ops) ds t))) of rtp \<Rightarrow>
    map rp_payload rtp = map mv_opus_data (filter (\<lambda>d. mv_session_id d = u) (map fst ds)) \<and>
    map (\<lambda>p. rh_sequence_number (rp_header p)) rtp = map (\<lambda>i. of_nat (Suc i)) [0..<Suc (length xs)] \<and>
    map (\<lambda>p. (rh_timestamp (rp_header p), rh_marker (rp_header p))) rtp =
      (0, True) # map (\<lambda>(d, _). (ucast ((mv_seq_num d - mv_seq_num (fst x)) * 480), False)) xs"
proof -
  let ?rtp = "rtp_of u (snd (st_peer (downlink_run (recorded ops) ds t)))"
  obtain k where in0: "clock_input x = (mv_seq_num (fst x), k, mv_last_frame (fst x), snd (snd x))"
    by (cases x) (auto simp: clock_input_def)
  from media_talk_run [OF assms(7), of "mv_last_frame (fst x)" k] assms(8) obtain os c where
    r: "clock_run media_step media_clock_default (map clock_input (x # xs)) = (os, c)" and len: "length os = length (x # xs)"
    and sq: "map fst os = map (\<lambda>i. of_nat (Suc i)) [0..<Suc (length xs)]"
    and ts: "map snd os = (0, True) # map (\<lambda>(f', _). (ucast ((f' - mv_seq_num (fst x)) * 480), False)) (map clock_input xs)"
    by (auto simp: in0)
  have rtp: "?rtp = map2 (\<lambda>x. rtp_packet_of (fst x)) (x # xs) os"
    using downlink_per_speaker [OF assms(1,2), of ops ds] speaker_run_timely [OF assms(6) r len] assms(3,4,5) by simp
  have parts: "map (\<lambda>p. rh_sequence_number (rp_header p)) (map2 (\<lambda>x. rtp_packet_of (fst x)) ys os) = map fst os"
    "map (\<lambda>p. (rh_timestamp (rp_header p), rh_marker (rp_header p))) (map2 (\<lambda>x. rtp_packet_of (fst x)) ys os) = map snd os"
    "map rp_payload (map2 (\<lambda>x. rtp_packet_of (fst x)) ys os) = map (\<lambda>x. mv_opus_data (fst x)) ys"
    if "length os = length ys" for ys :: "(mumble_voice_data \<times> instant \<times> instant) list"
    using that by (induction os ys rule: list_induct2) (auto simp: rtp_packet_of_def split: prod.splits)
  have "map fst (x # xs) = filter (\<lambda>d. mv_session_id d = u) (map fst ds)"
    unfolding assms(5) [symmetric] by (simp add: own_packets_def filter_map comp_def case_prod_unfold)
  then have "map mv_opus_data (map fst (x # xs)) = map mv_opus_data (filter (\<lambda>d. mv_session_id d = u) (map fst ds))" by (rule arg_cong)
  then have "map (\<lambda>x. mv_opus_data (fst x)) (x # xs) = map mv_opus_data (filter (\<lambda>d. mv_session_id d = u) (map fst ds))"
    by (simp only: list.map_comp comp_def)
  moreover have "map (\<lambda>(f', _). (ucast ((f' - mv_seq_num (fst x)) * 480) :: u32, False)) (map clock_input xs) =
      map (\<lambda>(d, _). (ucast ((mv_seq_num d - mv_seq_num (fst x)) * 480), False)) xs"
    by (auto simp: clock_input_def)
  ultimately show ?thesis unfolding rtp using parts [OF len] sq ts by simp
qed

end
