(* ===== verification/Audio_System.thy ===== *)
theory Audio_System
  imports Audio_Path
begin

text \<open>
  The audio tasks of one session running together: the readers of the browser's tracks (\<open>src/src/webrtc/audio.rs\<close>), the uplink and downlink tasks of the
  bridge (\<open>src/src/bridge.rs\<close>) and the voice task (\<open>src/src/mumble/voice.rs\<close>), with the three bounded channels between them, in every
  interleaving. Whether a \<open>try_send\<close> finds room follows from the channel's queue. The teardown of a session aborts the tasks, so it
  ends a run and adds nothing to it.
\<close>

section \<open>State\<close>

text \<open>
  Beside the state of the tasks and the queues the record keeps the inputs each task has handled so far: the reads of each reader, the
  events of the uplink, the inputs of the voice task and the packets the downlink has written.
\<close>

record ('p, 'snd) audio_system =
  au_readers :: "nat \<rightharpoonup> track_read list"
  au_audio :: "incoming_audio_packet list"
  au_uplink :: uplink_task
  au_events :: "uplink_event list"
  au_outgoing :: "webrtc_voice_data list"
  au_voice :: voice_task
  au_inputs :: "voice_input list"
  au_incoming :: "mumble_voice_data list"
  au_tracks :: "('p, 'snd) speaker_tracks"
  au_written :: "(mumble_voice_data \<times> instant \<times> instant) list"

definition AUDIO_CAPACITY :: nat where
  "AUDIO_CAPACITY = 6"

definition OUTGOING_CAPACITY :: nat where
  "OUTGOING_CAPACITY = 6"

definition reading :: "track_read \<Rightarrow> bool" where
  "reading r = (case r of Read_rtp _ _ res \<Rightarrow> res \<noteq> SendClosed | Read_error _ \<Rightarrow> False)"

text \<open>The event of the uplink's \<open>select!\<close> and what it takes from the channel; the channel closes only when it is empty and its senders are gone.\<close>

definition takes :: "uplink_event \<Rightarrow> incoming_audio_packet list \<Rightarrow> incoming_audio_packet list \<Rightarrow> bool" where
  "takes e q q' = (case e of UplinkPacket p _ _ _ \<Rightarrow> q = p # q' | UplinkTick _ _ \<Rightarrow> q' = q | UplinkChannelClosed \<Rightarrow> q = [] \<and> q' = [])"

definition opus_from :: "voice_input \<Rightarrow> bool" where
  "opus_from i = (case i of Vi_packet (V_audio_in _ _ (Opus _ _)) _ _ \<Rightarrow> True | _ \<Rightarrow> False)"

definition taken_outgoing :: "voice_input \<Rightarrow> bool" where
  "taken_outgoing i = (case i of Vi_outgoing _ \<Rightarrow> True | _ \<Rightarrow> False)"

section \<open>Steps\<close>

inductive audio_step :: "('p, 'snd) peer_ops \<Rightarrow> ('p, 'snd) audio_system \<Rightarrow> ('p, 'snd) audio_system \<Rightarrow> bool" for ops :: "('p, 'snd) peer_ops" where
  au_track: "handles_track is_audio mime \<Longrightarrow> au_readers a r = None \<Longrightarrow> audio_step ops a (a\<lparr>au_readers := (au_readers a)(r \<mapsto> [])\<rparr>)"
| au_read: "au_readers a r = Some reads \<Longrightarrow> list_all reading reads \<Longrightarrow>
    try_send AUDIO_CAPACITY (ut_running (au_uplink a)) (audio_packet pkt now) (au_audio a) = (res, q) \<Longrightarrow>
    audio_step ops a (a\<lparr>au_readers := (au_readers a)(r \<mapsto> reads @ [Read_rtp pkt now res]), au_audio := q\<rparr>)"
| au_read_error: "au_readers a r = Some reads \<Longrightarrow> list_all reading reads \<Longrightarrow>
    audio_step ops a (a\<lparr>au_readers := (au_readers a)(r \<mapsto> reads @ [Read_error e])\<rparr>)"
| au_uplink_quiet: "ut_running (au_uplink a) \<Longrightarrow> takes e (au_audio a) q \<Longrightarrow> uplink_step (au_uplink a) e = (u, []) \<Longrightarrow>
    audio_step ops a (a\<lparr>au_uplink := u, au_audio := q, au_events := au_events a @ [e]\<rparr>)"
| au_uplink_sends: "ut_running (au_uplink a) \<Longrightarrow> takes e (au_audio a) q \<Longrightarrow> uplink_step (au_uplink a) e = (u, [(w, res)]) \<Longrightarrow>
    try_send OUTGOING_CAPACITY (vt_running (au_voice a)) w (au_outgoing a) = (res, q') \<Longrightarrow>
    audio_step ops a (a\<lparr>au_uplink := u, au_audio := q, au_events := au_events a @ [e], au_outgoing := q'\<rparr>)"
| au_voice_sends: "vt_running (au_voice a) \<Longrightarrow> au_outgoing a = w # q \<Longrightarrow>
    audio_step ops a (a\<lparr>au_voice := voice_run_step (Vi_outgoing w) (au_voice a), au_outgoing := q, au_inputs := au_inputs a @ [Vi_outgoing w]\<rparr>)"
| au_voice_receives: "vt_running (au_voice a) \<Longrightarrow>
    d = \<lparr>mv_session_id = session_id, mv_seq_num = seq_num, mv_opus_data = data, mv_last_frame = last_frame, mv_received_at = now\<rparr> \<Longrightarrow>
    try_send VOICE_CHANNEL_CAPACITY True d (au_incoming a) = (res, q) \<Longrightarrow>
    i = Vi_packet (V_audio_in session_id seq_num (Opus data last_frame)) now (res = SendOk) \<Longrightarrow>
    audio_step ops a (a\<lparr>au_voice := voice_run_step i (au_voice a), au_incoming := q, au_inputs := au_inputs a @ [i]\<rparr>)"
| au_voice_other: "vt_running (au_voice a) \<Longrightarrow> \<not> opus_from i \<Longrightarrow> \<not> taken_outgoing i \<Longrightarrow>
    (i = Vi_outgoing_closed \<longrightarrow> \<not> ut_running (au_uplink a) \<and> au_outgoing a = []) \<Longrightarrow>
    audio_step ops a (a\<lparr>au_voice := voice_run_step i (au_voice a), au_inputs := au_inputs a @ [i]\<rparr>)"
| au_downlink: "au_incoming a = d # q \<Longrightarrow>
    audio_step ops a (a\<lparr>au_tracks := snd (speakers_write ops d n1 n2 (au_tracks a)), au_incoming := q, au_written := au_written a @ [(d, n1, n2)]\<rparr>)"

text \<open>The tasks as they are started, the opening ping of the voice task sent or not.\<close>

definition audio_init :: "('p, 'snd) speaker_tracks \<Rightarrow> bool \<Rightarrow> ('p, 'snd) audio_system \<Rightarrow> bool" where
  "audio_init t init_sent a \<longleftrightarrow> a = \<lparr>au_readers = Map.empty, au_audio = [], au_uplink = uplink_start, au_events = [], au_outgoing = [],
     au_voice = voice_run_start init_sent, au_inputs = [], au_incoming = [], au_tracks = t, au_written = []\<rparr>"

section \<open>Channels and histories\<close>

lemma uplink_run_snoc:
  "uplink_step (fst (uplink_run u es)) e = (u', out) \<Longrightarrow> uplink_run u (es @ [e]) = (u', snd (uplink_run u es) @ out)"
  by (induction es arbitrary: u) (auto simp: Let_def case_prod_unfold)

lemma voice_run_snoc: "voice_run (inps @ [i]) t = voice_run_step i (voice_run inps t)"
  by (simp add: voice_run_def)

lemma downlink_run_snoc: "downlink_run ops (ds @ [(d, n1, n2)]) t = snd (speakers_write ops d n1 n2 (downlink_run ops ds t))"
  by (induction ds arbitrary: t) auto

lemma delivered_append: "delivered (xs @ ys) = delivered xs @ delivered ys"
  by (simp add: delivered_def)

lemma outgoing_frames_append: "outgoing_frames (xs @ ys) = outgoing_frames xs @ outgoing_frames ys"
  by (simp add: outgoing_frames_def)

lemma event_packets_append: "event_packets (xs @ ys) = event_packets xs @ event_packets ys"
  by (simp add: event_packets_def)

lemma takes_packets: "takes e q q' \<Longrightarrow> q = event_packets [e] @ q'"
  by (auto simp: takes_def event_packets_def split: uplink_event.splits)

lemma voice_other_forwards:
  "\<not> opus_from i \<Longrightarrow> vt_forwarded (voice_run_step i t) = vt_forwarded t"
  by (cases i) (auto simp: voice_run_step_def opus_from_def split: voice_packet.splits voice_payload.splits)

lemma other_frames: "\<not> taken_outgoing i \<Longrightarrow> outgoing_frames [i] = []"
  by (cases i) (auto simp: taken_outgoing_def outgoing_frames_def)

text \<open>A packet that some reader put into the channel.\<close>

lemma reads_snoc: "list_all reading reads \<Longrightarrow> incoming_audio_run (reads @ [r]) = incoming_audio_run reads @ incoming_audio_run [r]"
  by (induction reads rule: incoming_audio_run.induct) (auto simp: reading_def split: try_send_result.split)

definition was_read :: "(nat \<rightharpoonup> track_read list) \<Rightarrow> incoming_audio_packet \<Rightarrow> bool" where
  "was_read readers p \<longleftrightarrow> (\<exists>r reads. readers r = Some reads \<and> p \<in> set (incoming_audio_run reads))"

lemma was_read_new: "was_read readers p \<Longrightarrow> readers r = None \<Longrightarrow> was_read (readers(r \<mapsto> [])) p"
  unfolding was_read_def by (metis fun_upd_other option.distinct(1))

lemma was_read_more:
  assumes "was_read readers p" and "readers r = Some reads" and "list_all reading reads"
  shows "was_read (readers(r \<mapsto> reads @ [x])) p"
proof -
  from assms(1) obtain k ks where k: "readers k = Some ks" "p \<in> set (incoming_audio_run ks)" by (auto simp: was_read_def)
  show ?thesis
  proof (cases "k = r")
    case True
    with k assms(2) have "p \<in> set (incoming_audio_run (reads @ [x]))" unfolding reads_snoc [OF assms(3)] by simp
    then show ?thesis unfolding was_read_def by (intro exI [of _ r] exI [of _ "reads @ [x]"]) simp
  next
    case False
    with k show ?thesis unfolding was_read_def by (intro exI [of _ k] exI [of _ ks]) simp
  qed
qed

lemma was_read_payload:
  assumes "was_read readers p"
  shows "\<exists>r reads pkt now. readers r = Some reads \<and> Read_rtp pkt now SendOk \<in> set reads \<and> rp_payload pkt = ia_opus_data p"
proof -
  from assms obtain r reads where "readers r = Some reads" "p \<in> set (incoming_audio_run reads)" by (auto simp: was_read_def)
  with incoming_source [of p reads] show ?thesis by blast
qed

definition audio_inv :: "('p, 'snd) peer_ops \<Rightarrow> ('p, 'snd) speaker_tracks \<Rightarrow> bool \<Rightarrow> ('p, 'snd) audio_system \<Rightarrow> bool" where
  "audio_inv ops t init_sent a \<longleftrightarrow>
     length (au_audio a) \<le> AUDIO_CAPACITY \<and> length (au_outgoing a) \<le> OUTGOING_CAPACITY \<and> length (au_incoming a) \<le> VOICE_CHANNEL_CAPACITY \<and>
     (\<forall>p \<in> set (event_packets (au_events a) @ au_audio a). was_read (au_readers a) p) \<and>
     au_uplink a = fst (uplink_run uplink_start (au_events a)) \<and>
     delivered (snd (uplink_run uplink_start (au_events a))) = outgoing_frames (au_inputs a) @ au_outgoing a \<and>
     au_voice a = voice_run (au_inputs a) (voice_run_start init_sent) \<and>
     vt_forwarded (au_voice a) = map fst (au_written a) @ au_incoming a \<and>
     au_tracks a = downlink_run ops (au_written a) t"

lemma audio_init_inv: "audio_init t b a \<Longrightarrow> audio_inv ops t b a"
  by (simp add: audio_init_def audio_inv_def event_packets_def delivered_def outgoing_frames_def voice_run_def voice_run_start_def)

lemma audio_step_inv: "audio_step ops a b \<Longrightarrow> audio_inv ops t i0 a \<Longrightarrow> audio_inv ops t i0 b"
proof (induction rule: audio_step.induct)
  case (au_track is_audio mime a r)
  then show ?case by (auto simp: audio_inv_def intro: was_read_new)
next
  case (au_read a r reads pkt now res q)
  let ?readers = "(au_readers a)(r \<mapsto> reads @ [Read_rtp pkt now res])"
  have old: "was_read ?readers p" if "was_read (au_readers a) p" for p using that au_read(1,2) by (rule was_read_more)
  have "audio_packet pkt now \<in> set (incoming_audio_run (reads @ [Read_rtp pkt now res]))" if "res = SendOk"
    using that by (simp add: reads_snoc [OF au_read(2)])
  then have "was_read ?readers (audio_packet pkt now)" if "res = SendOk"
    unfolding was_read_def using that by (intro exI [of _ r] exI [of _ "reads @ [Read_rtp pkt now res]"]) simp
  with old au_read(4) mpsc.send_queue [OF au_read(3)] have "\<forall>p \<in> set (event_packets (au_events a) @ q). was_read ?readers p"
    by (auto simp: audio_inv_def)
  with au_read(4) mpsc.send_bounded [OF au_read(3)] show ?case by (auto simp: audio_inv_def)
next
  case (au_read_error a r reads e)
  then show ?case by (auto simp: audio_inv_def intro: was_read_more)
next
  case (au_uplink_quiet a e q u)
  note run = uplink_run_snoc [of uplink_start "au_events a" e u "[]"]
  from au_uplink_quiet takes_packets [OF au_uplink_quiet(2)] show ?case
    by (auto simp: audio_inv_def run event_packets_append)
next
  case (au_uplink_sends a e q u w res q')
  note run = uplink_run_snoc [of uplink_start "au_events a" e u "[(w, res)]"]
  from au_uplink_sends takes_packets [OF au_uplink_sends(2)] mpsc.send_bounded [OF au_uplink_sends(4)] mpsc.send_queue [OF au_uplink_sends(4)] show ?case
    by (auto simp: audio_inv_def run event_packets_append delivered_append delivered_def)
next
  case (au_voice_sends a w q)
  then show ?case
    by (auto simp: audio_inv_def voice_run_snoc outgoing_frames_append outgoing_frames_def voice_other_forwards opus_from_def)
next
  case (au_voice_receives a d session_id seq_num data last_frame now res q i)
  from au_voice_receives mpsc.send_bounded [OF au_voice_receives(3)] mpsc.send_queue [OF au_voice_receives(3)] show ?case
    by (auto simp: audio_inv_def voice_run_snoc outgoing_frames_append outgoing_frames_def voice_run_step_def)
next
  case (au_voice_other a i)
  then show ?case by (auto simp: audio_inv_def voice_run_snoc outgoing_frames_append other_frames voice_other_forwards)
next
  case (au_downlink a d q n1 n2)
  then show ?case by (auto simp: audio_inv_def downlink_run_snoc)
qed

interpretation audio_tasks: invariant_system "audio_init t init_sent" "audio_step ops" "audio_inv ops t init_sent" for ops t init_sent
  by unfold_locales (blast intro: audio_init_inv audio_step_inv)+

section \<open>An example run\<close>

text \<open>The browser's first packet goes to the wire, and two packets of a speaker go to the browser.\<close>

definition demo_voice :: "u64 \<Rightarrow> mumble_voice_data" where
  "demo_voice n = \<lparr>mv_session_id = 7, mv_seq_num = n, mv_opus_data = [0xF8], mv_last_frame = False, mv_received_at = 0\<rparr>"

definition demo_rtp :: rtp_packet where
  "demo_rtp = \<lparr>rp_header = \<lparr>rh_version = 2, rh_sequence_number = 1, rh_timestamp = 0, rh_marker = False\<rparr>, rp_payload = [0xF8]\<rparr>"

definition demo_frame :: webrtc_voice_data where
  "demo_frame = \<lparr>wv_seq_num = 0, wv_opus_data = [0xF8], wv_last_frame = False\<rparr>"

definition demo_event :: uplink_event where
  "demo_event = UplinkPacket (audio_packet demo_rtp 0) 0 0 SendOk"

definition demo_inputs :: "voice_input list" where
  "demo_inputs = Vi_outgoing demo_frame # map (\<lambda>n. Vi_packet (V_audio_in 7 n (Opus [0xF8] False)) 0 True) [100, 102]"

definition demo_written :: "(mumble_voice_data \<times> instant \<times> instant) list" where
  "demo_written = [(demo_voice 100, 0, 0), (demo_voice 102, ms 20, ms 20)]"

abbreviation demo_ops :: "(sim_peer \<times> (rtp_track \<times> rtp_packet) list, nat) peer_ops" where
  "demo_ops \<equiv> recorded sim_peer_ops"

definition demo_tracks :: "(sim_peer \<times> (rtp_track \<times> rtp_packet) list, nat) speaker_tracks" where
  "demo_tracks = snd (speakers_add demo_ops 7 (speakers_new (sim_peer_new, [])))"

definition demo_uplink :: uplink_task where
  "demo_uplink = fst (uplink_step uplink_start demo_event)"

definition demo_audio :: "(sim_peer \<times> (rtp_track \<times> rtp_packet) list, nat) audio_system" where
  "demo_audio = \<lparr>au_readers = [0 \<mapsto> [Read_rtp demo_rtp 0 SendOk]], au_audio = [], au_uplink = demo_uplink, au_events = [demo_event],
     au_outgoing = [], au_voice = voice_run demo_inputs (voice_run_start True), au_inputs = demo_inputs, au_incoming = [],
     au_tracks = downlink_run demo_ops demo_written demo_tracks, au_written = demo_written\<rparr>"

lemma demo_opus: "opus_packet_total_samples [0xF8] = Inr 960"
  by code_simp

lemma demo_uplink_step: "uplink_step uplink_start demo_event = (demo_uplink, [(demo_frame, SendOk)])"
  by (simp add: demo_uplink_def demo_event_def demo_frame_def audio_packet_def demo_rtp_def demo_opus uplink_start_def uplink_clock_packet_def
      uplink_clock_default_def stale_sequence_def as_millis_def Let_def)

lemma demo_audio_reachable: "reachable (audio_init demo_tracks True) (audio_step demo_ops) demo_audio"
proof -
  let ?R = "reachable (audio_init demo_tracks True) (audio_step demo_ops)"
  let ?a0 = "\<lparr>au_readers = Map.empty, au_audio = [], au_uplink = uplink_start, au_events = [], au_outgoing = [],
     au_voice = voice_run_start True, au_inputs = [], au_incoming = [], au_tracks = demo_tracks, au_written = []\<rparr>"
  let ?p = "audio_packet demo_rtp 0"
  let ?a2 = "?a0\<lparr>au_readers := [0 \<mapsto> [Read_rtp demo_rtp 0 SendOk]], au_audio := [?p]\<rparr>"
  let ?a3 = "?a2\<lparr>au_uplink := demo_uplink, au_audio := [], au_events := [demo_event], au_outgoing := [demo_frame]\<rparr>"
  let ?a4 = "?a3\<lparr>au_voice := voice_run [Vi_outgoing demo_frame] (voice_run_start True), au_outgoing := [], au_inputs := [Vi_outgoing demo_frame]\<rparr>"
  let ?i = "\<lambda>n. Vi_packet (V_audio_in 7 n (Opus [0xF8] False)) 0 True"
  let ?a6 = "?a4\<lparr>au_voice := voice_run demo_inputs (voice_run_start True), au_incoming := [demo_voice 100, demo_voice 102], au_inputs := demo_inputs\<rparr>"
  note more = reachable_step [of "audio_init demo_tracks True" "audio_step demo_ops"]
  have r0: "?R ?a0" by (rule reachable_init) (simp add: audio_init_def)
  have h: "handles_track True ''audio/opus''" by (simp add: handles_track_def to_ascii_lower_def)
  have r2: "?R ?a2"
    using more [OF more [OF r0 au_track [OF h, of _ 0]] au_read [of _ 0 "[]" demo_rtp 0 SendOk "[?p]"]]
    by (simp add: try_send_def AUDIO_CAPACITY_def uplink_start_def)
  have r3: "?R ?a3"
    using more [OF r2 au_uplink_sends [of _ demo_event "[]" demo_uplink demo_frame SendOk "[demo_frame]"]] demo_uplink_step
    by (simp add: try_send_def OUTGOING_CAPACITY_def takes_def uplink_start_def voice_run_start_def) (simp add: demo_event_def)
  have r4: "?R ?a4"
    using more [OF r3 au_voice_sends [of _ demo_frame "[]"]] by (simp add: voice_run_def voice_run_start_def)
  have v: "vt_running (voice_run [Vi_outgoing demo_frame] (voice_run_start True))" "vt_running (voice_run [Vi_outgoing demo_frame, ?i 100] (voice_run_start True))"
    by (simp_all add: voice_run_def voice_run_step_def voice_run_start_def)
  note receive = au_voice_receives [where data = "[0xF8]" and last_frame = False and now = 0 and session_id = 7 and res = SendOk]
  have r5: "?R (?a4\<lparr>au_voice := voice_run [Vi_outgoing demo_frame, ?i 100] (voice_run_start True), au_incoming := [demo_voice 100], au_inputs := [Vi_outgoing demo_frame, ?i 100]\<rparr>)"
    using more [OF r4 receive [where seq_num = 100 and d = "demo_voice 100" and q = "[demo_voice 100]" and i = "?i 100"]] v
    by (simp add: try_send_def VOICE_CHANNEL_CAPACITY_def demo_voice_def voice_run_def)
  have r6: "?R ?a6"
    using more [OF r5 receive [where seq_num = 102 and d = "demo_voice 102" and q = "[demo_voice 100, demo_voice 102]" and i = "?i 102"]] v
    by (simp add: try_send_def VOICE_CHANNEL_CAPACITY_def demo_voice_def voice_run_def demo_inputs_def)
  from more [OF more [OF r6 au_downlink [of _ "demo_voice 100" "[demo_voice 102]" _ 0 0]] au_downlink [of _ "demo_voice 102" "[]" _ "ms 20" "ms 20"]]
  show ?thesis by (simp add: demo_audio_def demo_written_def)
qed

section \<open>Properties of the audio tasks\<close>

text \<open>
  C27. From the microphone to the wire: whatever the browser sends on its tracks, however the tasks are scheduled and whichever channel is full,
  no channel ever holds more than its capacity, the audio frames the voice task sends to the Mumble server carry strictly increasing frame numbers
  (fewer than \<open>2 ^ 41\<close> events), each is the payload of an RTP packet that was read from one of the tracks and a valid
  Opus packet of whole 10 ms frames up to 120 ms, and an end marker carries no audio.
\<close>

theorem uplink_end_to_end:
  assumes "reachable (audio_init t init_sent) (audio_step ops) a" and "length (au_events a) < 2 ^ 41"
  shows "length (au_audio a) \<le> 6 \<and> length (au_outgoing a) \<le> 6 \<and> length (au_incoming a) \<le> 128 \<and>
    (case wire_audio (vt_sends (au_voice a)) of wire \<Rightarrow>
       sorted_wrt (<) (map (\<lambda>(n, _). unat n) (filter (\<lambda>(_, _, end_flag). \<not> end_flag) wire)) \<and>
       (\<forall>(n, data, end_flag) \<in> set wire. if end_flag then data = [] else
          (\<exists>k. opus_packet_total_samples data = Inr k \<and> unat k mod 480 = 0 \<and> unat k \<le> 5760) \<and>
          (\<exists>r reads pkt now. au_readers a r = Some reads \<and> Read_rtp pkt now SendOk \<in> set reads \<and> rp_payload pkt = data)))"
proof -
  have inv: "audio_inv ops t init_sent a" by (rule audio_tasks.reachable_inv [OF assms(1)])
  then have "prefix (outgoing_frames (au_inputs a)) (delivered (snd (uplink_run uplink_start (au_events a))))" by (simp add: audio_inv_def)
  note chain = uplink_chain [OF this assms(2), of init_sent]
  have "\<exists>r reads pkt now. au_readers a r = Some reads \<and> Read_rtp pkt now SendOk \<in> set reads \<and> rp_payload pkt = ia_opus_data p"
    if "p \<in> set (event_packets (au_events a))" for p
    using inv that by (intro was_read_payload) (simp add: audio_inv_def)
  with inv chain show ?thesis
    by (fastforce simp: audio_inv_def AUDIO_CAPACITY_def OUTGOING_CAPACITY_def VOICE_CHANNEL_CAPACITY_def split: if_splits)
qed

theorem uplink_end_to_end_witness:
  "wire_audio (vt_sends (au_voice demo_audio)) = [(0, [0xF8], False)] \<and> length (au_incoming demo_audio) \<le> 128"
  using uplink_end_to_end [OF demo_audio_reachable]
  by (simp add: demo_audio_def demo_inputs_def voice_run_def voice_run_step_def voice_run_start_def wire_audio_def outgoing_packet_def demo_frame_def)

text \<open>
  C9. From the Mumble server to the ear: for a speaker with a fresh track, whatever the other tasks and speakers do in
  between, the packets of one talk spurt that the downlink handles in time leave, one RTP packet each and in order, on that speaker's own
  track and with their own payload, and the packets of the speaker still missing are those queued for the downlink; sequence numbers are consecutive,
  each timestamp is 480 samples per Mumble frame after the first, only the first packet has the marker, and no other RTP packet appears on the track.
\<close>

theorem downlink_end_to_end:
  assumes "reachable (audio_init t init_sent) (audio_step (recorded ops)) a"
    and "named_tracks t" and "st_speakers t u = Some sp" and "sp_clock sp = media_clock_default" and "rtp_of u (snd (st_peer t)) = []"
    and "own_packets u (au_written a) = x # xs" and "list_all timely (x # xs)"
    and "in_talk (mv_seq_num (fst x)) (snd (snd x)) (map clock_input xs)" and "xs \<noteq> [] \<longrightarrow> \<not> mv_last_frame (fst x)"
  shows "case rtp_of u (snd (st_peer (au_tracks a))) of rtp \<Rightarrow>
    map rp_payload rtp @ map mv_opus_data (filter (\<lambda>d. mv_session_id d = u) (au_incoming a)) =
      map mv_opus_data (filter (\<lambda>d. mv_session_id d = u) (vt_forwarded (au_voice a))) \<and>
    map (\<lambda>p. rh_sequence_number (rp_header p)) rtp = map (\<lambda>i. of_nat (Suc i)) [0..<Suc (length xs)] \<and>
    map (\<lambda>p. (rh_timestamp (rp_header p), rh_marker (rp_header p))) rtp =
      (0, True) # map (\<lambda>(d, _). (ucast ((mv_seq_num d - mv_seq_num (fst x)) * 480), False)) xs"
proof -
  have inv: "audio_inv (recorded ops) t init_sent a" by (rule audio_tasks.reachable_inv [OF assms(1)])
  then have "au_tracks a = downlink_run (recorded ops) (au_written a) t" "vt_forwarded (au_voice a) = map fst (au_written a) @ au_incoming a"
    unfolding audio_inv_def by blast+
  with downlink_chain [OF assms(2-9), of ops] show ?thesis by simp
qed

theorem downlink_end_to_end_witness:
  "case rtp_of 7 (snd (st_peer (au_tracks demo_audio))) of rtp \<Rightarrow>
    map (\<lambda>p. rh_sequence_number (rp_header p)) rtp = [1, 2] \<and> map (\<lambda>p. rh_timestamp (rp_header p)) rtp = [0, 960]"
proof -
  have t: "st_speakers demo_tracks = [7 \<mapsto> \<lparr>sp_track = speaker_track 7, sp_sender = 0, sp_clock = media_clock_default\<rparr>]" "snd (st_peer demo_tracks) = []"
    by (simp_all add: demo_tracks_def speakers_add_def speakers_new_def recorded_def sim_peer_ops_def sim_peer_new_def)
  have h2: "named_tracks demo_tracks" by (simp add: named_tracks_def t)
  have h3: "st_speakers demo_tracks 7 = Some \<lparr>sp_track = speaker_track 7, sp_sender = 0, sp_clock = media_clock_default\<rparr>" by (simp add: t)
  have h4: "sp_clock \<lparr>sp_track = speaker_track 7, sp_sender = 0 :: nat, sp_clock = media_clock_default\<rparr> = media_clock_default" by simp
  have h5: "rtp_of 7 (snd (st_peer demo_tracks)) = []" by (simp add: t)
  have h6: "own_packets 7 (au_written demo_audio) = (demo_voice 100, 0, 0) # [(demo_voice 102, ms 20, ms 20)]"
    by (simp add: demo_audio_def demo_written_def own_packets_def demo_voice_def)
  have h7: "list_all timely ((demo_voice 100, 0, 0) # [(demo_voice 102, ms 20, ms 20)])"
    by (simp add: timely_def demo_voice_def demo_opus as_millis_def)
  have h8: "in_talk (mv_seq_num (fst (demo_voice 100, 0, 0))) (snd (snd (demo_voice 100, 0 :: nat, 0))) (map clock_input [(demo_voice 102, ms 20, ms 20)])"
    by (simp add: clock_input_def demo_voice_def as_millis_def)
  have h9: "[(demo_voice 102, ms 20, ms 20)] \<noteq> [] \<longrightarrow> \<not> mv_last_frame (fst (demo_voice 100, 0 :: nat, 0 :: nat))" by (simp add: demo_voice_def)
  have seq: "mv_seq_num (demo_voice n) = n" for n by (simp add: demo_voice_def)
  from downlink_end_to_end [OF demo_audio_reachable h2 h3 h4 h5 h6 h7 h8 h9] show ?thesis by (auto simp: seq Let_def)
qed

end
