(* ===== verification/Turn_System.thy ===== *)
theory Turn_System
  imports Turn_Service
begin

text \<open>
  The tasks of the TURN service together (\<open>src/src/turn/mod.rs\<close>): the closer of the UDP server, the accept
  loops, one task per accepted stream, calls of \<open>ice_config\<close> and \<open>revoke\<close>, and \<open>close\<close>, in every interleaving of their
  atomic parts. A server of the TURN library is known by a number; it exists from \<open>Server::new\<close> on and is owned by
  one task, which closes it before it ends.
\<close>

section \<open>Tasks and state\<close>

datatype listener = L_tcp | L_tls

text \<open>
  A stream's task: spawned, in the TLS handshake, creating its server, about to register it, serving
  until the stream or the service closes, and closing the server. A task that ended is gone.
\<close>

datatype client_phase =
  C_accepted
| C_handshake
| C_connected
| C_created nat
| C_serving nat
| C_closing nat

datatype udp_phase = U_waiting | U_closing | U_done

datatype turn_task = K_udp | K_loop listener

datatype close_phase = K_idle | K_waiting "turn_task list" | K_returned

text \<open>
  \<open>ty_ended\<close> are the accept tasks that ended, \<open>ty_hung_up\<close> the streams whose closed flag is set;
  \<open>ty_made\<close> and \<open>ty_closed\<close> are the servers created and the servers whose \<open>close\<close> returned.
\<close>

record turn_system =
  ty_service :: turn_service
  ty_udp :: udp_phase
  ty_loops :: "listener \<rightharpoonup> accept_state"
  ty_ended :: "listener set"
  ty_clients :: "nat \<rightharpoonup> listener \<times> client_phase"
  ty_hung_up :: "nat set"
  ty_next :: nat
  ty_made :: "nat set"
  ty_closed :: "nat set"
  ty_close :: close_phase

definition has_tls :: "config \<Rightarrow> bool" where
  "has_tls c \<longleftrightarrow> tc_tls_cert (cf_turn c) \<noteq> None \<and> tc_tls_key (cf_turn c) \<noteq> None"

definition turn_system_new :: "turn_service \<Rightarrow> turn_system" where
  "turn_system_new ts =
     \<lparr>ty_service = ts, ty_udp = U_waiting,
      ty_loops = (\<lambda>l. if l = L_tcp \<or> has_tls (ts_config ts) then Some (accept_start ts) else None),
      ty_ended = {}, ty_clients = Map.empty, ty_hung_up = {}, ty_next = 1, ty_made = {0}, ty_closed = {}, ty_close = K_idle\<rparr>"

definition turn_init :: "config \<Rightarrow> turn_system \<Rightarrow> bool" where
  "turn_init c y \<longleftrightarrow> (\<exists>env ts. turn_start env c = Inr ts \<and> y = turn_system_new ts)"

primrec phase_server :: "client_phase \<Rightarrow> nat option" where
  "phase_server C_accepted = None"
| "phase_server C_handshake = None"
| "phase_server C_connected = None"
| "phase_server (C_created srv) = Some srv"
| "phase_server (C_serving srv) = Some srv"
| "phase_server (C_closing srv) = Some srv"

primrec phase_registered :: "client_phase \<Rightarrow> nat option" where
  "phase_registered C_accepted = None"
| "phase_registered C_handshake = None"
| "phase_registered C_connected = None"
| "phase_registered (C_created srv) = None"
| "phase_registered (C_serving srv) = Some srv"
| "phase_registered (C_closing srv) = Some srv"

definition client_server :: "turn_system \<Rightarrow> nat \<Rightarrow> nat option" where
  "client_server y c = (case ty_clients y c of None \<Rightarrow> None | Some (l, ph) \<Rightarrow> phase_server ph)"

definition client_registered :: "turn_system \<Rightarrow> nat \<Rightarrow> nat option" where
  "client_registered y c = (case ty_clients y c of None \<Rightarrow> None | Some (l, ph) \<Rightarrow> phase_registered ph)"

definition udp_server :: "turn_system \<Rightarrow> nat set" where
  "udp_server y = (if ty_udp y = U_done then {} else {0})"

text \<open>The servers some task owns, and those of them that were registered.\<close>

definition owned :: "turn_system \<Rightarrow> nat set" where
  "owned y = udp_server y \<union> ran (client_server y)"

definition serving :: "turn_system \<Rightarrow> nat set" where
  "serving y = udp_server y \<union> ran (client_registered y)"

definition task_ended :: "turn_system \<Rightarrow> turn_task \<Rightarrow> bool" where
  "task_ended y t = (case t of K_udp \<Rightarrow> ty_udp y = U_done | K_loop l \<Rightarrow> l \<in> ty_ended y)"

definition service_tasks :: "turn_system \<Rightarrow> turn_task list" where
  "service_tasks y = [K_udp, K_loop L_tcp] @ (if ty_loops y L_tls = None then [] else [K_loop L_tls])"

section \<open>Steps\<close>

definition put_loop :: "listener \<Rightarrow> accept_event \<Rightarrow> turn_system \<Rightarrow> turn_system" where
  "put_loop l ev y = y\<lparr>ty_loops := (ty_loops y)(l := map_option (accept_step ev) (ty_loops y l))\<rparr>"

definition put_client :: "nat \<Rightarrow> listener \<Rightarrow> client_phase \<Rightarrow> turn_system \<Rightarrow> turn_system" where
  "put_client c l ph y = y\<lparr>ty_clients := (ty_clients y)(c \<mapsto> (l, ph))\<rparr>"

definition end_client :: "nat \<Rightarrow> listener \<Rightarrow> turn_system \<Rightarrow> turn_system" where
  "end_client c l y = put_loop l (Ev_client_done c) (y\<lparr>ty_clients := (ty_clients y)(c := None)\<rparr>)"

text \<open>An accepted stream gets a task if a slot is free and is dropped otherwise.\<close>

definition accept_client :: "listener \<Rightarrow> turn_system \<Rightarrow> turn_system" where
  "accept_client l y =
     (case ty_loops y l of
        None \<Rightarrow> y
      | Some a \<Rightarrow>
          if try_acquire_owned (ac_slots a) = None then y
          else put_loop l (Ev_accepted (ty_next y))
            (y\<lparr>ty_clients := (ty_clients y)(ty_next y \<mapsto> (l, C_accepted)), ty_next := ty_next y + 1\<rparr>))"

datatype turn_label = Y_accept | Y_close | Y_outside | Y_work

text \<open>
  \<open>Y_work\<close> is what the tasks do on their own; the other labels are streams that arrive, the call of \<open>close\<close>, and what
  else comes from outside. Each operation that may fail has a step for its failure.
\<close>

inductive turn_step :: "turn_system \<Rightarrow> turn_label list \<Rightarrow> turn_system \<Rightarrow> bool" where
  ty_accept: "ty_loops y l = Some a \<Longrightarrow> \<not> ac_stopped a \<Longrightarrow> turn_step y [Y_accept] (accept_client l y)"
| ty_accept_error: "ty_loops y l = Some a \<Longrightarrow> \<not> ac_stopped a \<Longrightarrow> turn_step y [Y_outside] (put_loop l Ev_accept_error y)"
| ty_loop_stop: "ty_loops y l = Some a \<Longrightarrow> \<not> ac_stopped a \<Longrightarrow> ts_shutdown (ty_service y) \<Longrightarrow>
    turn_step y [Y_work] (put_loop l Ev_shutdown y)"
| ty_loop_end: "ty_loops y l = Some a \<Longrightarrow> ac_stopped a \<Longrightarrow> ac_clients a = [] \<Longrightarrow> l \<notin> ty_ended y \<Longrightarrow>
    turn_step y [Y_work] (y\<lparr>ty_ended := insert l (ty_ended y)\<rparr>)"
| ty_no_address: "ty_clients y c = Some (l, C_accepted) \<Longrightarrow> turn_step y [Y_work] (end_client c l y)"
| ty_plain: "ty_clients y c = Some (L_tcp, C_accepted) \<Longrightarrow> turn_step y [Y_work] (put_client c L_tcp C_connected y)"
| ty_tls: "ty_clients y c = Some (L_tls, C_accepted) \<Longrightarrow> turn_step y [Y_work] (put_client c L_tls C_handshake y)"
| ty_tls_failed: "ty_clients y c = Some (l, C_handshake) \<Longrightarrow> turn_step y [Y_work] (end_client c l y)"
| ty_tls_done: "ty_clients y c = Some (l, C_handshake) \<Longrightarrow> turn_step y [Y_work] (put_client c l C_connected y)"
| ty_no_server: "ty_clients y c = Some (l, C_connected) \<Longrightarrow> turn_step y [Y_work] (end_client c l y)"
| ty_created: "ty_clients y c = Some (l, C_connected) \<Longrightarrow> settings_for (ty_service y) = Inr settings \<Longrightarrow>
    turn_step y [Y_work]
      (put_client c l (C_created (ty_next y)) (y\<lparr>ty_made := insert (ty_next y) (ty_made y), ty_next := ty_next y + 1\<rparr>))"
| ty_register: "ty_clients y c = Some (l, C_created srv) \<Longrightarrow> owned y \<subseteq> Collect strong \<Longrightarrow>
    turn_step y [Y_work] (put_client c l (C_serving srv) (y\<lparr>ty_service := register_server strong srv (ty_service y)\<rparr>))"
| ty_leave: "ty_clients y c = Some (l, C_serving srv) \<Longrightarrow> c \<in> ty_hung_up y \<or> ts_shutdown (ty_service y) \<Longrightarrow>
    turn_step y [Y_work] (put_client c l (C_closing srv) y)"
| ty_server_closed: "ty_clients y c = Some (l, C_closing srv) \<Longrightarrow>
    turn_step y [Y_work] (end_client c l (y\<lparr>ty_closed := insert srv (ty_closed y)\<rparr>))"
| ty_hang_up: "ty_clients y c = Some (l, ph) \<Longrightarrow> ph \<noteq> C_accepted \<Longrightarrow> ph \<noteq> C_handshake \<Longrightarrow>
    turn_step y [Y_outside] (y\<lparr>ty_hung_up := insert c (ty_hung_up y)\<rparr>)"
| ty_udp_notified: "ty_udp y = U_waiting \<Longrightarrow> ts_shutdown (ty_service y) \<Longrightarrow> turn_step y [Y_work] (y\<lparr>ty_udp := U_closing\<rparr>)"
| ty_udp_closed: "ty_udp y = U_closing \<Longrightarrow> turn_step y [Y_work] (y\<lparr>ty_udp := U_done, ty_closed := insert 0 (ty_closed y)\<rparr>)"
| ty_issue: "turn_step y [Y_outside] (y\<lparr>ty_service := snd (turn_ice_config gen d order now session (ty_service y))\<rparr>)"
| ty_revoke: "turn_step y [Y_outside] (y\<lparr>ty_service := snd (turn_revoke strong order session (ty_service y))\<rparr>)"
| ty_close_call: "ty_close y = K_idle \<Longrightarrow>
    turn_step y [Y_close] (y\<lparr>ty_service := turn_close (ty_service y), ty_close := K_waiting (service_tasks y)\<rparr>)"
| ty_close_next: "ty_close y = K_waiting (t # ts) \<Longrightarrow> task_ended y t \<Longrightarrow> turn_step y [Y_work] (y\<lparr>ty_close := K_waiting ts\<rparr>)"
| ty_close_return: "ty_close y = K_waiting [] \<Longrightarrow> turn_step y [Y_work] (y\<lparr>ty_close := K_returned\<rparr>)"

section \<open>Streams and slots\<close>

definition loop_clients :: "turn_system \<Rightarrow> listener \<Rightarrow> nat list" where
  "loop_clients y l = (case ty_loops y l of None \<Rightarrow> [] | Some a \<Rightarrow> ac_clients a)"

definition clients_of :: "turn_system \<Rightarrow> listener \<Rightarrow> nat set" where
  "clients_of y l = {c. map_option fst (ty_clients y c) = Some l}"

text \<open>Each loop holds the tasks of its streams and their slots; an accept task ends after its last stream.\<close>

definition loops_ok :: "nat \<Rightarrow> turn_system \<Rightarrow> bool" where
  "loops_ok n y \<longleftrightarrow>
     (\<forall>c \<in> dom (ty_clients y). c < ty_next y) \<and>
     (\<forall>l a. ty_loops y l = Some a \<longrightarrow> accept_inv n a) \<and>
     (\<forall>l. distinct (loop_clients y l) \<and> set (loop_clients y l) = clients_of y l) \<and>
     (\<forall>l \<in> ty_ended y. \<exists>a. ty_loops y l = Some a \<and> ac_stopped a \<and> ac_clients a = [])"

lemma loops_okI:
  assumes "loops_ok n y" and "ty_next y \<le> ty_next z" and "ty_loops z = ty_loops y" and "ty_ended z = ty_ended y"
    and "\<And>c. map_option fst (ty_clients z c) = map_option fst (ty_clients y c)"
  shows "loops_ok n z"
proof -
  have "ty_clients z c = None \<longleftrightarrow> ty_clients y c = None" for c using assms(5) [of c] by (metis map_option_is_None)
  then have d: "dom (ty_clients z) = dom (ty_clients y)" by (simp add: dom_def)
  from assms show ?thesis unfolding loops_ok_def loop_clients_def clients_of_def d by (auto intro: less_le_trans)
qed

lemma loops_put_client: "loops_ok n y \<Longrightarrow> ty_clients y c = Some (l, ph) \<Longrightarrow> loops_ok n (put_client c l ph' y)"
  by (erule loops_okI) (auto simp: put_client_def)

lemma put_loop_fields [simp]:
  "ty_clients (put_loop l ev y) = ty_clients y" "ty_ended (put_loop l ev y) = ty_ended y" "ty_next (put_loop l ev y) = ty_next y"
  "ty_service (put_loop l ev y) = ty_service y" "ty_udp (put_loop l ev y) = ty_udp y" "ty_made (put_loop l ev y) = ty_made y"
  "ty_closed (put_loop l ev y) = ty_closed y" "ty_close (put_loop l ev y) = ty_close y" "ty_hung_up (put_loop l ev y) = ty_hung_up y"
  "ty_loops (put_loop l ev y) = (ty_loops y)(l := map_option (accept_step ev) (ty_loops y l))"
  by (simp_all add: put_loop_def)

lemma put_client_fields [simp]:
  "ty_clients (put_client c l ph y) = (ty_clients y)(c \<mapsto> (l, ph))" "ty_ended (put_client c l ph y) = ty_ended y"
  "ty_next (put_client c l ph y) = ty_next y" "ty_service (put_client c l ph y) = ty_service y" "ty_udp (put_client c l ph y) = ty_udp y"
  "ty_made (put_client c l ph y) = ty_made y" "ty_closed (put_client c l ph y) = ty_closed y" "ty_close (put_client c l ph y) = ty_close y"
  "ty_hung_up (put_client c l ph y) = ty_hung_up y" "ty_loops (put_client c l ph y) = ty_loops y"
  by (simp_all add: put_client_def)

lemma end_client_fields [simp]:
  "ty_clients (end_client c l y) = (ty_clients y)(c := None)" "ty_ended (end_client c l y) = ty_ended y"
  "ty_next (end_client c l y) = ty_next y" "ty_service (end_client c l y) = ty_service y" "ty_udp (end_client c l y) = ty_udp y"
  "ty_made (end_client c l y) = ty_made y" "ty_closed (end_client c l y) = ty_closed y" "ty_close (end_client c l y) = ty_close y"
  "ty_loops (end_client c l y) = (ty_loops y)(l := map_option (accept_step (Ev_client_done c)) (ty_loops y l))"
  by (simp_all add: end_client_def)

lemma accept_step_stops [simp]:
  "ac_clients (accept_step Ev_shutdown a) = ac_clients a" "ac_clients (accept_step Ev_accept_error a) = ac_clients a"
  "ac_stopped (accept_step Ev_shutdown a)" "ac_stopped (accept_step Ev_accept_error a)"
  by (simp_all add: accept_step_def)

lemma accept_step_done:
  "ac_clients (accept_step (Ev_client_done c) a) = remove1 c (ac_clients a)" "ac_stopped (accept_step (Ev_client_done c) a) = ac_stopped a"
  by (auto simp: accept_step_def remove1_idem)

lemma loops_stop:
  assumes "loops_ok n y" and "ev = Ev_shutdown \<or> ev = Ev_accept_error"
  shows "loops_ok n (put_loop l ev y)"
proof -
  have "loop_clients (put_loop l ev y) k = loop_clients y k" for k
    using assms(2) by (auto simp: loop_clients_def split: option.split)
  moreover have "clients_of (put_loop l ev y) = clients_of y" by (simp add: clients_of_def fun_eq_iff)
  moreover have "\<exists>a. ty_loops (put_loop l ev y) k = Some a \<and> ac_stopped a \<and> ac_clients a = []" if "k \<in> ty_ended y" for k
    using assms that by (auto simp: loops_ok_def)
  ultimately show ?thesis using assms(1) by (auto simp: loops_ok_def accept_step_inv split: if_splits)
qed

lemma loops_end_client:
  assumes ok: "loops_ok n y" and c: "ty_clients y c = Some (l, ph)"
  shows "loops_ok n (end_client c l y)"
proof -
  have at: "loop_clients (end_client c l y) k = (if k = l then remove1 c (loop_clients y k) else loop_clients y k)" for k
    by (auto simp: loop_clients_def accept_step_done split: option.split)
  have cl: "clients_of (end_client c l y) k = clients_of y k - {c}" for k by (auto simp: clients_of_def)
  have other: "c \<notin> clients_of y k" if "k \<noteq> l" for k using that c by (auto simp: clients_of_def)
  have "distinct (loop_clients (end_client c l y) k) \<and> set (loop_clients (end_client c l y) k) = clients_of (end_client c l y) k" for k
    using ok at [of k] cl [of k] other [of k] by (auto simp: loops_ok_def)
  moreover have "\<exists>a. ty_loops (end_client c l y) k = Some a \<and> ac_stopped a \<and> ac_clients a = []" if "k \<in> ty_ended y" for k
    using ok that by (auto simp: loops_ok_def accept_step_done)
  ultimately show ?thesis using ok by (auto simp: loops_ok_def accept_step_inv split: if_splits)
qed

lemma loops_accept:
  assumes ok: "loops_ok n y" and a: "ty_loops y l = Some a" "\<not> ac_stopped a"
  shows "loops_ok n (accept_client l y)"
proof (cases "try_acquire_owned (ac_slots a)")
  case (Some slots)
  let ?z = "accept_client l y"
  have z: "ty_clients ?z = (ty_clients y)(ty_next y \<mapsto> (l, C_accepted))" "ty_next ?z = ty_next y + 1" "ty_ended ?z = ty_ended y"
    "ty_loops ?z = (ty_loops y)(l \<mapsto> accept_step (Ev_accepted (ty_next y)) a)"
    using a Some by (simp_all add: accept_client_def)
  have "ac_clients (accept_step (Ev_accepted (ty_next y)) a) = ty_next y # ac_clients a"
    using a Some by (simp add: accept_step_def)
  then have at: "loop_clients ?z k = (if k = l then ty_next y # loop_clients y k else loop_clients y k)" for k
    using a z by (auto simp: loop_clients_def)
  have fresh: "ty_clients y (ty_next y) = None" using ok by (auto simp: loops_ok_def)
  then have cl: "clients_of ?z k = (if k = l then insert (ty_next y) (clients_of y k) else clients_of y k)" "ty_next y \<notin> clients_of y k" for k
    using z by (auto simp: clients_of_def)
  have "distinct (loop_clients ?z k) \<and> set (loop_clients ?z k) = clients_of ?z k" for k
    using ok at [of k] cl [of k] by (auto simp: loops_ok_def)
  moreover have "\<exists>b. ty_loops ?z k = Some b \<and> ac_stopped b \<and> ac_clients b = []" if "k \<in> ty_ended y" for k
    using ok that a z by (fastforce simp: loops_ok_def)
  moreover have "\<forall>c \<in> dom (ty_clients ?z). c < ty_next ?z" using ok z by (auto simp: loops_ok_def less_SucI)
  ultimately show ?thesis using ok a z by (auto simp: loops_ok_def accept_step_inv split: if_splits)
qed (use ok a in \<open>simp add: accept_client_def\<close>)

lemma loops_step: "turn_step y ls z \<Longrightarrow> loops_ok n y \<Longrightarrow> loops_ok n z"
proof (induction rule: turn_step.induct)
  case (ty_created y c l settings)
  show ?case by (rule loops_put_client [of _ _ _ _ C_connected]) (auto intro: loops_okI [OF ty_created(3)] simp: ty_created(1))
next
  case (ty_register y c l srv strong)
  show ?case by (rule loops_put_client [of _ _ _ _ "C_created srv"]) (auto intro: loops_okI [OF ty_register(3)] simp: ty_register(1))
next
  case (ty_server_closed y c l srv)
  show ?case by (rule loops_end_client [of _ _ _ _ "C_closing srv"]) (auto intro: loops_okI [OF ty_server_closed(2)] simp: ty_server_closed(1))
next
  case (ty_loop_end y l a)
  then show ?case by (auto simp: loops_ok_def loop_clients_def clients_of_def)
qed (auto intro: loops_accept loops_stop loops_end_client loops_put_client elim: loops_okI)

section \<open>Servers\<close>

text \<open>The servers that exist are the owned ones, and each has one owner.\<close>

definition servers_ok :: "turn_system \<Rightarrow> bool" where
  "servers_ok y \<longleftrightarrow>
     (\<forall>srv \<in> ty_made y. srv < ty_next y) \<and> 0 < ty_next y \<and> ty_closed y \<subseteq> ty_made y \<and> ty_made y - ty_closed y = owned y \<and>
     (\<forall>c d srv. client_server y c = Some srv \<longrightarrow> client_server y d = Some srv \<longrightarrow> c = d) \<and>
     0 \<notin> ran (client_server y)"

lemma client_server_put [simp]:
  "client_server (put_client c l ph y) = (client_server y)(c := phase_server ph)"
  "client_registered (put_client c l ph y) = (client_registered y)(c := phase_registered ph)"
  "client_server (end_client c l y) = (client_server y)(c := None)"
  "client_registered (end_client c l y) = (client_registered y)(c := None)"
  by (auto simp: client_server_def client_registered_def fun_eq_iff)

lemma client_server_loop [simp]:
  "client_server (put_loop l ev y) = client_server y" "client_registered (put_loop l ev y) = client_registered y"
  by (simp_all add: client_server_def client_registered_def fun_eq_iff)

lemma client_server_cong: "ty_clients z = ty_clients y \<Longrightarrow> client_server z = client_server y \<and> client_registered z = client_registered y"
  by (simp add: client_server_def client_registered_def fun_eq_iff)

lemma client_server_upd [simp]:
  "client_server (y\<lparr>ty_service := s\<rparr>) = client_server y"
  "client_server (y\<lparr>ty_udp := u\<rparr>) = client_server y"
  "client_server (y\<lparr>ty_loops := f\<rparr>) = client_server y"
  "client_server (y\<lparr>ty_ended := E\<rparr>) = client_server y"
  "client_server (y\<lparr>ty_hung_up := A\<rparr>) = client_server y"
  "client_server (y\<lparr>ty_next := n\<rparr>) = client_server y"
  "client_server (y\<lparr>ty_made := A\<rparr>) = client_server y"
  "client_server (y\<lparr>ty_closed := A\<rparr>) = client_server y"
  "client_server (y\<lparr>ty_close := k\<rparr>) = client_server y"
  "client_registered (y\<lparr>ty_service := s\<rparr>) = client_registered y"
  "client_registered (y\<lparr>ty_udp := u\<rparr>) = client_registered y"
  "client_registered (y\<lparr>ty_loops := f\<rparr>) = client_registered y"
  "client_registered (y\<lparr>ty_ended := E\<rparr>) = client_registered y"
  "client_registered (y\<lparr>ty_hung_up := A\<rparr>) = client_registered y"
  "client_registered (y\<lparr>ty_next := n\<rparr>) = client_registered y"
  "client_registered (y\<lparr>ty_made := A\<rparr>) = client_registered y"
  "client_registered (y\<lparr>ty_closed := A\<rparr>) = client_registered y"
  "client_registered (y\<lparr>ty_close := k\<rparr>) = client_registered y"
  by (simp_all add: client_server_def client_registered_def fun_eq_iff)

lemma udp_server_put [simp]:
  "udp_server (put_client c l ph y) = udp_server y" "udp_server (end_client c l y) = udp_server y" "udp_server (put_loop l ev y) = udp_server y"
  "udp_server (y\<lparr>ty_service := s\<rparr>) = udp_server y"
  "udp_server (y\<lparr>ty_loops := f\<rparr>) = udp_server y"
  "udp_server (y\<lparr>ty_ended := E\<rparr>) = udp_server y"
  "udp_server (y\<lparr>ty_hung_up := A\<rparr>) = udp_server y"
  "udp_server (y\<lparr>ty_next := n\<rparr>) = udp_server y"
  "udp_server (y\<lparr>ty_made := A\<rparr>) = udp_server y"
  "udp_server (y\<lparr>ty_closed := A\<rparr>) = udp_server y"
  "udp_server (y\<lparr>ty_close := k\<rparr>) = udp_server y"
  by (simp_all add: udp_server_def)

lemma ran_upd_None: "(\<forall>d s. m c = Some s \<longrightarrow> m d = Some s \<longrightarrow> c = d) \<Longrightarrow> ran (m(c := None)) = ran m - set_option (m c)"
  by (auto simp: ran_def)

lemma phase_registered_server: "phase_registered ph = Some srv \<Longrightarrow> phase_server ph = Some srv"
  by (cases ph) auto

lemma registered_client: "client_registered y c = Some srv \<Longrightarrow> client_server y c = Some srv"
  by (auto simp: client_registered_def client_server_def phase_registered_server split: option.splits)

lemma servers_okI:
  assumes "servers_ok y" and "ty_clients z = ty_clients y" and "udp_server z = udp_server y" and "ty_next y \<le> ty_next z"
    and "ty_made z = ty_made y" and "ty_closed z = ty_closed y"
  shows "servers_ok z"
  using assms client_server_cong [OF assms(2)] by (auto simp: servers_ok_def owned_def)

lemma servers_put_client:
  assumes ok: "servers_ok y" and c: "ty_clients y c = Some (l, ph)" and same: "phase_server ph' = phase_server ph"
  shows "servers_ok (put_client c l ph' y)"
proof -
  have "client_server y c = phase_server ph'" using c same by (simp add: client_server_def)
  then have cs: "client_server (put_client c l ph' y) = client_server y" by (simp add: fun_upd_idem)
  show ?thesis using ok by (auto simp: servers_ok_def owned_def cs simp del: client_server_put)
qed

lemma servers_end_client:
  assumes ok: "servers_ok y" and c: "ty_clients y c = Some (l, ph)" and closed: "ty_closed z = ty_closed y \<union> set_option (phase_server ph)"
    and z: "ty_clients z = ty_clients y" "ty_udp z = ty_udp y" "ty_next z = ty_next y" "ty_made z = ty_made y"
  shows "servers_ok (end_client c l z)"
proof -
  have cs: "client_server z = client_server y" using client_server_cong [OF z(1)] by auto
  have own: "client_server y c = phase_server ph" using c by (simp add: client_server_def)
  have inj: "\<forall>d s. client_server y c = Some s \<longrightarrow> client_server y d = Some s \<longrightarrow> c = d" using ok by (auto simp: servers_ok_def)
  have r: "ran ((client_server y)(c := None)) = ran (client_server y) - set_option (phase_server ph)"
    using ran_upd_None [OF inj] own by simp
  have "0 \<notin> set_option (phase_server ph)" "set_option (phase_server ph) \<subseteq> ran (client_server y)"
    using ok own by (auto simp: servers_ok_def ran_def)
  moreover have "udp_server z = udp_server y" using z(2) by (simp add: udp_server_def)
  ultimately show ?thesis
    using ok z(3,4) closed by (auto simp: servers_ok_def owned_def cs r udp_server_def split: if_splits)
qed

lemma servers_created:
  assumes ok: "servers_ok y" and c: "ty_clients y c = Some (l, C_connected)"
  shows "servers_ok (put_client c l (C_created (ty_next y)) (y\<lparr>ty_made := insert (ty_next y) (ty_made y), ty_next := ty_next y + 1\<rparr>))"
proof -
  have none: "client_server y c = None" using c by (simp add: client_server_def)
  have fresh: "ty_next y \<notin> ty_made y" "ty_next y \<notin> ran (client_server y)" "ty_next y \<notin> ty_closed y" "ty_next y \<noteq> 0"
    using ok by (auto simp: servers_ok_def owned_def)
  have "ran ((client_server y)(c \<mapsto> ty_next y)) = insert (ty_next y) (ran (client_server y))" using none by simp
  moreover have "client_server y d \<noteq> Some (ty_next y)" for d using fresh(2) by (auto simp: ran_def)
  ultimately show ?thesis
    using ok fresh by (auto simp: servers_ok_def owned_def less_Suc_eq insert_Diff_if)
qed

lemma servers_udp_closed:
  assumes "servers_ok y" and "ty_udp y = U_closing"
  shows "servers_ok (y\<lparr>ty_udp := U_done, ty_closed := insert 0 (ty_closed y)\<rparr>)"
proof -
  show ?thesis using assms by (auto simp: servers_ok_def owned_def udp_server_def)
qed

lemma service_ops_keep [simp]:
  "ts_servers (snd (turn_ice_config gen d order now session ts)) = ts_servers ts" "ts_servers (snd (turn_revoke strong order session ts)) = ts_servers ts"
  "ts_config (snd (turn_ice_config gen d order now session ts)) = ts_config ts" "ts_config (snd (turn_revoke strong order session ts)) = ts_config ts"
  "ts_shutdown (snd (turn_ice_config gen d order now session ts)) = ts_shutdown ts" "ts_shutdown (snd (turn_revoke strong order session ts)) = ts_shutdown ts"
  by (simp_all add: turn_ice_config_def turn_revoke_def case_prod_unfold Let_def)

lemma service_ops_change [simp]:
  "ts_config (register_server strong srv ts) = ts_config ts" "ts_shutdown (register_server strong srv ts) = ts_shutdown ts"
  "ts_config (turn_close ts) = ts_config ts" "ts_shutdown (turn_close ts)" "ts_servers (turn_close ts) = ts_servers ts"
  by (simp_all add: register_server_def turn_close_def)

lemma accept_client_fields [simp]:
  "ty_service (accept_client l y) = ty_service y" "ty_udp (accept_client l y) = ty_udp y" "ty_made (accept_client l y) = ty_made y"
  "ty_closed (accept_client l y) = ty_closed y" "ty_close (accept_client l y) = ty_close y" "ty_ended (accept_client l y) = ty_ended y"
  by (simp_all add: accept_client_def split: option.split)

lemma servers_accept:
  assumes ok: "servers_ok y" and fresh: "ty_clients y (ty_next y) = None"
  shows "servers_ok (accept_client l y)"
proof -
  have cl: "ty_clients (accept_client l y) = ty_clients y \<or> ty_clients (accept_client l y) = (ty_clients y)(ty_next y \<mapsto> (l, C_accepted))"
    and n: "ty_next y \<le> ty_next (accept_client l y)" by (auto simp: accept_client_def split: option.split)
  then have "client_server (accept_client l y) = client_server y \<and> client_registered (accept_client l y) = client_registered y"
    using fresh by (auto simp: client_server_def client_registered_def fun_eq_iff)
  with ok n show ?thesis by (auto simp: servers_ok_def owned_def udp_server_def)
qed

lemma servers_step: "turn_step y ls z \<Longrightarrow> loops_ok n y \<Longrightarrow> servers_ok y \<Longrightarrow> servers_ok z"
proof (induction rule: turn_step.induct)
  case (ty_accept y l a)
  then show ?case by (intro servers_accept) (auto simp: loops_ok_def)
next
  case (ty_server_closed y c l srv)
  then show ?case by (intro servers_end_client [where y = y]) auto
next
  case (ty_created y c l settings)
  then show ?case by (intro servers_created)
next
  case (ty_register y c l srv strong)
  then have "servers_ok (y\<lparr>ty_service := register_server strong srv (ty_service y)\<rparr>)" by (auto elim: servers_okI)
  with ty_register show ?case by (intro servers_put_client) auto
qed (auto intro: servers_end_client servers_put_client servers_udp_closed elim: servers_okI simp: udp_server_def)

text \<open>The registry lists exactly the owned servers whose task has registered them, and perhaps servers that are gone.\<close>

definition registry_ok :: "turn_system \<Rightarrow> bool" where
  "registry_ok y \<longleftrightarrow> set (ts_servers (ty_service y)) \<subseteq> ty_made y \<and> (ty_udp y \<noteq> U_done \<longrightarrow> 0 \<in> set (ts_servers (ty_service y))) \<and>
     (\<forall>c srv. client_server y c = Some srv \<longrightarrow> (srv \<in> set (ts_servers (ty_service y)) \<longleftrightarrow> client_registered y c = Some srv))"

lemma registry_serving: "registry_ok y \<Longrightarrow> owned y \<inter> set (ts_servers (ty_service y)) = serving y"
proof -
  assume ok: "registry_ok y"
  have "srv \<in> owned y \<and> srv \<in> set (ts_servers (ty_service y)) \<longleftrightarrow> srv \<in> serving y" for srv
  proof (cases "srv \<in> udp_server y")
    case True
    with ok show ?thesis by (auto simp: registry_ok_def owned_def serving_def udp_server_def split: if_splits)
  next
    case False
    with ok show ?thesis unfolding registry_ok_def owned_def serving_def ran_def by (auto dest: registered_client)
  qed
  then show ?thesis by blast
qed

lemma unregistered_servers:
  assumes "servers_ok y"
  shows "owned y - serving y = {srv. \<exists>k l. ty_clients y k = Some (l, C_created srv)}"
proof (intro set_eqI iffI; clarsimp)
  fix srv
  assume o: "srv \<in> owned y" and n: "srv \<notin> serving y"
  then obtain k where k: "client_server y k = Some srv" "client_registered y k \<noteq> Some srv" by (auto simp: owned_def serving_def ran_def)
  then obtain l ph where "ty_clients y k = Some (l, ph)" "phase_server ph = Some srv" "phase_registered ph \<noteq> Some srv"
    by (auto simp: client_server_def client_registered_def split: option.splits)
  then show "\<exists>k l. ty_clients y k = Some (l, C_created srv)" by (cases ph) auto
next
  fix srv k l
  assume k: "ty_clients y k = Some (l, C_created srv)"
  then have own: "client_server y k = Some srv" "client_registered y k = None" by (simp_all add: client_server_def client_registered_def)
  then have "client_registered y d \<noteq> Some srv" for d
    using assms registered_client [of y d srv] unfolding servers_ok_def by (metis option.simps(3))
  moreover have "srv \<noteq> 0" using assms own by (auto simp: servers_ok_def ran_def)
  ultimately show "srv \<in> owned y \<and> srv \<notin> serving y" using own by (auto simp: owned_def serving_def ran_def udp_server_def)
qed

lemma registry_okI:
  assumes "registry_ok y" and "\<And>c. client_server z c \<noteq> None \<Longrightarrow> client_server z c = client_server y c \<and> client_registered z c = client_registered y c"
    and "ty_made y \<subseteq> ty_made z" and "ty_udp z = U_done \<or> ty_udp y \<noteq> U_done" and "ts_servers (ty_service z) = ts_servers (ty_service y)"
  shows "registry_ok z"
  using assms unfolding registry_ok_def by (metis option.simps(3) subset_trans)

lemma registry_put:
  assumes "registry_ok y" and "ty_clients y c = Some (l, ph)" and "phase_server ph' = phase_server ph" and "phase_registered ph' = phase_registered ph"
  shows "registry_ok (put_client c l ph' y)"
  by (rule registry_okI [OF assms(1)]) (use assms in \<open>auto simp: client_server_def client_registered_def\<close>)

lemma registry_end: "registry_ok y \<Longrightarrow> registry_ok (end_client c l (y\<lparr>ty_closed := A\<rparr>))" "registry_ok y \<Longrightarrow> registry_ok (end_client c l y)"
  by (auto simp: registry_ok_def)

lemma registry_register:
  assumes ok: "registry_ok y" and sok: "servers_ok y" and c: "ty_clients y c = Some (l, C_created srv)" and s: "owned y \<subseteq> Collect strong"
  shows "registry_ok (put_client c l (C_serving srv) (y\<lparr>ty_service := register_server strong srv (ty_service y)\<rparr>))"
proof -
  have own: "client_server y c = Some srv" using c by (simp add: client_server_def)
  have other: "d = c" if "client_server y d = Some srv" for d using sok own that unfolding servers_ok_def by blast
  have strong: "strong k" if "client_server y d = Some k" for d k using s that by (auto simp: owned_def ran_def)
  have "strong 0" if "ty_udp y \<noteq> U_done" using s that by (auto simp: owned_def udp_server_def)
  moreover have "srv \<in> ty_made y" using sok own by (auto simp: servers_ok_def owned_def ran_def)
  ultimately show ?thesis using ok other strong by (auto simp: registry_ok_def register_server_def)
qed

lemma registry_step: "turn_step y ls z \<Longrightarrow> loops_ok n y \<Longrightarrow> servers_ok y \<Longrightarrow> registry_ok y \<Longrightarrow> registry_ok z"
proof (induction rule: turn_step.induct)
  case (ty_register y c l srv strong)
  then show ?case by (intro registry_register)
next
  case (ty_accept y l a)
  then have "ty_clients y (ty_next y) = None" by (auto simp: loops_ok_def)
  then have "client_server (accept_client l y) = client_server y \<and> client_registered (accept_client l y) = client_registered y"
    by (auto simp: accept_client_def client_server_def client_registered_def fun_eq_iff split: option.split)
  with ty_accept show ?case by (auto simp: registry_ok_def)
next
  case (ty_created y c l settings)
  have "ty_next y \<notin> set (ts_servers (ty_service y))" using ty_created(4,5) by (auto simp: servers_ok_def registry_ok_def)
  with ty_created(5) show ?case by (auto simp: registry_ok_def)
qed (auto intro: registry_put registry_end elim: registry_okI)

section \<open>Closing the service\<close>

definition close_ok :: "turn_system \<Rightarrow> bool" where
  "close_ok y \<longleftrightarrow> ty_loops y L_tcp \<noteq> None \<and> (case ty_close y of
     K_idle \<Rightarrow> True
   | K_waiting ts \<Rightarrow> ts_shutdown (ty_service y) \<and> length ts \<le> 3 \<and> set ts \<subseteq> set (service_tasks y) \<and> (\<forall>t \<in> set (service_tasks y). t \<in> set ts \<or> task_ended y t)
   | K_returned \<Rightarrow> ts_shutdown (ty_service y) \<and> list_all (task_ended y) (service_tasks y))"

lemma turn_step_frame:
  "turn_step y ls z \<Longrightarrow> ts_config (ty_service z) = ts_config (ty_service y) \<and> service_tasks z = service_tasks y \<and>
     (ty_loops z l = None \<longleftrightarrow> ty_loops y l = None) \<and> (ts_shutdown (ty_service y) \<longrightarrow> ts_shutdown (ty_service z)) \<and>
     (task_ended y t \<longrightarrow> task_ended z t)"
  by (induction rule: turn_step.induct)
    (auto simp: service_tasks_def task_ended_def accept_client_def split: option.split turn_task.split)

lemma turn_step_close:
  "turn_step y ls z \<Longrightarrow> ty_close z = ty_close y \<or> ty_close y = K_idle \<and> ty_close z = K_waiting (service_tasks y) \<and> ts_shutdown (ty_service z) \<or>
     (\<exists>t ts. ty_close y = K_waiting (t # ts) \<and> ty_close z = K_waiting ts \<and> task_ended y t) \<or> ty_close y = K_waiting [] \<and> ty_close z = K_returned"
  by (induction rule: turn_step.induct) auto

lemma close_step:
  assumes st: "turn_step y ls z" and ok: "close_ok y"
  shows "close_ok z"
proof -
  note f = turn_step_frame [OF st]
  have tasks: "service_tasks z = service_tasks y" and ended: "\<And>t. task_ended y t \<Longrightarrow> task_ended z t"
    and loop: "ty_loops z L_tcp \<noteq> None" and sd: "ts_shutdown (ty_service y) \<Longrightarrow> ts_shutdown (ty_service z)"
    using f ok by (auto simp: close_ok_def)
  have "length (service_tasks y) \<le> 3" by (simp add: service_tasks_def)
  then show ?thesis
    using turn_step_close [OF st] ok tasks ended loop sd
    by (auto 0 4 simp: close_ok_def list_all_iff split: close_phase.splits)
qed

definition turn_inv :: "config \<Rightarrow> turn_system \<Rightarrow> bool" where
  "turn_inv c y \<longleftrightarrow> loops_ok (2 * sc_max_connections (cf_server c)) y \<and> servers_ok y \<and> registry_ok y \<and> close_ok y"

lemma turn_init_inv: "turn_init c y \<Longrightarrow> turn_inv c y"
proof -
  assume "turn_init c y"
  then obtain env ts where ts: "turn_start env c = Inr ts" and y: "y = turn_system_new ts" by (auto simp: turn_init_def)
  note s = turn_start_Inr [OF ts]
  have "loops_ok (2 * sc_max_connections (cf_server c)) y"
    using accept_start_inv [of ts] s by (auto simp: y turn_system_new_def loops_ok_def loop_clients_def clients_of_def accept_start_def)
  moreover have "servers_ok y" "registry_ok y"
    using s by (auto simp: y turn_system_new_def servers_ok_def registry_ok_def owned_def udp_server_def client_server_def ran_def)
  ultimately show ?thesis by (simp add: turn_inv_def close_ok_def y turn_system_new_def)
qed

lemma turn_inv_step: "turn_step y ls z \<Longrightarrow> turn_inv c y \<Longrightarrow> turn_inv c z"
  by (auto simp: turn_inv_def intro: loops_step servers_step registry_step close_step)

interpretation turn_tasks: invariant_system "turn_init c" "\<lambda>y z. \<exists>ls. turn_step y ls z" "turn_inv c" for c
  by unfold_locales (auto intro: turn_init_inv turn_inv_step)

abbreviation turn_reachable :: "config \<Rightarrow> turn_system \<Rightarrow> bool" where
  "turn_reachable c \<equiv> reachable (turn_init c) (\<lambda>y z. \<exists>ls. turn_step y ls z)"

lemma turn_reach: "turn_reachable c y \<Longrightarrow> turn_step y ls z \<Longrightarrow> turn_reachable c z"
  by (rule reachable_step [where s = y]) auto

lemma turn_reach_run: "traced turn_step y ls z \<Longrightarrow> turn_reachable c y \<Longrightarrow> turn_reachable c z"
  by (induction rule: traced.induct) (auto intro: turn_reach)

lemma ended_no_clients:
  assumes "turn_inv c y" and "list_all (task_ended y) (service_tasks y)"
  shows "ty_clients y = Map.empty \<and> ty_made y = ty_closed y"
proof -
  have none: "clients_of y l = {}" for l
  proof -
    have "ty_loops y l = None \<or> l \<in> ty_ended y"
      using assms(2) by (cases l) (auto simp: service_tasks_def task_ended_def split: if_splits)
    then have "loop_clients y l = []" using assms(1) by (auto simp: turn_inv_def loops_ok_def loop_clients_def)
    then show ?thesis using assms(1) by (auto simp: turn_inv_def loops_ok_def dest: spec [of _ l])
  qed
  have "ty_clients y c = None" for c
  proof (rule ccontr)
    assume "ty_clients y c \<noteq> None"
    then obtain l ph where "ty_clients y c = Some (l, ph)" by auto
    with none [of l] show False by (auto simp: clients_of_def)
  qed
  then have e: "ty_clients y = Map.empty" by (simp add: fun_eq_iff)
  have "owned y = {}"
    using e assms(2) by (auto simp: owned_def udp_server_def client_server_def ran_def service_tasks_def task_ended_def split: if_splits)
  with assms(1) e show ?thesis by (auto simp: turn_inv_def servers_ok_def)
qed

section \<open>The work that is left\<close>

primrec client_weight :: "client_phase \<Rightarrow> nat" where
  "client_weight C_accepted = 6"
| "client_weight C_handshake = 5"
| "client_weight C_connected = 4"
| "client_weight (C_created srv) = 3"
| "client_weight (C_serving srv) = 2"
| "client_weight (C_closing srv) = 1"

definition clients_weight :: "(nat \<rightharpoonup> listener \<times> client_phase) \<Rightarrow> nat" where
  "clients_weight m = (\<Sum>c \<in> dom m. client_weight (snd (the (m c))))"

definition stage_weight :: "bool \<Rightarrow> accept_state option \<Rightarrow> nat" where
  "stage_weight ended oa = (case oa of None \<Rightarrow> 0 | Some a \<Rightarrow> if ended then 0 else if ac_stopped a then 1 else 2)"

definition loop_weight :: "turn_system \<Rightarrow> listener \<Rightarrow> nat" where
  "loop_weight y l = stage_weight (l \<in> ty_ended y) (ty_loops y l)"

definition udp_weight :: "udp_phase \<Rightarrow> nat" where
  "udp_weight u = (case u of U_waiting \<Rightarrow> 2 | U_closing \<Rightarrow> 1 | U_done \<Rightarrow> 0)"

definition close_weight :: "close_phase \<Rightarrow> nat" where
  "close_weight k = (case k of K_idle \<Rightarrow> 0 | K_waiting ts \<Rightarrow> length ts + 1 | K_returned \<Rightarrow> 0)"

definition turn_rank :: "turn_system \<Rightarrow> nat" where
  "turn_rank y = clients_weight (ty_clients y) + loop_weight y L_tcp + loop_weight y L_tls + udp_weight (ty_udp y) + close_weight (ty_close y)"

definition is_work :: "turn_label \<Rightarrow> bool" where
  "is_work x \<longleftrightarrow> x = Y_work"

definition allowance :: "turn_label \<Rightarrow> nat" where
  "allowance x = (case x of Y_accept \<Rightarrow> 6 | Y_close \<Rightarrow> 4 | _ \<Rightarrow> 0)"

lemma clients_weight_remove:
  assumes "finite (dom m)" and "m c = Some (l, ph)"
  shows "clients_weight m = client_weight ph + clients_weight (m(c := None))"
proof -
  have "c \<in> dom m" using assms(2) by auto
  from sum.remove [OF assms(1) this, of "\<lambda>c. client_weight (snd (the (m c)))"] assms(2)
  have "clients_weight m = client_weight ph + (\<Sum>k \<in> dom m - {c}. client_weight (snd (the (m k))))"
    by (simp add: clients_weight_def)
  also have "(\<Sum>k \<in> dom m - {c}. client_weight (snd (the (m k)))) = clients_weight (m(c := None))"
    by (simp add: clients_weight_def)
  finally show ?thesis .
qed

lemma clients_weight_put:
  assumes "finite (dom m)" and "m c = Some (l, ph)"
  shows "clients_weight (m(c \<mapsto> (l, ph'))) + client_weight ph = clients_weight m + client_weight ph'"
  using clients_weight_remove [OF assms] clients_weight_remove [of "m(c \<mapsto> (l, ph'))" c l ph'] assms(1) by simp

lemma clients_weight_add: "finite (dom m) \<Longrightarrow> m c = None \<Longrightarrow> clients_weight (m(c \<mapsto> (l, ph))) = clients_weight m + client_weight ph"
  using clients_weight_remove [of "m(c \<mapsto> (l, ph))" c l ph] by (simp add: fun_upd_idem)

lemma turn_finite: "turn_inv c y \<Longrightarrow> finite (dom (ty_clients y))"
  by (rule finite_subset [of _ "{..<ty_next y}"]) (auto simp: turn_inv_def loops_ok_def)

lemma loop_weight_stopped: "loop_weight (put_loop l (Ev_client_done c) y) k = loop_weight y k"
  by (auto simp: loop_weight_def stage_weight_def accept_step_done split: option.split)

lemma loop_weight_same: "ty_loops z = ty_loops y \<Longrightarrow> ty_ended z = ty_ended y \<Longrightarrow> loop_weight z k = loop_weight y k"
  by (simp add: loop_weight_def)

lemma rank_put_client:
  assumes "turn_inv cf y" and "ty_clients y c = Some (l, ph)" and "client_weight ph' < client_weight ph"
    and "ty_clients z = ty_clients y" "ty_loops z = ty_loops y" "ty_ended z = ty_ended y" "ty_udp z = ty_udp y" "ty_close z = ty_close y"
  shows "Suc (turn_rank (put_client c l ph' z)) \<le> turn_rank y"
  using clients_weight_put [OF turn_finite [OF assms(1)] assms(2), of ph'] assms(3-)
    loop_weight_same [of "put_client c l ph' z" y] by (simp add: turn_rank_def)

lemma rank_end_client:
  assumes "turn_inv cf y" and "ty_clients y c = Some (l, ph)"
    and "ty_clients z = ty_clients y" "ty_loops z = ty_loops y" "ty_ended z = ty_ended y" "ty_udp z = ty_udp y" "ty_close z = ty_close y"
  shows "Suc (turn_rank (end_client c l z)) \<le> turn_rank y"
proof -
  have "loop_weight (end_client c l z) k = loop_weight y k" for k
    using loop_weight_stopped [of l c "z\<lparr>ty_clients := (ty_clients z)(c := None)\<rparr>" k] assms(4,5)
    by (simp add: end_client_def loop_weight_def)
  moreover have "0 < client_weight ph" by (cases ph) auto
  ultimately show ?thesis using clients_weight_remove [OF turn_finite [OF assms(1)] assms(2)] assms(3-) by (simp add: turn_rank_def)
qed

lemma rank_accept:
  assumes "turn_inv cf y" and "ty_loops y l = Some a" and "\<not> ac_stopped a"
  shows "turn_rank (accept_client l y) \<le> turn_rank y + 6"
proof (cases "try_acquire_owned (ac_slots a)")
  case (Some slots)
  have fresh: "ty_clients y (ty_next y) = None" using assms(1) by (auto simp: turn_inv_def loops_ok_def)
  have "ac_stopped (accept_step (Ev_accepted (ty_next y)) a) = ac_stopped a" using Some by (simp add: accept_step_def)
  then have "loop_weight (accept_client l y) k = loop_weight y k" for k
    using assms(2) Some by (auto simp: loop_weight_def stage_weight_def accept_client_def)
  moreover have "clients_weight (ty_clients (accept_client l y)) = clients_weight (ty_clients y) + 6"
    using clients_weight_add [OF turn_finite [OF assms(1)] fresh, of l C_accepted] assms(2) Some by (simp add: accept_client_def)
  ultimately show ?thesis by (simp add: turn_rank_def)
qed (use assms in \<open>simp add: accept_client_def\<close>)

lemma loop_weight_split: "loop_weight y L_tcp + loop_weight y L_tls = loop_weight y l + loop_weight y (if l = L_tcp then L_tls else L_tcp)"
  by (cases l) auto

lemma rank_loop_stop:
  assumes "ty_loops y l = Some a" and "\<not> ac_stopped a" and "l \<notin> ty_ended y" and "ev = Ev_shutdown \<or> ev = Ev_accept_error"
  shows "Suc (turn_rank (put_loop l ev y)) \<le> turn_rank y"
proof -
  have "loop_weight (put_loop l ev y) k = (if k = l then 1 else loop_weight y k)" "loop_weight y l = 2" for k
    using assms by (auto simp: loop_weight_def stage_weight_def)
  then show ?thesis
    using loop_weight_split [of y l] loop_weight_split [of "put_loop l ev y" l] by (simp add: turn_rank_def split: if_splits)
qed

lemma rank_loop_end:
  assumes "ty_loops y l = Some a" and "ac_stopped a" and "l \<notin> ty_ended y"
  shows "Suc (turn_rank (y\<lparr>ty_ended := insert l (ty_ended y)\<rparr>)) \<le> turn_rank y"
proof -
  let ?z = "y\<lparr>ty_ended := insert l (ty_ended y)\<rparr>"
  have "loop_weight ?z k = (if k = l then 0 else loop_weight y k)" "loop_weight y l = 1" for k
    using assms by (auto simp: loop_weight_def stage_weight_def split: option.split)
  then show ?thesis
    using loop_weight_split [of y l] loop_weight_split [of ?z l] by (simp add: turn_rank_def split: if_splits)
qed

lemma running_not_ended: "turn_inv cf y \<Longrightarrow> ty_loops y l = Some a \<Longrightarrow> \<not> ac_stopped a \<Longrightarrow> l \<notin> ty_ended y"
  by (auto simp: turn_inv_def loops_ok_def)

lemma work_cost: "length (filter is_work [Y_work]) + n \<le> m + sum_list (map allowance [Y_work]) \<longleftrightarrow> Suc n \<le> m"
  by (simp add: is_work_def allowance_def)

lemma turn_step_rank:
  "turn_step y ls z \<Longrightarrow> turn_inv cf y \<Longrightarrow> length (filter is_work ls) + turn_rank z \<le> turn_rank y + sum_list (map allowance ls)"
proof (induction rule: turn_step.induct)
  case (ty_accept y l a)
  then show ?case using rank_accept [of cf y l a] by (simp add: is_work_def allowance_def)
next
  case (ty_accept_error y l a)
  then show ?case using rank_loop_stop [of y l a Ev_accept_error] running_not_ended [of cf y l a] by (simp add: is_work_def allowance_def)
next
  case (ty_loop_stop y l a)
  then show ?case unfolding work_cost by (intro rank_loop_stop) (auto dest: running_not_ended)
next
  case (ty_loop_end y l a)
  then show ?case unfolding work_cost by (intro rank_loop_end)
next
  case (ty_close_call y)
  have "length (service_tasks y) \<le> 3" by (simp add: service_tasks_def)
  with ty_close_call show ?case
    by (simp add: is_work_def allowance_def turn_rank_def close_weight_def loop_weight_def)
qed ((simp only: work_cost, erule (1) rank_put_client rank_end_client; simp) |
     simp add: is_work_def allowance_def turn_rank_def udp_weight_def close_weight_def loop_weight_def)+

interpretation turn_work: ranked_system turn_step "turn_inv c" turn_rank is_work allowance for c
  by unfold_locales (auto intro: turn_inv_step turn_step_rank)

lemma turn_rank_bound:
  assumes "turn_inv c y"
  shows "turn_rank y \<le> 24 * sc_max_connections (cf_server c) + 6 + close_weight (ty_close y)"
proof -
  let ?n = "2 * sc_max_connections (cf_server c)"
  have loop: "card (clients_of y l) \<le> ?n" for l
  proof -
    have "length (loop_clients y l) \<le> ?n"
      using assms by (auto simp: turn_inv_def loops_ok_def loop_clients_def accept_inv_def split: option.split dest!: spec [of _ l])
    moreover have "clients_of y l = set (loop_clients y l)" using assms by (auto simp: turn_inv_def loops_ok_def)
    ultimately show ?thesis by (metis card_length le_trans)
  qed
  have "dom (ty_clients y) \<subseteq> clients_of y L_tcp \<union> clients_of y L_tls"
  proof
    fix c
    assume "c \<in> dom (ty_clients y)"
    then obtain l ph where "ty_clients y c = Some (l, ph)" by auto
    then show "c \<in> clients_of y L_tcp \<union> clients_of y L_tls" by (cases l) (auto simp: clients_of_def)
  qed
  moreover have "finite (clients_of y l)" for l
    by (rule finite_subset [OF _ turn_finite [OF assms]]) (auto simp: clients_of_def)
  ultimately have "card (dom (ty_clients y)) \<le> card (clients_of y L_tcp) + card (clients_of y L_tls)"
    by (meson card_Un_le card_mono finite_UnI le_trans)
  with loop [of L_tcp] loop [of L_tls] have "card (dom (ty_clients y)) \<le> 2 * ?n" by simp
  moreover have "client_weight ph \<le> 6" for ph by (cases ph) auto
  then have "clients_weight (ty_clients y) \<le> card (dom (ty_clients y)) * 6"
    unfolding clients_weight_def by (intro sum_bounded_above [THEN order_trans]) auto
  moreover have "loop_weight y l \<le> 2" for l by (auto simp: loop_weight_def stage_weight_def split: option.split)
  then have "loop_weight y L_tcp \<le> 2" "loop_weight y L_tls \<le> 2" by auto
  moreover have "udp_weight (ty_udp y) \<le> 2" by (simp add: udp_weight_def split: udp_phase.split)
  ultimately show ?thesis by (simp add: turn_rank_def)
qed

text \<open>A shut down service with nothing to do has ended all its tasks, and a call of \<open>close\<close> has returned.\<close>

lemma turn_idle_clients:
  assumes "ts_shutdown (ty_service y)" and "\<nexists>z. turn_step y [Y_work] z"
  shows "ty_clients y = Map.empty"
proof -
  have "ty_clients y c = None" for c
  proof (cases "ty_clients y c")
    case (Some p)
    obtain l ph where "p = (l, ph)" by fastforce
    with Some assms have False
      by (cases ph) (blast intro: ty_no_address ty_tls_failed ty_no_server ty_leave ty_server_closed ty_register [where strong = "\<lambda>_. True"])+
    then show ?thesis ..
  qed
  then show ?thesis by (simp add: fun_eq_iff)
qed

lemma turn_idle_loops:
  assumes "turn_inv c y" and "ts_shutdown (ty_service y)" and "\<nexists>z. turn_step y [Y_work] z" and "ty_loops y l = Some a"
  shows "l \<in> ty_ended y"
proof -
  have "clients_of y l = {}" using turn_idle_clients [OF assms(2,3)] by (simp add: clients_of_def)
  then have "ac_clients a = []" using assms(1,4) by (auto simp: turn_inv_def loops_ok_def loop_clients_def dest!: spec [of _ l])
  with assms(2-4) show ?thesis by (blast intro: ty_loop_stop ty_loop_end)
qed

lemma turn_idle:
  assumes inv: "turn_inv c y" and "ts_shutdown (ty_service y)" and idle: "\<nexists>z. turn_step y [Y_work] z"
  shows "list_all (task_ended y) (service_tasks y) \<and> (ty_close y = K_idle \<or> ty_close y = K_returned)"
proof -
  have "ty_udp y = U_done" using assms(2) idle by (cases "ty_udp y") (blast intro: ty_udp_notified ty_udp_closed)+
  moreover have "L_tcp \<in> ty_ended y"
    using inv turn_idle_loops [OF assms, of L_tcp] by (auto simp: turn_inv_def close_ok_def)
  moreover have "ty_loops y L_tls = None \<or> L_tls \<in> ty_ended y" using turn_idle_loops [OF assms, of L_tls] by (cases "ty_loops y L_tls") auto
  ultimately have all: "list_all (task_ended y) (service_tasks y)" by (auto simp: service_tasks_def task_ended_def)
  show ?thesis
  proof (cases "ty_close y")
    case (K_waiting ts)
    show ?thesis
    proof (cases ts)
      case Nil
      with K_waiting idle show ?thesis by (blast intro: ty_close_return)
    next
      case (Cons t ts')
      with K_waiting inv all have "task_ended y t" by (auto simp: turn_inv_def close_ok_def list_all_iff)
      with K_waiting Cons idle show ?thesis by (blast intro: ty_close_next)
    qed
  qed (use all in auto)
qed

section \<open>After the call of close\<close>

lemma close_called_step: "turn_step y ls z \<Longrightarrow> ty_close y \<noteq> K_idle \<Longrightarrow> ty_close z \<noteq> K_idle \<and> Y_close \<notin> set ls"
  by (induction rule: turn_step.induct) auto

lemma close_called_run: "traced turn_step y ls z \<Longrightarrow> ty_close y \<noteq> K_idle \<Longrightarrow> ty_close z \<noteq> K_idle \<and> Y_close \<notin> set ls"
  by (induction rule: traced.induct) (auto dest: close_called_step)

lemma allowance_accepts: "Y_close \<notin> set ls \<Longrightarrow> sum_list (map allowance ls) = 6 * count_list ls Y_accept"
  by (induction ls) (auto simp: allowance_def split: turn_label.split)

lemma quiet_step:
  "turn_step y ls z \<Longrightarrow> ty_clients y = Map.empty \<Longrightarrow> (\<And>l a. ty_loops y l = Some a \<Longrightarrow> ac_stopped a) \<Longrightarrow> ty_made z = ty_made y"
  by (induction rule: turn_step.induct) auto

lemma returned_step:
  assumes "turn_step y ls z" and "turn_inv c y" and "ty_close y = K_returned"
  shows "ty_close z = K_returned \<and> ty_made z = ty_made y"
proof -
  have all: "list_all (task_ended y) (service_tasks y)" using assms(2,3) by (simp add: turn_inv_def close_ok_def)
  note none = ended_no_clients [OF assms(2) all]
  have "ac_stopped a" if "ty_loops y l = Some a" for l a
  proof -
    have "l \<in> ty_ended y" using all that by (cases l) (auto simp: service_tasks_def task_ended_def)
    with that assms(2) show ?thesis by (auto simp: turn_inv_def loops_ok_def)
  qed
  with none quiet_step [OF assms(1)] have "ty_made z = ty_made y" by blast
  then show ?thesis using turn_step_close [OF assms(1)] assms(3) by auto
qed

lemma returned_run:
  assumes "traced turn_step y ls z" and "turn_inv c y" and "ty_close y = K_returned"
  shows "ty_close z = K_returned \<and> ty_made z = ty_made y"
proof -
  have "turn_inv c z \<and> ty_close z = K_returned \<and> ty_made z = ty_made y"
    using assms by (induction rule: traced.induct) (auto dest: returned_step intro: turn_inv_step)
  then show ?thesis by simp
qed

text \<open>A stream that arrives, is served and hangs up; used by the closed examples.\<close>

definition demo_turn_system :: turn_system where
  "demo_turn_system = turn_system_new demo_turn_service"

lemma demo_turn_init: "turn_init demo_turn_config demo_turn_system"
  using demo_turn_start by (auto simp: turn_init_def demo_turn_system_def)

lemma demo_turn_reachable: "turn_reachable demo_turn_config demo_turn_system"
  by (rule reachable_init) (rule demo_turn_init)

lemma turn_keyed_step: "turn_step y ls z \<Longrightarrow> keyed (ts_credentials (ty_service y)) \<Longrightarrow> keyed (ts_credentials (ty_service z))"
  by (induction rule: turn_step.induct)
    (auto simp: register_server_def turn_close_def turn_ice_config_def turn_revoke_def case_prod_unfold Let_def intro: issue_keyed revoke_keyed)

interpretation turn_keyed: invariant_system "turn_init c" "\<lambda>y z. \<exists>ls. turn_step y ls z" "\<lambda>y. keyed (ts_credentials (ty_service y))" for c
  by unfold_locales
    (auto simp: turn_init_def turn_system_new_def keyed_def credentials_new_def dest: turn_start_Inr turn_keyed_step)

text \<open>The example goes on: the stream is served, a session gets a credential; and the service is closed.\<close>

definition demo_created :: turn_system where
  "demo_created =
     (let y1 = put_client 1 L_tcp C_connected (accept_client L_tcp demo_turn_system);
          y2 = put_client 1 L_tcp (C_created 2) (y1\<lparr>ty_made := insert 2 (ty_made y1), ty_next := 3\<rparr>)
      in y2\<lparr>ty_service := snd (turn_ice_config demo_key demo_draw [] 10 ''alice'' (ty_service y2))\<rparr>)"

definition demo_serving :: turn_system where
  "demo_serving = put_client 1 L_tcp (C_serving 2) (demo_created\<lparr>ty_service := register_server (\<lambda>_. True) 2 (ty_service demo_created)\<rparr>)"

definition demo_closing :: turn_system where
  "demo_closing = demo_turn_system\<lparr>ty_service := turn_close (ty_service demo_turn_system), ty_close := K_waiting (service_tasks demo_turn_system)\<rparr>"

definition demo_closed :: turn_system where
  "demo_closed = (put_loop L_tcp Ev_shutdown demo_closing)\<lparr>ty_ended := {L_tcp}, ty_udp := U_done, ty_closed := {0}, ty_close := K_returned\<rparr>"

lemma demo_accepted:
  "ty_clients (accept_client L_tcp demo_turn_system) = [1 \<mapsto> (L_tcp, C_accepted)]" "ty_next (accept_client L_tcp demo_turn_system) = 2"
  "ty_loops demo_turn_system L_tcp = Some (accept_start demo_turn_service)" "\<not> ac_stopped (accept_start demo_turn_service)"
  by (simp_all add: accept_client_def demo_turn_system_def turn_system_new_def accept_start_def demo_turn_service_def demo_turn_config_def
      sem_new_def try_acquire_owned_def)

lemma demo_created_reachable: "turn_reachable demo_turn_config demo_created"
proof -
  let ?y0 = "accept_client L_tcp demo_turn_system"
  let ?y1 = "put_client 1 L_tcp C_connected ?y0"
  let ?y2 = "put_client 1 L_tcp (C_created 2) (?y1\<lparr>ty_made := insert 2 (ty_made ?y1), ty_next := 3\<rparr>)"
  have n: "ty_next ?y1 = 2" by (simp add: demo_accepted)
  have "settings_for (ty_service ?y1) = Inr (projr (settings_for demo_turn_service))"
    by (simp add: demo_turn_system_def turn_system_new_def settings_for_def demo_turn_service_def demo_turn_config_def turn_config_default_def Let_def)
  from ty_created [OF _ this, of 1 L_tcp] n have s3: "turn_step ?y1 [Y_work] ?y2" by simp
  have s1: "turn_step demo_turn_system [Y_accept] ?y0" by (rule ty_accept [OF demo_accepted(3,4)])
  have s2: "turn_step ?y0 [Y_work] ?y1" by (rule ty_plain) (simp add: demo_accepted)
  have s4: "turn_step ?y2 [Y_outside] demo_created" unfolding demo_created_def Let_def by (rule ty_issue)
  show ?thesis by (rule turn_reach [OF turn_reach [OF turn_reach [OF turn_reach [OF demo_turn_reachable s1] s2] s3] s4])
qed

lemma demo_serving_reachable: "turn_reachable demo_turn_config demo_serving"
proof -
  have "turn_step demo_created [Y_work] demo_serving"
    unfolding demo_serving_def by (rule ty_register) (simp_all add: demo_created_def Let_def)
  then show ?thesis by (rule turn_reach [OF demo_created_reachable])
qed

lemma demo_closing_reachable: "turn_reachable demo_turn_config demo_closing"
  unfolding demo_closing_def
  by (rule turn_reach [OF demo_turn_reachable ty_close_call]) (simp add: demo_turn_system_def turn_system_new_def)

lemma demo_closing_fields:
  "ty_close demo_closing = K_waiting [K_udp, K_loop L_tcp]" "ts_shutdown (ty_service demo_closing)" "ty_udp demo_closing = U_waiting"
  "ty_loops demo_closing L_tcp = Some (accept_start demo_turn_service)" "ty_ended demo_closing = {}" "ty_closed demo_closing = {}"
  "ty_loops demo_closing L_tls = None"
  by (simp_all add: demo_closing_def demo_turn_system_def turn_system_new_def service_tasks_def has_tls_def demo_turn_service_def
      demo_turn_config_def turn_config_default_def)

lemma demo_close_run: "traced turn_step demo_closing (replicate 7 Y_work) demo_closed"
proof -
  define y1 where "y1 = put_loop L_tcp Ev_shutdown demo_closing"
  define y2 where "y2 = y1\<lparr>ty_ended := insert L_tcp (ty_ended y1)\<rparr>"
  define y3 where "y3 = y2\<lparr>ty_udp := U_closing\<rparr>"
  define y4 where "y4 = y3\<lparr>ty_udp := U_done, ty_closed := insert 0 (ty_closed y3)\<rparr>"
  define y5 where "y5 = y4\<lparr>ty_close := K_waiting [K_loop L_tcp]\<rparr>"
  define y6 where "y6 = y5\<lparr>ty_close := K_waiting []\<rparr>"
  note ys = y1_def y2_def y3_def y4_def y5_def y6_def
  have last: "demo_closed = y6\<lparr>ty_close := K_returned\<rparr>" by (simp add: ys demo_closed_def demo_closing_fields)
  have s1: "turn_step demo_closing [Y_work] y1"
    unfolding y1_def by (rule ty_loop_stop [OF demo_closing_fields(4) demo_accepted(4) demo_closing_fields(2)])
  have s2: "turn_step y1 [Y_work] y2"
    unfolding y2_def by (rule ty_loop_end [where a = "accept_step Ev_shutdown (accept_start demo_turn_service)"])
      (simp_all add: y1_def demo_closing_fields, simp add: accept_start_def)
  have s3: "turn_step y2 [Y_work] y3" unfolding y3_def by (rule ty_udp_notified) (simp_all add: ys demo_closing_fields)
  have s4: "turn_step y3 [Y_work] y4" unfolding y4_def by (rule ty_udp_closed) (simp add: ys)
  have s5: "turn_step y4 [Y_work] y5" unfolding y5_def by (rule ty_close_next [where t = K_udp]) (simp_all add: ys demo_closing_fields task_ended_def)
  have s6: "turn_step y5 [Y_work] y6" unfolding y6_def by (rule ty_close_next [where t = "K_loop L_tcp"]) (simp_all add: ys task_ended_def)
  have s7: "turn_step y6 [Y_work] demo_closed" unfolding last by (rule ty_close_return) (simp add: ys)
  from traced_snoc [OF traced_snoc [OF traced_snoc [OF traced_snoc [OF traced_snoc [OF traced_snoc [OF traced_single
    [of turn_step, OF s1] s2] s3] s4] s5] s6] s7]
  show ?thesis by (simp add: numeral_eq_Suc)
qed

section \<open>Properties of the running service\<close>

text \<open>
  C15. Closing the service completes: once \<open>close\<close> was called, the tasks together have no more than a number of steps to do that
  the configured connections bound, and six more for each stream that still slips in before its
  loop notices; when nothing is left to do, \<open>close\<close> has returned, no stream task is left and every server that was ever created is closed.
\<close>

theorem turn_shutdown_completes:
  assumes "turn_reachable c y" and "ty_close y \<noteq> K_idle" and "traced turn_step y ls z"
  shows "length (filter is_work ls) \<le> 24 * sc_max_connections (cf_server c) + 10 + 6 * count_list ls Y_accept \<and>
    ((\<nexists>w. turn_step z [Y_work] w) \<longrightarrow> ty_close z = K_returned \<and> ty_clients z = Map.empty \<and> ty_made z = ty_closed z)"
proof -
  have inv: "turn_inv c y" by (rule turn_tasks.reachable_inv [OF assms(1)])
  note run = turn_work.run_rank [OF assms(3) inv] and called = close_called_run [OF assms(3,2)]
  have "close_weight (ty_close y) \<le> 4" using inv assms(2) by (auto simp: turn_inv_def close_ok_def close_weight_def split: close_phase.splits)
  with run turn_rank_bound [OF inv] allowance_accepts [of ls] called
  have bound: "length (filter is_work ls) \<le> 24 * sc_max_connections (cf_server c) + 10 + 6 * count_list ls Y_accept" by simp
  have "ts_shutdown (ty_service z)" using run called by (auto simp: turn_inv_def close_ok_def split: close_phase.splits)
  with run called turn_idle [of c z] ended_no_clients [of c z] bound show ?thesis by auto
qed

theorem turn_shutdown_completes_witness:
  "ty_close demo_closed = K_returned \<and> ty_made demo_closed = ty_closed demo_closed \<and> 7 \<le> 24 * sc_max_connections (cf_server demo_turn_config) + 10"
proof -
  have "turn_rank demo_closed = 0"
    by (simp add: turn_rank_def clients_weight_def loop_weight_def stage_weight_def udp_weight_def close_weight_def demo_closed_def demo_closing_fields)
      (simp add: demo_closing_def demo_turn_system_def turn_system_new_def)
  moreover have "turn_inv demo_turn_config demo_closed"
    using turn_work.run_rank [OF demo_close_run turn_tasks.reachable_inv [OF demo_closing_reachable]] by simp
  ultimately have idle: "\<nexists>w. turn_step demo_closed [Y_work] w" 
    using turn_step_rank [of demo_closed "[Y_work]"] unfolding work_cost by (metis Suc_n_not_le_n le_0_eq not0_implies_Suc Suc_neq_Zero)
  from turn_shutdown_completes [OF demo_closing_reachable _ demo_close_run] idle show ?thesis
    by (simp add: demo_closing_fields is_work_def numeral_eq_Suc)
qed

text \<open>
  C20. \<open>close\<close> waits for everything: when it has returned, the UDP server and the accept tasks have ended, no stream is served any more,
  every server that was ever created is closed, and nothing that happens later creates another.
\<close>

theorem turn_close_waits:
  assumes "turn_reachable c y" and "ty_close y = K_returned" and "traced turn_step y ls z"
  shows "ty_udp z = U_done \<and> dom (ty_loops z) = ty_ended z \<and> ty_clients z = Map.empty \<and> ty_closed z = ty_made z \<and> ty_made z = ty_made y"
proof -
  have inv: "turn_inv c y" "turn_inv c z"
    using turn_tasks.reachable_inv [OF assms(1)] turn_tasks.reachable_inv [OF turn_reach_run [OF assms(3,1)]] by auto
  note later = returned_run [OF assms(3) inv(1) assms(2)]
  with inv(2) have all: "list_all (task_ended z) (service_tasks z)" by (simp add: turn_inv_def close_ok_def)
  have "l \<in> dom (ty_loops z) \<longleftrightarrow> l \<in> ty_ended z" for l
    using all inv(2) by (cases l) (auto simp: service_tasks_def task_ended_def turn_inv_def loops_ok_def split: if_splits)
  moreover have "ty_udp z = U_done" using all by (simp add: service_tasks_def task_ended_def)
  ultimately show ?thesis using ended_no_clients [OF inv(2) all] later by blast
qed

theorem turn_close_waits_witness:
  "dom (ty_loops demo_closed) = {L_tcp} \<and> ty_closed demo_closed = {0}"
proof -
  have "turn_reachable demo_turn_config demo_closed" by (rule turn_reach_run [OF demo_close_run demo_closing_reachable])
  from turn_close_waits [OF this _ traced_nil] show ?thesis by (simp add: demo_closed_def)
qed


definition demo_name :: string where
  "demo_name = dec 3610 @ '':u1''"

lemma demo_credentials:
  "ts_credentials (ty_service demo_created) =
     (credentials_new ''mumdota'' 3600)\<lparr>cs_entries := [demo_name \<mapsto> \<lparr>cr_session = ''alice'', cr_username = demo_name, cr_password = ''p1p2'',
        cr_key = demo_key demo_name ''mumdota'' ''p1p2'', cr_expires_at = 3610\<rparr>]\<rparr>"
  "ts_servers (ty_service demo_created) = [0]"
proof -
  have svc: "ty_service demo_created = snd (turn_ice_config demo_key demo_draw [] 10 ''alice'' demo_turn_service)"
    by (simp add: demo_created_def Let_def demo_turn_system_def turn_system_new_def)
  have ts: "ts_credentials demo_turn_service = credentials_new ''mumdota'' 3600" "ts_servers demo_turn_service = [0]"
    by (simp_all add: demo_turn_service_def)
  have new: "new_credential demo_key demo_draw (credentials_new ''mumdota'' 3600) ''alice'' 10 =
      \<lparr>cr_session = ''alice'', cr_username = demo_name, cr_password = ''p1p2'',
        cr_key = demo_key demo_name ''mumdota'' ''p1p2'', cr_expires_at = 3610\<rparr>"
    by (simp add: new_credential_def credentials_new_def demo_draw_def demo_name_def Let_def)
  show "ts_credentials (ty_service demo_created) =
     (credentials_new ''mumdota'' 3600)\<lparr>cs_entries := [demo_name \<mapsto> \<lparr>cr_session = ''alice'', cr_username = demo_name, cr_password = ''p1p2'',
        cr_key = demo_key demo_name ''mumdota'' ''p1p2'', cr_expires_at = 3610\<rparr>]\<rparr>"
    unfolding svc turn_ice_config_def ts case_prod_unfold Let_def issue_snd select_credential_def
    by (simp add: new) (simp add: credentials_new_def purge_expired_def)
  show "ts_servers (ty_service demo_created) = [0]" by (simp add: svc ts)
qed

lemma pair_missed: "{(u, srv) \<in> A. srv \<in> {0, 2}} = {x} \<times> {0} \<Longrightarrow> (x, 2 :: nat) \<notin> A"
proof
  assume eq: "{(u, srv) \<in> A. srv \<in> {0, 2}} = {x} \<times> {0}" and "(x, 2) \<in> A"
  from this(2) have "(x, 2) \<in> {(u, srv) \<in> A. srv \<in> {0, 2}}" by simp
  then show False unfolding eq by simp
qed

lemma pairs_reached: "{(u, srv) \<in> A. srv \<in> B} = X \<Longrightarrow> X \<subseteq> A"
  by auto


end
