(* ===== verification/Signalling_Path.thy ===== *)
theory Signalling_Path
  imports Session_Lifecycle
begin

text \<open>
  Signalling between the browser and the peer connection of its session: the callbacks of the WebRTC library and the events they queue
  (\<open>src/src/webrtc/mod.rs\<close>), the event task and the requests that make offers, apply answers and pass candidates on
  (\<open>src/src/session.rs\<close>), and what the browser is sent, in every interleaving.
\<close>

section \<open>What is said\<close>

definition offers_in :: "server_message list \<Rightarrow> signal list" where
  "offers_in msgs = concat (map (\<lambda>m. case m of SOffer d \<Rightarrow> [Sent_offer (od_sdp d)] | _ \<Rightarrow> []) msgs)"

definition is_offer :: "signal \<Rightarrow> bool" where
  "is_offer x = (case x of Sent_offer _ \<Rightarrow> True | Applied_answer _ \<Rightarrow> False)"

definition candidate_data :: "ice_candidate_init \<Rightarrow> ice_candidate_data" where
  "candidate_data c = \<lparr>id_candidate = ic_candidate c, id_sdp_mid = ic_sdp_mid c, id_sdp_mline_index = ic_sdp_mline_index c\<rparr>"

definition candidates_in :: "server_message list \<Rightarrow> ice_candidate_data list" where
  "candidates_in msgs = concat (map (\<lambda>m. case m of SIceCandidate d \<Rightarrow> [d] | _ \<Rightarrow> []) msgs)"

definition candidates_queued :: "webrtc_event list \<Rightarrow> ice_candidate_data list" where
  "candidates_queued evs = concat (map (\<lambda>ev. case ev of IceCandidateEvent c \<Rightarrow> [candidate_data c] | _ \<Rightarrow> []) evs)"

text \<open>The candidates the library found and can convert.\<close>

definition local_candidates :: "('c \<Rightarrow> ice_candidate_init result) \<Rightarrow> 'c peer_callback list \<Rightarrow> ice_candidate_data list" where
  "local_candidates candidate_json cbs =
     concat (map (\<lambda>cb. case cb of
       On_ice_candidate (Some c) \<Rightarrow> (case candidate_json c of Inr init \<Rightarrow> [candidate_data init] | Inl _ \<Rightarrow> [])
     | _ \<Rightarrow> []) cbs)"

section \<open>The path\<close>

record ('p, 'snd, 'c) signalling =
  sg_session :: "('p, 'snd) user_session"
  sg_callbacks :: "'c peer_callback list"
  sg_queue :: "webrtc_event list"
  sg_running :: bool
  sg_sent :: "server_message list"

definition tell :: "server_message list \<Rightarrow> ('p, 'snd) user_session \<Rightarrow> ('p, 'snd, 'c) signalling \<Rightarrow> ('p, 'snd, 'c) signalling" where
  "tell msgs s g = g\<lparr>sg_session := s, sg_sent := sg_sent g @ msgs\<rparr>"

text \<open>
  Requests of the browser, the two kinds of events, the other tasks of the session, its teardown and the end of the event
  task; the label holds the offers sent and the answers applied.
\<close>

inductive signalling_step ::
  "('p, 'snd) peer_ops \<Rightarrow> ('c \<Rightarrow> ice_candidate_init result) \<Rightarrow> ('p, 'snd, 'c) signalling \<Rightarrow> signal list \<Rightarrow> ('p, 'snd, 'c) signalling \<Rightarrow> bool"
  for ops :: "('p, 'snd) peer_ops" and candidate_json :: "'c \<Rightarrow> ice_candidate_init result" where
  sg_callback: "signalling_step ops candidate_json g []
    (g\<lparr>sg_callbacks := sg_callbacks g @ [cb], sg_queue := sg_queue g @ callback_events candidate_json cb\<rparr>)"
| sg_voice: "start_voice ops order restart (sg_session g) = (x, msgs, s') \<Longrightarrow> signalling_step ops candidate_json g (offers_in msgs) (tell msgs s' g)"
| sg_answer: "handle_answer ops sdp (sg_session g) = (x, msgs, s') \<Longrightarrow>
    signalling_step ops candidate_json g
      ((if answer_applied ops sdp (ur_webrtc (sg_session g)) then [Applied_answer sdp] else []) @ offers_in msgs) (tell msgs s' g)"
| sg_candidate: "session_add_ice_candidate ops d (sg_session g) = (x, s') \<Longrightarrow> signalling_step ops candidate_json g [] (tell [] s' g)"
| sg_command: "push_command cmd (sg_session g) = (x, s') \<Longrightarrow> signalling_step ops candidate_json g [] (tell [] s' g)"
| sg_webrtc: "sg_running g \<Longrightarrow> sg_queue g = ev # rest \<Longrightarrow> handle_webrtc_event ops display_state ev (sg_session g) = (msgs, s') \<Longrightarrow>
    signalling_step ops candidate_json g (offers_in msgs) (tell msgs s' (g\<lparr>sg_queue := rest\<rparr>))"
| sg_mumble: "sg_running g \<Longrightarrow> handle_mumble_event gen ops config conn_id env ev (sg_session g) turn et = (l, msgs, s', turn', et') \<Longrightarrow>
    signalling_step ops candidate_json g (offers_in msgs) (tell msgs s' (g\<lparr>sg_running := (l = Continue)\<rparr>))"
| sg_others: "session_step ops a (sg_session g) msgs s' \<Longrightarrow> a \<in> {By_setup_task, By_downlink, By_mumble} \<Longrightarrow>
    signalling_step ops candidate_json g (offers_in msgs) (tell msgs s' g)"
| sg_refresh: "refresh_ice gen env config conn_id turn (sg_session g) = (x, msgs, turn') \<Longrightarrow>
    signalling_step ops candidate_json g (offers_in msgs) (tell msgs (sg_session g) g)"
| sg_report: "signalling_step ops candidate_json g [] (tell [server_error code e] (sg_session g) g)"
| sg_teardown: "signalling_step ops candidate_json g [] (tell [] (shutdown_user_session ops (sg_session g)) g)"
| sg_stop: "signalling_step ops candidate_json g [] (g\<lparr>sg_running := False\<rparr>)"

text \<open>A session on a new peer connection, its event task about to enter its loop.\<close>

definition signalling_init :: "('p, 'snd) peer_ops \<Rightarrow> ('p, 'snd, 'c) signalling \<Rightarrow> bool" where
  "signalling_init ops g \<longleftrightarrow> (\<exists>w username et s. ws_fresh w \<and> signaling_state ops (ws_peer w) = Stable \<and>
     event_task_start (user_session_new w username) = Some (et, s) \<and>
     g = \<lparr>sg_session = s, sg_callbacks = [], sg_queue = [], sg_running = True, sg_sent = []\<rparr>)"

section \<open>Offers and answers\<close>

lemma offers_in_simps [simp]:
  "offers_in [] = []" "offers_in (xs @ ys) = offers_in xs @ offers_in ys" "offers_in [server_error c e] = []" "offers_in [voice_error e] = []"
  by (simp_all add: offers_in_def server_error_def voice_error_def)

lemma offers_are_offers [simp]: "filter is_offer (offers_in msgs) = offers_in msgs"
  by (induction msgs) (auto simp: offers_in_def is_offer_def split: server_message.splits)

lemma send_offer_signals: "offers_in (fst (snd (send_offer ow s))) = offer_signals (fst ow)"
  by (auto simp: send_offer_def offers_in_def offer_signals_def split: prod.split sum.split option.split)

text \<open>A change of the session that leaves the signalling state or closes the connection keeps the picture of what is outstanding.\<close>

definition steady :: "('p, 'snd) peer_ops \<Rightarrow> ('p, 'snd) webrtc_session \<Rightarrow> ('p, 'snd) webrtc_session \<Rightarrow> bool" where
  "steady ops w w' \<longleftrightarrow> signaling_state ops (ws_peer w') \<in> {signaling_state ops (ws_peer w), ClosedSignaling}"

lemma steady_refl [simp]: "steady ops w w"
  by (simp add: steady_def)

lemma steady_trans: "steady ops u v \<Longrightarrow> steady ops v w \<Longrightarrow> steady ops u w"
  by (auto simp: steady_def)

lemma steady_apply:
  "jsep ops \<Longrightarrow> (\<And>r. oper \<noteq> W_offer r) \<Longrightarrow> (\<And>sdp. oper \<noteq> W_answer sdp) \<Longrightarrow> steady ops w (ws_apply ops oper w)"
  unfolding steady_def by (rule ws_apply_signaling)

lemma signal_inv_steady: "signal_inv ops waiting w \<Longrightarrow> steady ops w w' \<Longrightarrow> signal_inv ops waiting w'"
  by (auto simp: signal_inv_def steady_def)

lemma add_speakers_steady:
  "jsep ops \<Longrightarrow> steady ops (w\<lparr>ws_speakers := t\<rparr>) (w\<lparr>ws_speakers := snd (add_speakers ops us t)\<rparr>)"
proof (induction us arbitrary: t)
  case (Cons u us)
  obtain x t' where a: "speakers_add ops u t = (x, t')" by fastforce
  have one: "steady ops (w\<lparr>ws_speakers := t\<rparr>) (w\<lparr>ws_speakers := t'\<rparr>)"
    using steady_apply [OF Cons.prems, of "W_add u" "w\<lparr>ws_speakers := t\<rparr>"] a by (simp add: ws_apply_def)
  with a Cons.IH [OF Cons.prems, of t'] show ?case by (cases x) (auto intro: steady_trans)
qed simp

lemma event_steady:
  assumes j: "jsep ops" and h: "handle_mumble_event gen ops config conn_id env ev s turn et = (l, msgs, s', turn', et')"
  shows "steady ops (ur_webrtc s) (ur_webrtc s') \<and> offers_in msgs = []"
proof -
  note add = steady_apply [OF j, of "W_add u" w for u w, simplified ws_apply_def, simplified]
  note remove = steady_apply [OF j, of "W_remove u" w for u w, simplified ws_apply_def, simplified]
  show ?thesis
  proof (cases ev)
    case (M_user_joined u)
    with h add [of "ur_webrtc s" "ui_session_id u"] show ?thesis
      by (auto simp: handle_mumble_event_def on_user_joined_def Let_def offers_in_def voice_error_def server_error_def split: prod.splits sum.splits if_splits)
  next
    case (M_user_left u)
    with h remove [of "ur_webrtc s" u] show ?thesis
      by (auto simp: handle_mumble_event_def on_user_left_def Let_def offers_in_def voice_error_def server_error_def split: prod.splits sum.splits)
  qed (use h in \<open>auto simp: handle_mumble_event_def on_connected_def login_session_def announce_login_def Let_def offers_in_def split: prod.splits if_splits\<close>)
qed

lemma others_steady:
  assumes j: "jsep ops" and "session_step ops a s msgs s'" and "a \<in> {By_setup_task, By_downlink, By_mumble}"
  shows "steady ops (ur_webrtc s) (ur_webrtc s') \<and> offers_in msgs = []"
  using assms(2,3)
proof (induction rule: session_step.induct)
  case (ss_setup crypt addr bind local_addr s msgs s')
  then show ?case
    by (auto simp: voice_setup_run_def voice_setup_def attach_voice_def split: if_splits option.splits sum.splits prod.splits)
next
  case (ss_downlink s d n1 n2)
  then show ?case using steady_apply [OF j, of "W_write d n1 n2" "ur_webrtc s"]
    by (auto simp: downlink_write_def ws_apply_def)
qed auto

definition negotiates :: "('p, 'snd) peer_ops \<Rightarrow> bool \<Rightarrow> signal list \<Rightarrow> ('p, 'snd) user_session \<Rightarrow> bool" where
  "negotiates ops waiting ls s \<longleftrightarrow> alternating waiting ls \<and> signal_inv ops (waiting_after waiting ls) (ur_webrtc s)"

lemma negotiates_steady:
  "signal_inv ops waiting (ur_webrtc s) \<Longrightarrow> steady ops (ur_webrtc s) (ur_webrtc s') \<Longrightarrow> negotiates ops waiting [] s'"
  by (auto simp: negotiates_def intro: signal_inv_steady)

lemma send_offer_negotiates:
  assumes "jsep ops" and "signal_inv ops waiting w"
  shows "negotiates ops waiting (offers_in (fst (snd (send_offer (offer ops r w) s)))) (snd (snd (send_offer (offer ops r w) s)))"
  using signal_step [OF assms, of "W_offer r"]
  by (simp add: negotiates_def send_offer_signals send_offer_session ws_signals_def ws_apply_def)

lemma answer_negotiates:
  assumes "jsep ops" and "signal_inv ops waiting (ur_webrtc s)" and "handle_answer ops sdp s = (x, msgs, s')"
  shows "negotiates ops waiting ((if answer_applied ops sdp (ur_webrtc s) then [Applied_answer sdp] else []) @ offers_in msgs) s'"
proof -
  have "msgs = fst (snd (send_offer (answer ops sdp (ur_webrtc s)) s))" "s' = snd (snd (send_offer (answer ops sdp (ur_webrtc s)) s))"
    using assms(3) by (simp_all add: handle_answer_def)
  with signal_step [OF assms(1,2), of "W_answer sdp"] show ?thesis
    by (simp add: negotiates_def send_offer_signals send_offer_session ws_signals_def ws_apply_def)
qed

lemma start_voice_negotiates:
  assumes j: "jsep ops" and inv: "signal_inv ops waiting (ur_webrtc s)" and v: "start_voice ops order restart s = (x, msgs, s')"
  shows "negotiates ops waiting (offers_in msgs) s'"
proof (cases "ur_session_id s = None \<or> ws_started (ur_webrtc s)")
  case True
  with v send_offer_negotiates [OF j inv, of restart s] inv show ?thesis by (auto simp: start_voice_def negotiates_def split: if_splits)
next
  case False
  obtain y t where a: "add_speakers ops order (ws_speakers (ur_webrtc s)) = (y, t)" by fastforce
  let ?w = "(ur_webrtc s)\<lparr>ws_speakers := t\<rparr>"
  have "steady ops (ur_webrtc s) ?w" using add_speakers_steady [OF j, where w = "ur_webrtc s" and t = "ws_speakers (ur_webrtc s)" and us = order] a by simp
  then have w: "signal_inv ops waiting ?w" by (rule signal_inv_steady [OF inv])
  then have "signal_inv ops waiting (?w\<lparr>ws_started := True\<rparr>)" by (simp add: signal_inv_def)
  from send_offer_negotiates [OF j this, of restart "s\<lparr>ur_webrtc := ?w\<lparr>ws_started := True\<rparr>, ur_voice_start := True\<rparr>"] w False a v show ?thesis
    by (cases y) (auto simp: start_voice_def Let_def negotiates_def)
qed

lemma webrtc_event_negotiates:
  assumes j: "jsep ops" and inv: "signal_inv ops waiting (ur_webrtc s)" and h: "handle_webrtc_event ops d ev s = (msgs, s')"
  shows "negotiates ops waiting (offers_in msgs) s'"
proof (cases ev)
  case NegotiationNeeded
  obtain x ms t where o: "send_offer (offer ops False (ur_webrtc s)) s = (x, ms, t)" by (metis prod_cases3)
  then have "ms = []" if "x = Inl e" for e using that by (auto simp: send_offer_def split: prod.splits sum.splits option.splits)
  with send_offer_negotiates [OF j inv, of False s] NegotiationNeeded o h show ?thesis
    by (cases x) (auto simp: handle_webrtc_event_def)
qed (use inv h in \<open>auto simp: handle_webrtc_event_def negotiates_def offers_in_def server_error_def\<close>)

lemma signalling_negotiates:
  assumes "signalling_step ops candidate_json g ls g'" and j: "jsep ops" and "signal_inv ops waiting (ur_webrtc (sg_session g))"
  shows "negotiates ops waiting ls (sg_session g')"
  using assms(1,3)
proof (induction rule: signalling_step.induct)
  case (sg_voice order restart g x msgs s')
  then show ?case by (simp add: tell_def start_voice_negotiates [OF j])
next
  case (sg_answer sdp g x msgs s')
  then show ?case using answer_negotiates [OF j sg_answer(2,1)] by (simp add: tell_def)
next
  case (sg_candidate d g x s')
  then show ?case
    using candidate_session [of ops d "sg_session g"] steady_apply [OF j, of "W_candidate (id_candidate d) (id_sdp_mid d) (id_sdp_mline_index d)" "ur_webrtc (sg_session g)"]
    by (intro negotiates_steady [of _ _ "sg_session g"]) (simp_all add: tell_def ws_apply_def)
next
  case (sg_command cmd g x s')
  then show ?case by (auto simp: tell_def negotiates_def push_command_def split: sum.splits)
next
  case (sg_webrtc g ev rest display_state msgs s')
  then show ?case by (simp add: tell_def webrtc_event_negotiates [OF j])
next
  case (sg_mumble g gen config conn_id env ev turn et l msgs s' turn' et')
  then show ?case using event_steady [OF j sg_mumble(2)] by (simp add: tell_def negotiates_steady)
next
  case (sg_others a g msgs s')
  then show ?case using others_steady [OF j sg_others(1,2)] by (simp add: tell_def negotiates_steady)
next
  case (sg_refresh gen env config conn_id turn g x msgs turn')
  then show ?case by (auto simp: tell_def negotiates_def refresh_ice_def offers_in_def split: if_splits prod.splits)
next
  case (sg_teardown g)
  have "steady ops (ur_webrtc (sg_session g)) (ur_webrtc (shutdown_user_session ops (sg_session g)))"
    using steady_apply [OF j, of W_close "ur_webrtc (sg_session g)"]
    by (cases "ur_slot (sg_session g)") (simp_all add: shutdown_fields ws_apply_def, simp add: shutdown_user_session_def)
  with sg_teardown show ?case by (simp add: tell_def negotiates_steady)
qed (simp_all add: tell_def negotiates_def)

section \<open>Candidates\<close>

lemma candidates_simps [simp]:
  "candidates_in [] = []" "candidates_in (xs @ ys) = candidates_in xs @ candidates_in ys" "candidates_in [server_error c e] = []"
  "candidates_queued (evs @ evs') = candidates_queued evs @ candidates_queued evs'" "candidates_queued [] = []"
  "local_candidates j (cbs @ cbs') = local_candidates j cbs @ local_candidates j cbs'"
  by (simp_all add: candidates_in_def server_error_def candidates_queued_def local_candidates_def)

lemma callback_candidates: "candidates_queued (callback_events candidate_json cb) = local_candidates candidate_json [cb]"
  by (simp add: callback_events_def candidates_queued_def local_candidates_def split: peer_callback.split option.split sum.split)

lemma send_offer_candidates: "candidates_in (fst (snd (send_offer ow s))) = []"
  by (auto simp: send_offer_def candidates_in_def split: prod.split sum.split option.split)

lemma start_voice_candidates: "candidates_in (fst (snd (start_voice ops order restart s))) = []"
  by (auto simp: start_voice_def Let_def send_offer_candidates split: prod.split sum.split)

lemma webrtc_event_candidates: "candidates_in (fst (handle_webrtc_event ops d ev s)) = candidates_queued [ev]"
proof (cases ev)
  case NegotiationNeeded
  with send_offer_candidates [of "offer ops False (ur_webrtc s)" s] show ?thesis
    by (auto simp: handle_webrtc_event_def candidates_queued_def voice_error_def split: prod.split sum.split)
qed (auto simp: handle_webrtc_event_def candidates_in_def candidates_queued_def candidate_data_def server_error_def)

lemma mumble_event_candidates:
  "handle_mumble_event gen ops config conn_id env ev s turn et = (l, msgs, s', turn', et') \<Longrightarrow> candidates_in msgs = []"
  by (cases ev) (auto simp: handle_mumble_event_def on_connected_def announce_login_def on_user_joined_def on_user_left_def Let_def
      candidates_in_def voice_error_def server_error_def split: if_splits prod.splits sum.splits)

lemma voice_setup_candidates: "candidates_in (fst (voice_setup k a b la s)) = []"
  by (auto simp: voice_setup_def attach_voice_def voice_error_def split: option.split sum.split prod.split)

lemma others_candidates:
  "session_step ops a s msgs s' \<Longrightarrow> a \<in> {By_setup_task, By_downlink, By_mumble} \<Longrightarrow> candidates_in msgs = []"
proof (induction rule: session_step.induct)
  case (ss_setup crypt addr bind local_addr s msgs s')
  then show ?case using voice_setup_candidates [of crypt addr bind local_addr "s\<lparr>ur_voice_start := False\<rparr>"]
    by (auto simp: voice_setup_run_def split: if_splits)
qed auto

definition signalling_inv :: "('c \<Rightarrow> ice_candidate_init result) \<Rightarrow> ('p, 'snd, 'c) signalling \<Rightarrow> bool" where
  "signalling_inv candidate_json g \<longleftrightarrow>
     candidates_in (sg_sent g) @ candidates_queued (sg_queue g) = local_candidates candidate_json (sg_callbacks g)"

lemma signalling_inv_tell:
  "signalling_inv candidate_json g \<Longrightarrow> candidates_in msgs = [] \<Longrightarrow> signalling_inv candidate_json (tell msgs s g)"
  by (simp add: signalling_inv_def tell_def)

lemma signalling_candidates:
  "signalling_step ops candidate_json g ls g' \<Longrightarrow> signalling_inv candidate_json g \<Longrightarrow> signalling_inv candidate_json g'"
proof (induction rule: signalling_step.induct)
  case (sg_callback g cb)
  then show ?case by (simp add: signalling_inv_def callback_candidates flip: append_assoc)
next
  case (sg_voice order restart g x msgs s')
  then show ?case using start_voice_candidates [of ops order restart "sg_session g"] by (intro signalling_inv_tell) simp_all
next
  case (sg_answer sdp g x msgs s')
  then show ?case using send_offer_candidates [of "answer ops sdp (ur_webrtc (sg_session g))" "sg_session g"]
    by (intro signalling_inv_tell) (simp_all add: handle_answer_def)
next
  case (sg_webrtc g ev rest display_state msgs s')
  have "candidates_queued (ev # rest) = candidates_queued [ev] @ candidates_queued rest" by (simp add: candidates_queued_def)
  with sg_webrtc webrtc_event_candidates [of ops display_state ev "sg_session g"] show ?case by (simp add: signalling_inv_def tell_def)
next
  case (sg_mumble g gen config conn_id env ev turn et l msgs s' turn' et')
  then show ?case using mumble_event_candidates [OF sg_mumble(2)] by (simp add: signalling_inv_def tell_def)
next
  case (sg_others a g msgs s')
  then show ?case using others_candidates [OF sg_others(1,2)] by (intro signalling_inv_tell)
next
  case (sg_refresh gen env config conn_id turn g x msgs turn')
  then show ?case by (intro signalling_inv_tell) (auto simp: refresh_ice_def candidates_in_def split: if_splits prod.splits)
qed (simp_all add: signalling_inv_def tell_def)

lemma signalling_sent: "signalling_step ops candidate_json g ls g' \<Longrightarrow> offers_in (sg_sent g') = offers_in (sg_sent g) @ filter is_offer ls"
proof (induction rule: signalling_step.induct)
  case (sg_answer sdp g x msgs s')
  then show ?case by (simp add: tell_def) (simp add: is_offer_def)
qed (simp_all add: tell_def)

section \<open>Runs\<close>

interpretation candidate_queue: trace_invariant "signalling_step ops candidate_json" "\<lambda>_. True" "signalling_inv candidate_json" for ops candidate_json
  by unfold_locales (rule signalling_candidates)

lemma signalling_run:
  assumes "traced (signalling_step ops candidate_json) g trace g'" and "jsep ops" and "signal_inv ops waiting (ur_webrtc (sg_session g))"
  shows "negotiates ops waiting trace (sg_session g') \<and> offers_in (sg_sent g') = offers_in (sg_sent g) @ filter is_offer trace"
  using assms
proof (induction rule: traced.induct)
  case (traced_snoc s ls t ls' u)
  then have "signal_inv ops (waiting_after waiting ls) (ur_webrtc (sg_session t))" by (simp add: negotiates_def)
  from signalling_negotiates [OF traced_snoc(2,4) this] signalling_sent [OF traced_snoc(2)] traced_snoc show ?case
    by (simp add: negotiates_def alternating_append waiting_append)
qed (simp add: negotiates_def)

lemma signalling_init_inv:
  assumes "signalling_init ops g"
  shows "signal_inv ops False (ur_webrtc (sg_session g)) \<and> signalling_inv candidate_json g \<and> sg_sent g = []"
  using assms by (auto simp: signalling_init_def signal_inv_def signalling_inv_def local_candidates_def event_task_start_def user_session_new_def)

text \<open>Voice is started after the login, the browser answers, and the library finds a candidate.\<close>

definition demo_signalling :: "(sim_peer, nat, string) signalling" where
  "demo_signalling = \<lparr>sg_session = (user_session_new (demo_session\<lparr>ws_speakers := speakers_new sim_peer_new, ws_started := False\<rparr>) ''alice'')\<lparr>ur_voice_setup_task := True\<rparr>,
     sg_callbacks = [], sg_queue = [], sg_running = True, sg_sent = []\<rparr>"

definition demo_candidate_json :: "string \<Rightarrow> ice_candidate_init result" where
  "demo_candidate_json c = Inr \<lparr>ic_candidate = c, ic_sdp_mid = None, ic_sdp_mline_index = None\<rparr>"

definition demo_logged :: "(sim_peer, nat, string) signalling" where
  "demo_logged = tell [fst (announce_login demo_key (ee_issue demo_env) demo_turn_config ''c'' 1 [] [] None)] (login_session 1 [] (sg_session demo_signalling)) demo_signalling"

definition demo_offered :: "(sim_peer, nat, string) signalling" where
  "demo_offered = (case start_voice sim_peer_ops [] False (sg_session demo_logged) of (x, msgs, s) \<Rightarrow> tell msgs s demo_logged)"

definition demo_answered :: "(sim_peer, nat, string) signalling" where
  "demo_answered = (case handle_answer sim_peer_ops ''a'' (sg_session demo_offered) of (x, msgs, s) \<Rightarrow> tell msgs s demo_offered)"

definition demo_found :: "(sim_peer, nat, string) signalling" where
  "demo_found = demo_answered\<lparr>sg_callbacks := sg_callbacks demo_answered @ [On_ice_candidate (Some ''host'')],
     sg_queue := sg_queue demo_answered @ callback_events demo_candidate_json (On_ice_candidate (Some ''host''))\<rparr>"

lemma demo_signalling_init: "signalling_init sim_peer_ops demo_signalling"
proof -
  let ?w = "demo_session\<lparr>ws_speakers := speakers_new sim_peer_new, ws_started := False\<rparr>"
  have "ws_fresh ?w" by (auto simp: ws_fresh_def webrtc_session_new_def demo_session_def)
  moreover have "signaling_state sim_peer_ops (ws_peer ?w) = Stable"
    by (simp add: ws_peer_def speakers_new_def sim_peer_ops_def sim_peer_new_def)
  moreover have "event_task_start (user_session_new ?w ''alice'') = Some (\<lparr>et_user_map = Map.empty, et_terminal = None\<rparr>, sg_session demo_signalling)"
    by (simp add: event_task_start_def user_session_new_def demo_signalling_def)
  ultimately show ?thesis unfolding signalling_init_def
    by (intro exI [of _ ?w] exI [of _ "''alice''"] exI [of _ "\<lparr>et_user_map = Map.empty, et_terminal = None\<rparr>"] exI [of _ "sg_session demo_signalling"])
      (simp add: demo_signalling_def)
qed

lemmas demo_signalling_defs = demo_logged_def demo_signalling_def login_session_def user_session_new_def tell_def demo_session_def
  start_voice_def send_offer_def offer_def with_peer_def ws_peer_def speakers_new_def sim_peer_ops_def sim_peer_new_def Let_def

lemma demo_offer: "start_voice sim_peer_ops [] False (sg_session demo_logged) = (Inr (), [SOffer \<lparr>od_sdp = ''offer''\<rparr>], sg_session demo_offered)"
  by (simp add: demo_offered_def demo_signalling_defs)

lemma demo_answer:
  "handle_answer sim_peer_ops ''a'' (sg_session demo_offered) = (Inr (), [], sg_session demo_answered)"
  "answer_applied sim_peer_ops ''a'' (ur_webrtc (sg_session demo_offered))"
  by (simp_all add: demo_answered_def demo_offered_def handle_answer_def answer_def answer_applied_def demo_signalling_defs)

lemma demo_offered_eq: "demo_offered = tell [SOffer \<lparr>od_sdp = ''offer''\<rparr>] (sg_session demo_offered) demo_logged"
  by (subst demo_offered_def) (simp add: demo_offer)

lemma demo_answered_eq: "demo_answered = tell [] (sg_session demo_answered) demo_offered"
  by (subst demo_answered_def) (simp add: demo_answer)

lemma demo_found_fields:
  "sg_sent demo_found = sg_sent demo_logged @ [SOffer \<lparr>od_sdp = ''offer''\<rparr>]" "sg_callbacks demo_found = [On_ice_candidate (Some ''host'')]"
  using arg_cong [OF demo_answered_eq, of sg_sent] arg_cong [OF demo_offered_eq, of sg_sent]
    arg_cong [OF demo_answered_eq, of sg_callbacks] arg_cong [OF demo_offered_eq, of sg_callbacks]
  by (simp_all add: demo_found_def tell_def) (simp add: demo_logged_def tell_def demo_signalling_def)

lemma demo_found_run: "traced (signalling_step sim_peer_ops demo_candidate_json) demo_signalling [Sent_offer ''offer'', Applied_answer ''a''] demo_found"
proof -
  let ?step = "signalling_step sim_peer_ops demo_candidate_json"
  obtain msg where m: "announce_login demo_key (ee_issue demo_env) demo_turn_config ''c'' 1 [] [] None = (msg, None)" "offers_in [msg] = []"
    by (simp add: announce_login_def session_ice_config_def offers_in_def split: prod.split)
  have "?step demo_signalling (offers_in [msg]) (tell [msg] (login_session 1 [] (sg_session demo_signalling)) (demo_signalling\<lparr>sg_running := (Continue = Continue)\<rparr>))"
    by (rule sg_mumble [where gen = demo_key and config = demo_turn_config and conn_id = "''c''" and env = demo_env and ev = "M_connected 1 [] []" and turn = None and turn' = None
          and et = "\<lparr>et_user_map = Map.empty, et_terminal = None\<rparr>" and et' = "\<lparr>et_user_map = Map.empty, et_terminal = None\<rparr>"])
      (simp_all add: handle_mumble_event_def on_connected_def m, simp_all add: m demo_signalling_def user_session_new_def insert_names_def)
  then have s1: "?step demo_signalling [] demo_logged" by (simp add: m demo_logged_def demo_signalling_def)
  have s2: "?step demo_logged [Sent_offer ''offer''] demo_offered"
    using sg_voice [OF demo_offer, of demo_candidate_json] demo_offered_eq by (simp add: offers_in_def)
  have s3: "?step demo_offered [Applied_answer ''a''] demo_answered"
    using sg_answer [OF demo_answer(1), of demo_candidate_json] demo_answer(2) demo_answered_eq by simp
  have s4: "?step demo_answered [] demo_found" unfolding demo_found_def by (rule sg_callback)
  note snoc = traced_snoc [where step = ?step]
  from snoc [OF snoc [OF snoc [OF traced_single [of ?step, OF s1] s2] s3] s4] show ?thesis by simp
qed

section \<open>Properties of the signalling\<close>

text \<open>
  C28. Browser and server agree on the signalling: in every run of a session on a peer connection that follows JSEP, whatever the browser, the
  library and the tasks of the session do, offers reach the browser only when every earlier one was
  answered, and an answer is applied only to the one offer that is outstanding. Of the candidates the library finds every one that can be converted
  goes to the browser once and in order: those not yet sent wait in the event queue.
\<close>

theorem signalling_agrees:
  assumes "jsep ops" and "signalling_init ops g0" and "traced (signalling_step ops candidate_json) g0 trace g"
  shows "alternating False trace \<and> offers_in (sg_sent g) = filter is_offer trace \<and>
    candidates_in (sg_sent g) @ candidates_queued (sg_queue g) = local_candidates candidate_json (sg_callbacks g)"
proof -
  note start = signalling_init_inv [OF assms(2), of candidate_json]
  have "signalling_inv candidate_json g" by (rule candidate_queue.run_inv [OF assms(3)]) (use start in \<open>auto simp: list_all_iff\<close>)
  with signalling_run [OF assms(3,1), of False] start show ?thesis by (simp add: negotiates_def signalling_inv_def)
qed

theorem signalling_agrees_witness:
  "offers_in (sg_sent demo_found) = [Sent_offer ''offer''] \<and>
   candidates_queued (sg_queue demo_found) = [\<lparr>id_candidate = ''host'', id_sdp_mid = None, id_sdp_mline_index = None\<rparr>]"
proof -
  have "candidates_in (sg_sent demo_found) = []"
    by (simp add: demo_found_fields) (simp add: demo_logged_def tell_def demo_signalling_def announce_login_def candidates_in_def split: prod.split)
  then show ?thesis using signalling_agrees [OF sim_jsep demo_signalling_init demo_found_run]
    by (simp add: demo_found_fields is_offer_def local_candidates_def demo_candidate_json_def candidate_data_def)
qed

end
