(* ===== verification/Command_Path.thy ===== *)
theory Command_Path
  imports Ws_Handler
begin

text \<open>
  From the browser to the Mumble server: the requests a WebSocket handler accepts
  (\<open>src/src/ws/handler.rs\<close>), the command queue of the session (\<open>src/src/session.rs\<close>) and the packets the connection
  task sends (\<open>src/src/mumble/client.rs\<close>, \<open>src/src/mumble/proto.rs\<close>), while the other tasks of the session run.
\<close>

section \<open>What a request asks for\<close>

definition requested :: "client_message \<Rightarrow> mumble_command list" where
  "requested msg = (case msg of
     ChatSend d \<Rightarrow> if length (csd_message d) \<le> 4096 then [C_send_chat (csd_channel_id d) (csd_message d)] else []
   | ChannelJoin d \<Rightarrow> [C_join_channel (cj_channel_id d)]
   | Mute d \<Rightarrow> [C_set_mute (md_muted d)]
   | Deafen d \<Rightarrow> [C_set_deaf (dd_deafened d)]
   | _ \<Rightarrow> [])"

definition requested_packets :: "client_message list \<Rightarrow> server_packet list" where
  "requested_packets msgs = command_packets (concat (map requested msgs))"

section \<open>The path\<close>

record ('p, 'snd) command_path =
  kp_manager :: "('p, 'snd) manager"
  kp_task :: mumble_task
  kp_asked :: "client_message list"

definition set_session :: "nat \<Rightarrow> ('p, 'snd) user_session \<Rightarrow> ('p, 'snd) command_path \<Rightarrow> ('p, 'snd) command_path" where
  "set_session r s k = k\<lparr>kp_manager := (kp_manager k)\<lparr>sm_heap := (sm_heap (kp_manager k))(r \<mapsto> s)\<rparr>\<rparr>"

text \<open>
  The handler of connection \<open>c\<close> works on its session \<open>r\<close>; the connection task takes the oldest command or handles another input,
  and drops its end of the queue when it stops; event task, voice setup and downlink change the
  session, and a disconnect or the end of the event task tears it down.
\<close>

definition is_command :: "task_input \<Rightarrow> bool" where
  "is_command i = (case i of In_command (Some _) _ \<Rightarrow> True | _ \<Rightarrow> False)"

inductive path_step :: "string \<Rightarrow> nat \<Rightarrow> ('p, 'snd) command_path \<Rightarrow> ('p, 'snd) command_path \<Rightarrow> bool" for c :: string and r :: nat where
  kp_request: "sm_sessions (kp_manager k) c = Some r \<Longrightarrow> msg \<noteq> Disconnect \<Longrightarrow>
    handle_client_message gen ops env c msg (kp_manager k) = (msgs, m') \<Longrightarrow>
    path_step c r k (k\<lparr>kp_manager := m', kp_asked := kp_asked k @ [msg]\<rparr>)"
| kp_take: "mt_running (kp_task k) \<Longrightarrow> sm_heap (kp_manager k) r = Some s \<Longrightarrow> ur_commands s = cmd # rest \<Longrightarrow>
    t' = mumble_task_step (In_command (Some cmd) sent) (kp_task k) \<Longrightarrow>
    path_step c r k (set_session r (s\<lparr>ur_commands := rest, ur_mumble_alive := mt_running t'\<rparr>) (k\<lparr>kp_task := t'\<rparr>))"
| kp_input: "mt_running (kp_task k) \<Longrightarrow> sm_heap (kp_manager k) r = Some s \<Longrightarrow> \<not> is_command i \<Longrightarrow>
    t' = mumble_task_step i (kp_task k) \<Longrightarrow>
    path_step c r k (set_session r (s\<lparr>ur_mumble_alive := mt_running t'\<rparr>) (k\<lparr>kp_task := t'\<rparr>))"
| kp_session: "sm_heap (kp_manager k) r = Some s \<Longrightarrow> session_step ops a s msgs s' \<Longrightarrow> a \<in> {By_event_task, By_setup_task, By_downlink} \<Longrightarrow>
    path_step c r k (set_session r s' k)"
| kp_teardown: "sm_heap (kp_manager k) r = Some s \<Longrightarrow> path_step c r k (set_session r (shutdown_user_session ops s) k)"
| kp_removed: "path_step c r k (k\<lparr>kp_manager := (kp_manager k)\<lparr>sm_sessions := (sm_sessions (kp_manager k))(c := None)\<rparr>\<rparr>)"

text \<open>A session just installed, its connection task past the login messages.\<close>

definition command_init :: "string \<Rightarrow> nat \<Rightarrow> ('p, 'snd) command_path \<Rightarrow> bool" where
  "command_init c r k \<longleftrightarrow> (\<exists>w username. sm_sessions (kp_manager k) c = Some r \<and> sm_heap (kp_manager k) r = Some (user_session_new w username) \<and>
     kp_task k = mumble_task_start (Inr ()) (Inr ()) username \<and> kp_asked k = [])"

section \<open>Operations and the queue\<close>

definition queue_of :: "('p, 'snd) user_session \<Rightarrow> mumble_command list \<times> bool" where
  "queue_of s = (ur_commands s, ur_mumble_alive s)"

lemma queue_updates [simp]:
  "queue_of (s\<lparr>ur_webrtc := w\<rparr>) = queue_of s" "queue_of (s\<lparr>ur_voice_start := b\<rparr>) = queue_of s" "queue_of (s\<lparr>ur_close_notify := b\<rparr>) = queue_of s"
  "queue_of (s\<lparr>ur_voice_setup_task := b\<rparr>) = queue_of s" "queue_of (s\<lparr>ur_known_speakers := A\<rparr>) = queue_of s"
  "queue_of (s\<lparr>ur_mumble_voice := v\<rparr>) = queue_of s" "queue_of (s\<lparr>ur_bridge := b'\<rparr>) = queue_of s" "queue_of (s\<lparr>ur_session_id := i\<rparr>) = queue_of s"
  by (simp_all add: queue_of_def)

lemma send_offer_queue: "queue_of (snd (snd (send_offer ow s))) = queue_of s"
  by (simp add: send_offer_session)

lemma start_voice_queue: "queue_of (snd (snd (start_voice ops order restart s))) = queue_of s"
  by (auto simp: start_voice_def Let_def send_offer_queue split: prod.split sum.split)

lemma mumble_event_queue:
  "handle_mumble_event gen ops config conn_id env ev s turn et = (l, msgs, s', turn', et') \<Longrightarrow> queue_of s' = queue_of s"
  by (cases ev) (auto simp: handle_mumble_event_def on_connected_def login_session_def on_user_joined_def on_user_left_def Let_def
      split: if_splits prod.splits option.splits)

lemma webrtc_event_queue: "queue_of (snd (handle_webrtc_event ops d ev s)) = queue_of s"
proof (cases ev)
  case NegotiationNeeded
  with send_offer_queue [of "offer ops False (ur_webrtc s)" s] show ?thesis
    by (auto simp: handle_webrtc_event_def split: prod.split sum.split)
qed (auto simp: handle_webrtc_event_def)

lemma event_queue:
  assumes "event_handle gen ops d config conn_id inp s turn et = (l, msgs, s', turn', et')"
  shows "queue_of s' = queue_of s"
proof (cases inp)
  case (E_mumble env oev)
  with assms mumble_event_queue show ?thesis by (cases oev) (auto simp: event_handle_def)
next
  case (E_webrtc oev)
  show ?thesis
  proof (cases oev)
    case (Some ev)
    with assms E_webrtc webrtc_event_queue [of ops d ev s] show ?thesis by (auto simp: event_handle_def split: prod.splits)
  qed (use assms E_webrtc in \<open>simp add: event_handle_def\<close>)
qed (use assms in \<open>simp add: event_handle_def\<close>)

lemma voice_setup_queue: "queue_of (snd (voice_setup k a b la s)) = queue_of s"
  by (auto simp: voice_setup_def attach_voice_def split: option.split sum.split prod.split)

lemma session_step_queue:
  "session_step ops a s msgs s' \<Longrightarrow> a \<in> {By_event_task, By_setup_task, By_downlink} \<Longrightarrow> queue_of s' = queue_of s"
proof (induction rule: session_step.induct)
  case (ss_event gen display_state config conn_id inp s turn et l msgs s' turn' et')
  then show ?case by (blast intro: event_queue)
next
  case (ss_setup crypt addr bind local_addr s msgs s')
  then show ?case using voice_setup_queue [of crypt addr bind local_addr "s\<lparr>ur_voice_start := False\<rparr>"]
    by (auto simp: voice_setup_run_def split: if_splits)
qed (auto simp: event_task_start_def close_taken_def downlink_write_def split: if_splits)

lemma shutdown_queue:
  "queue_of (shutdown_user_session ops s) =
     (ur_commands s @ (if ur_slot s \<and> ur_mumble_alive s then [C_disconnect] else []), ur_mumble_alive s)"
  by (cases "ur_slot s"; cases "ur_mumble_alive s") (auto simp: queue_of_def shutdown_user_session_def push_command_def send_command_def abort_background_task_def Let_def)

lemma push_queue:
  "queue_of (snd (push_command cmd s)) = (ur_commands s @ (if ur_mumble_alive s then [cmd] else []), ur_mumble_alive s)"
  by (simp add: push_command_def send_command_def queue_of_def)

text \<open>One request, handled on a registered session: the commands it asks for join the queue while the connection task is there.\<close>

definition queue_after :: "client_message \<Rightarrow> ('p, 'snd) user_session \<Rightarrow> mumble_command list \<times> bool" where
  "queue_after msg s = (ur_commands s @ (if ur_mumble_alive s then requested msg else []), ur_mumble_alive s)"

lemma queue_after_cases:
  "queue_after msg s = (if requested msg = [] then queue_of s
     else (ur_commands s @ (if ur_mumble_alive s then requested msg else []), ur_mumble_alive s))"
  by (simp add: queue_after_def queue_of_def)

lemma on_session_heap:
  assumes "sm_sessions m c = Some r" and "sm_heap m r = Some s" and "report code (on_session c f m) = (msgs, m')"
  shows "\<exists>s'. sm_heap m' r = Some s' \<and> queue_of s' = queue_of (snd (snd (f s)))"
  using assms by (auto simp: on_session_def get_session_def report_def split: prod.splits sum.splits)

lemma quiet_push: "queue_of (snd (snd (quiet (push_command cmd) s))) = queue_of (snd (push_command cmd s))"
  by (simp add: quiet_def split: prod.split)

lemma ice_candidate_queue: "queue_of (snd (snd (quiet (session_add_ice_candidate ops d) s))) = queue_of s"
  by (auto simp: quiet_def session_add_ice_candidate_def split: prod.split)

lemmas requests_on_session = handle_client_message_def requested_def handle_answer_def send_offer_queue start_voice_queue
  ice_candidate_queue send_chat_def join_channel_def set_mute_def set_deaf_def quiet_push push_queue

lemma request_queue:
  assumes reg: "sm_sessions m c = Some r" and heap: "sm_heap m r = Some s" and msg: "msg \<noteq> Disconnect"
    and run: "handle_client_message gen ops env c msg m = (msgs, m')"
  shows "\<exists>s'. sm_heap m' r = Some s' \<and> queue_of s' = queue_after msg s"
proof -
  note lift = on_session_heap [OF reg heap]
  have same: ?thesis if "requested msg = []" "sm_heap m' = sm_heap m" using that heap by (auto simp: queue_after_cases)
  show ?thesis
  proof (cases msg)
    case (Connect data)
    with run reg have "sm_heap m' = sm_heap m" by (auto simp: handle_client_message_def connect_user_def connect_reserve_def split: if_splits)
    with same Connect show ?thesis by (simp add: requested_def)
  next
    case (Offer data)
    with run same show ?thesis by (simp add: handle_client_message_def requested_def)
  next
    case IceRefresh
    with run have "sm_heap m' = sm_heap m"
      by (auto simp: handle_client_message_def manager_refresh_ice_def report_def split: sum.splits option.splits prod.splits)
    with same IceRefresh show ?thesis by (simp add: requested_def)
  next
    case (ChatSend data)
    show ?thesis
    proof (cases "length (csd_message data) \<le> 4096")
      case True
      with ChatSend run show ?thesis by (auto simp: requests_on_session queue_after_cases dest!: lift)
    next
      case False
      with ChatSend run same show ?thesis by (simp add: handle_client_message_def requested_def)
    qed
  qed (use run msg in \<open>auto simp: requests_on_session queue_after_cases dest!: lift\<close>)
qed

section \<open>The order of the packets\<close>

lemma command_packets_append [simp]: "command_packets (xs @ ys) = command_packets xs @ command_packets ys"
  by (simp add: command_packets_def)

lemma command_packets_Nil [simp]: "command_packets [] = []"
  by (simp add: command_packets_def)

lemma command_packets_Cons: "command_packets (x # xs) = command_packets [x] @ command_packets xs"
  by (simp add: command_packets_def)

lemma command_packets_disconnect [simp]: "command_packets [C_disconnect] = []"
  by (simp add: command_packets_def)

lemma requested_packets_snoc [simp]: "requested_packets (msgs @ [msg]) = requested_packets msgs @ command_packets (requested msg)"
  by (simp add: requested_packets_def)

lemma other_input_sends:
  assumes "\<not> is_command i"
  shows "command_sends (mt_sends (mumble_task_step i t)) = command_sends (mt_sends t)"
proof (cases "mt_running t")
  case True
  show ?thesis
  proof (cases i)
    case (In_packet co uo p)
    with packet_step_commands [OF True, of co uo p] show ?thesis by simp
  next
    case (In_command cmd b)
    with assms show ?thesis by (cases cmd) (auto simp: is_command_def mumble_task_step_def)
  qed (use True in \<open>auto simp: mumble_task_step_def command_sends_def\<close>)
qed (simp add: mumble_task_step_def)

text \<open>
  The session stays on the heap, its sender sees the connection task's end of the queue, and while the task runs every packet
  asked for was sent or waits as a command.
\<close>

definition path_inv :: "nat \<Rightarrow> ('p, 'snd) command_path \<Rightarrow> bool" where
  "path_inv r k \<longleftrightarrow> (\<exists>s. sm_heap (kp_manager k) r = Some s \<and> ur_mumble_alive s = mt_running (kp_task k) \<and>
     (if mt_running (kp_task k)
      then command_sends (mt_sends (kp_task k)) @ command_packets (ur_commands s) = requested_packets (kp_asked k)
      else prefix (command_sends (mt_sends (kp_task k))) (requested_packets (kp_asked k))))"

lemma path_inv_same_queue:
  assumes "path_inv r k" "sm_heap (kp_manager k) r = Some s" "queue_of s' = queue_of s"
  shows "path_inv r (set_session r s' k)"
  using assms by (auto simp: path_inv_def set_session_def queue_of_def)

lemma path_step_inv: "path_step c r k k' \<Longrightarrow> path_inv r k \<Longrightarrow> path_inv r k'"
proof (induction rule: path_step.induct)
  case (kp_request k msg gen ops env msgs m')
  then obtain s where s: "sm_heap (kp_manager k) r = Some s" by (auto simp: path_inv_def)
  from request_queue [OF kp_request(1) s kp_request(2,3)] obtain s' where "sm_heap m' r = Some s'" "queue_of s' = queue_after msg s" by blast
  with kp_request(4) s show ?case by (auto simp: path_inv_def queue_after_def queue_of_def)
next
  case (kp_take k s cmd rest t' sent)
  then have alive: "ur_mumble_alive s"
    and all: "requested_packets (kp_asked k) = command_sends (mt_sends (kp_task k)) @ command_packets [cmd] @ command_packets rest"
    by (auto simp: path_inv_def command_packets_Cons [of cmd rest])
  with kp_take command_step [OF kp_take(1), of cmd sent] show ?case by (auto simp: path_inv_def set_session_def)
next
  case (kp_input k s i t')
  then have "requested_packets (kp_asked k) = command_sends (mt_sends (kp_task k)) @ command_packets (ur_commands s)"
    by (auto simp: path_inv_def)
  with kp_input other_input_sends [OF kp_input(3), of "kp_task k"] show ?case by (auto simp: path_inv_def set_session_def)
next
  case (kp_session k s ops a msgs s')
  then show ?case by (blast intro: path_inv_same_queue session_step_queue)
next
  case (kp_teardown k s ops)
  with shutdown_queue [of ops s] show ?case by (auto simp: path_inv_def set_session_def queue_of_def)
qed (auto simp: path_inv_def)

lemma path_init_inv: "command_init c r k \<Longrightarrow> path_inv r k"
  by (auto simp: command_init_def path_inv_def user_session_new_def mumble_task_start_def command_sends_def requested_packets_def)

interpretation control_path: invariant_system "command_init c r" "path_step c r" "path_inv r" for c r
  by unfold_locales (blast intro: path_init_inv path_step_inv)+

lemma path_inv_prefix: "path_inv r k \<Longrightarrow> prefix (command_sends (mt_sends (kp_task k))) (requested_packets (kp_asked k))"
  by (auto simp: path_inv_def intro: prefixI [OF sym] split: if_splits)

lemma path_drains:
  assumes "mt_running (kp_task k)" and "sm_heap (kp_manager k) r = Some s" and "C_disconnect \<notin> set (ur_commands s)"
  shows "\<exists>k'. (path_step c r)\<^sup>*\<^sup>* k k' \<and> kp_asked k' = kp_asked k \<and>
    command_sends (mt_sends (kp_task k')) = command_sends (mt_sends (kp_task k)) @ command_packets (ur_commands s)"
  using assms
proof (induction "ur_commands s" arbitrary: k s)
  case Nil
  then show ?case by auto
next
  case (Cons cmd rest)
  let ?t = "mumble_task_step (In_command (Some cmd) True) (kp_task k)"
  let ?s = "s\<lparr>ur_commands := rest, ur_mumble_alive := mt_running ?t\<rparr>"
  let ?k = "set_session r ?s (k\<lparr>kp_task := ?t\<rparr>)"
  have stp: "path_step c r k ?k" using Cons.prems(1,2) Cons.hyps(2) [symmetric] by (rule kp_take) (rule refl)
  have "cmd \<noteq> C_disconnect" using Cons.prems(3) Cons.hyps(2) [symmetric] by auto
  with command_step [OF Cons.prems(1), of cmd True] have run: "mt_running ?t"
    and sent: "command_sends (mt_sends ?t) = command_sends (mt_sends (kp_task k)) @ command_packets [cmd]" by auto
  have "\<exists>k'. (path_step c r)\<^sup>*\<^sup>* ?k k' \<and> kp_asked k' = kp_asked ?k \<and>
    command_sends (mt_sends (kp_task k')) = command_sends (mt_sends (kp_task ?k)) @ command_packets (ur_commands ?s)"
    by (rule Cons.hyps(1)) (use Cons.prems(3) Cons.hyps(2) [symmetric] run in \<open>simp_all add: set_session_def\<close>)
  then obtain k' where "(path_step c r)\<^sup>*\<^sup>* ?k k'" "kp_asked k' = kp_asked k"
    "command_sends (mt_sends (kp_task k')) = command_sends (mt_sends ?t) @ command_packets rest" by (auto simp: set_session_def)
  with stp sent Cons.hyps(2) [symmetric] show ?case
    by (intro exI [of _ k']) (simp add: converse_rtranclp_into_rtranclp command_packets_Cons [of cmd rest])
qed

section \<open>Properties of the control path\<close>

text \<open>
  C19. Requests reach the Mumble server: however the WebSocket handler, the connection task and the other tasks of the session interleave,
  and whenever the session is torn down, the chat messages, channel joins and mute and deafen changes the connection task writes are a prefix of
  those the browser asked for, in that order and none twice (a write counts as made when the stream then reports an error: the task only logs it). While the connection task runs, the ones missing are those still queued,
  and unless a disconnect is queued the task can write them all.
\<close>

theorem control_requests_reach_mumble:
  assumes "reachable (command_init c r) (path_step c r) k"
  shows "prefix (command_sends (mt_sends (kp_task k))) (requested_packets (kp_asked k)) \<and>
    (mt_running (kp_task k) \<longrightarrow> (\<exists>s. sm_heap (kp_manager k) r = Some s \<and>
       command_sends (mt_sends (kp_task k)) @ command_packets (ur_commands s) = requested_packets (kp_asked k) \<and>
       (C_disconnect \<notin> set (ur_commands s) \<longrightarrow> (\<exists>k'. (path_step c r)\<^sup>*\<^sup>* k k' \<and> kp_asked k' = kp_asked k \<and>
          command_sends (mt_sends (kp_task k')) = requested_packets (kp_asked k)))))"
proof (intro conjI impI)
  have inv: "path_inv r k" using assms by (rule control_path.reachable_inv)
  then show "prefix (command_sends (mt_sends (kp_task k))) (requested_packets (kp_asked k))" by (rule path_inv_prefix)
  assume run: "mt_running (kp_task k)"
  with inv obtain s where s: "sm_heap (kp_manager k) r = Some s"
    "command_sends (mt_sends (kp_task k)) @ command_packets (ur_commands s) = requested_packets (kp_asked k)" by (auto simp: path_inv_def)
  with path_drains [OF run s(1), of c] show "\<exists>s. sm_heap (kp_manager k) r = Some s \<and>
       command_sends (mt_sends (kp_task k)) @ command_packets (ur_commands s) = requested_packets (kp_asked k) \<and>
       (C_disconnect \<notin> set (ur_commands s) \<longrightarrow> (\<exists>k'. (path_step c r)\<^sup>*\<^sup>* k k' \<and> kp_asked k' = kp_asked k \<and>
          command_sends (mt_sends (kp_task k')) = requested_packets (kp_asked k)))" by (intro exI [of _ s]) auto
qed

text \<open>A channel join, handled by the session and sent by the connection task.\<close>

definition demo_control :: "(sim_peer, nat) command_path" where
  "demo_control = \<lparr>kp_manager = (manager_new demo_turn_config)\<lparr>sm_sessions := [''c'' \<mapsto> 0], sm_heap := [0 \<mapsto> demo_user]\<rparr>,
     kp_task = mumble_task_start (Inr ()) (Inr ()) ''alice'', kp_asked = []\<rparr>"

definition demo_join :: client_message where
  "demo_join = ChannelJoin \<lparr>cj_channel_id = 7\<rparr>"

definition demo_asked :: "(sim_peer, nat) command_path" where
  "demo_asked = demo_control\<lparr>kp_manager := snd (handle_client_message demo_key sim_peer_ops demo_handler_env ''c'' demo_join (kp_manager demo_control)), kp_asked := [demo_join]\<rparr>"

lemma demo_asked_reachable: "reachable (command_init ''c'' 0) (path_step ''c'' 0) demo_asked"
proof -
  have "reachable (command_init ''c'' 0) (path_step ''c'' 0) demo_control"
    by (rule reachable_init) (auto simp: command_init_def demo_control_def demo_user_def)
  moreover have "path_step ''c'' 0 demo_control (demo_control\<lparr>kp_manager := kp_manager demo_asked, kp_asked := kp_asked demo_control @ [demo_join]\<rparr>)"
    by (rule kp_request [where gen = demo_key and ops = sim_peer_ops and env = demo_handler_env])
      (auto simp: demo_control_def demo_join_def demo_asked_def intro: prod.collapse [symmetric])
  ultimately show ?thesis by (auto simp: demo_asked_def demo_control_def intro: reachable_step)
qed

theorem control_requests_reach_mumble_witness:
  "requested_packets (kp_asked demo_asked) \<noteq> [] \<and> mt_running (kp_task demo_asked) \<and>
   (\<exists>k'. (path_step ''c'' 0)\<^sup>*\<^sup>* demo_asked k' \<and> command_sends (mt_sends (kp_task k')) = requested_packets (kp_asked demo_asked))"
proof -
  have run: "mt_running (kp_task demo_asked)" by (simp add: demo_asked_def demo_control_def mumble_task_start_def)
  have heap: "ur_commands (the (sm_heap (kp_manager demo_asked) 0)) = [C_join_channel 7]"
    by (simp add: demo_asked_def demo_control_def demo_join_def handle_client_message_def on_session_def get_session_def quiet_def join_channel_def
        push_command_def send_command_def demo_user_def user_session_new_def report_def)
  from control_requests_reach_mumble [OF demo_asked_reachable] run heap
  show ?thesis by (auto simp: demo_asked_def requested_packets_def demo_join_def requested_def command_packets_def)
qed

end
