(* ===== verification/Spec2Isabelle.thy ===== *)
theory Spec2Isabelle
  imports Program Handler_System Terminal_Notice Browser_Path Audio_System Turn_System Signalling_Path Command_Path
begin

text \<open>
  MumDota bridges browsers to a Mumble server. A browser opens a WebSocket, logs in to Mumble through it, and
  exchanges audio with the bridge over WebRTC; a built-in TURN server relays that audio for browsers behind
  restrictive networks. This development models the Rust sources under \<open>src/src\<close>.

  \<^bold>\<open>Parts and how they interact.\<close> \<open>config.rs\<close> loads and validates the settings of every other part.
  \<open>server.rs\<close> accepts WebSockets and hands each to \<open>ws/handler.rs\<close>, which decodes messages
  (\<open>ws/messages.rs\<close>) and calls the session manager in \<open>session.rs\<close>. A session owns a Mumble control
  connection (\<open>mumble/client.rs\<close>, \<open>mumble/proto.rs\<close>), a voice socket (\<open>mumble/voice.rs\<close>), a peer
  connection (\<open>webrtc/mod.rs\<close>, \<open>webrtc/audio.rs\<close>) with a track per Mumble user
  (\<open>webrtc/speakers.rs\<close>), and the audio bridge between them (\<open>bridge.rs\<close>); an event task feeds Mumble
  and WebRTC events back to the browser. \<open>turn/\<close> is the TURN service: credentials per session,
  a relay confined to the media port, a stream transport, and the accept loops.

  \<^bold>\<open>Theories.\<close>
  \<^item> \<open>Prelude\<close>: machine integers, results, hash maps with an explicit iteration order, string functions
    of the Rust standard library. \<open>Net\<close>: addresses. \<open>F64\<close>: rounding of \<open>f64\<close>.
  \<^item> \<open>Interfaces\<close>: the contracts as locales. \<open>permit_pool\<close> (semaphore), \<open>bounded_channel\<close> (\<open>mpsc\<close> queue), \<open>invariant_system\<close> (inductive
    invariants of step relations) and its extension \<open>simulation\<close> (refinement of an abstract system), \<open>trace_invariant\<close>
    (invariants of the runs whose output is allowed), \<open>ranked_system\<close> (tasks that come to rest), \<open>framing\<close> (decoder inverts encoder on a stream),
    \<open>monotone_clock\<close>; \<open>Turn_Credentials\<close> adds \<open>credential_store\<close>. Each is interpreted on the model. The slot pool is the
    one specification of everything that admits connections.
  \<^item> \<open>Opus\<close>, \<open>Bridge\<close> (\<open>bridge.rs\<close>): header parsing against RFC 6716; the uplink clock reconstructs media
    time across wrap-around; its task offers strictly increasing, playable frames.
  \<^item> \<open>Media_Types\<close>, \<open>Speakers\<close>, \<open>Webrtc_Session\<close> (\<open>webrtc/\<close>): packet types; one RTP clock per speaker;
    offers, answers and candidates: requests made while an offer is outstanding are not lost.
  \<^item> \<open>Messages\<close>, \<open>Mumble_Client\<close>, \<open>Mumble_Voice\<close> (\<open>ws/messages.rs\<close>, \<open>mumble/\<close>): the control
    connection refines a replica rebuilt from its events; its command queue; crypt state; the voice task.
  \<^item> \<open>Audio_Path\<close>, \<open>Audio_System\<close>: both audio paths end to end, over the browser's tracks, the bridge, the speaker tracks and the voice socket; then all
    audio tasks of a session running together over the bounded channels between them.
  \<^item> \<open>Config\<close> (\<open>config.rs\<close>): placeholder grammar, overrides, validation.
  \<^item> \<open>Turn_Credentials\<close>, \<open>Turn_Relay\<close>, \<open>Turn_Stream\<close>, \<open>Turn_Service\<close> (\<open>turn/\<close>): bounded store and exact
    revocation, confinement of the relay, framing round trip, slots of the accept loop.
  \<^item> \<open>Turn_System\<close> (\<open>turn/mod.rs\<close>): the closer of the UDP server, the accept loops, the task of each stream, the registry of servers,
    \<open>ice_config\<close>, \<open>revoke\<close> and \<open>close\<close> in every interleaving. Each server has one owner and is registered while it serves, a revocation
    reaches every serving server, and \<open>close\<close> returns, after every task ended and every server was closed.
  \<^item> \<open>User_Session\<close>, \<open>Session_Lifecycle\<close>, \<open>Session_Manager\<close> (\<open>session.rs\<close>): the operations of one session and
    its event task; the session as a step relation, its well-formedness, its tracks and its end; the session map and slots under
    every interleaving, teardown, generations.
  \<^item> \<open>Ws_Handler\<close>, \<open>Http_Server\<close>, \<open>Program\<close> (\<open>ws/handler.rs\<close>, \<open>server.rs\<close>, \<open>main.rs\<close>): dispatch, receive loop, send task,
    cleanup; admission, readiness, start and stop; the program from its arguments to its exit.
  \<^item> \<open>Session_System\<close>: sessions, event tasks, handlers and TURN credentials together, every interleaving of their atomic parts. It
    refines the manager's step relation; tasks of closed sessions end, connections that are gone leave nothing, a system at rest is empty.
  \<^item> \<open>Handler_System\<close>: the handler as one function is a run of that system, so what holds of its reachable states holds with real
    handlers. \<open>Terminal_Notice\<close>: when a browser is told that its session ended, and what is released by then. \<open>Ws_Delivery\<close>: the outgoing
    channel and the send task of a WebSocket with heartbeats, failing sends and abort; order and completeness of what the browser receives.
  \<^item> \<open>Presence_Path\<close>: from the packets of the Mumble server to the picture of channels and users in the browser, with the event
    task any number of events behind the connection; \<open>Browser_Path\<close> adds the socket: what a browser has received is the picture of a past state.
    \<open>Signalling_Path\<close>: offers, answers and candidates between the browser and the
    peer connection, with the library's callbacks and the event queue. \<open>Command_Path\<close>: the other way, from the requests of the browser through the command queue
    to the packets written to the Mumble server.
  \<^item> This theory: properties of several parts at once.

  \<^bold>\<open>How code becomes definitions.\<close> A struct is a record, an enum a datatype, \<open>u8\<close> to \<open>u64\<close> are words where
    arithmetic on them matters, a \<open>HashMap\<close> is a partial function whose iteration order is an argument, \<open>Result\<close>
    is a sum with the error on the left. Code held under a lock or between two awaits is one step. A
    task's \<open>select!\<close> loop is a step function on its locals and an input datatype with one constructor per
    branch; where it competes with other tasks it is a state machine whose phases end at the points where the code waits.
    Channel sends are output lists; a bounded \<open>try_send\<close> takes its outcome as an argument of
    the task's step, which \<open>Audio_System\<close> supplies from the queue.
    An \<open>Arc\<close> is a reference into a heap where identity matters.
    The shutdown check of \<open>connect_user\<close> and the reservation behind the map's read lock are one step: nothing else reads the flag, so
    a shutdown between the two is the same as one right after the reservation.

  \<^bold>\<open>What is a parameter.\<close> The WebRTC library (\<open>peer_ops\<close>, with its signalling behaviour as the named
    hypothesis \<open>jsep\<close>), the TURN library and its key derivation, its port-range allocator (\<open>allocates_in_range\<close>), sockets (\<open>conn_ops\<close>), TLS, DNS, time, UUIDs, the TOML and JSON
    code that derive macros generate. \<open>sim_peer_ops\<close>, \<open>queue_conn\<close> and \<open>first_port\<close> are concrete instances used by
    the closed examples.

  \<^bold>\<open>Loops and bounds.\<close> All loops are structural recursion on their inputs, except
    \<open>expand_env_vars\<close> (the remaining text shrinks) and \<open>relay_recv_from\<close>, which may wait for ever and
    is a partial function; \<open>relay_reply_path\<close> shows that it returns when a media packet arrives. \<open>strip_ws\<close> has the length of its text as
    fuel, and each round removes a character. An event task of a closed session has at most five
    steps left (\<open>task_rank\<close>). After a shutdown the tasks of the TURN service have at most six steps per
    stream and ten more left (\<open>turn_rank\<close>). Seconds since the epoch are natural numbers: the
    sums \<open>now + ttl\<close> stay below \<open>2 ^ 64\<close> for any real clock.

  \<^bold>\<open>Not modelled.\<close> Logging, the module files, the tests; the
    derived JSON and TOML encodings; the encryption and packet codecs of the Mumble and TURN crates; routing
    and CORS; the tasks that only drain RTCP reports.
\<close>

section \<open>Properties that span components\<close>

text \<open>
  C25. One specification for every admission: the session manager with all its tasks, the WebSocket
  upgrades and each TURN accept loop refine the same slot pool, of the configured number of slots (twice as many
  for a TURN listener), so none of them ever holds more than its limit.
\<close>

theorem admission_refines_pool:
  assumes "reachable (\<lambda>y. y = system_new c t) (sys_step ops) y"
    and "reachable (\<lambda>st. st = app_state_new c) ws_slot_step st"
    and "reachable (\<lambda>a. a = accept_start ts) (\<lambda>a b. \<exists>ev. b = accept_step ev a) a" and "ts_config ts = c"
  shows "(let n = sc_max_connections (cf_server c) in
      reachable (\<lambda>q. q = pool_empty) (pool_step n) (mgr_pool (sy_mgr y)) \<and>
      reachable (\<lambda>q. q = pool_empty) (pool_step n) (ws_pool st) \<and>
      reachable (\<lambda>q. q = pool_empty) (pool_step (2 * n)) (accept_pool a) \<and>
      pool_taken (mgr_pool (sy_mgr y)) \<le> n \<and> ap_open st \<le> n \<and> length (ac_clients a) \<le> 2 * n)"
proof -
  let ?n = "sc_max_connections (cf_server c)"
  have m: "reachable (\<lambda>q. q = pool_empty) (pool_step ?n) (mgr_pool (sy_mgr y))"
    by (rule session_slots.reachable_abs [OF session_system.reachable_abs [OF assms(1)]])
  have w: "reachable (\<lambda>q. q = pool_empty) (pool_step ?n) (ws_pool st)" by (rule websocket_slots.reachable_abs [OF assms(2)])
  have a: "reachable (\<lambda>q. q = pool_empty) (pool_step (2 * ?n)) (accept_pool a)"
    using accept_system.reachable_abs [OF assms(3)] assms(4) by simp
  show ?thesis
    using m w a slot_pool_spec.reachable_inv [OF m] slot_pool_spec.reachable_inv [OF w] slot_pool_spec.reachable_inv [OF a]
    by (simp add: pool_taken_def ws_pool_def accept_pool_def Let_def)
qed

theorem admission_refines_pool_witness:
  "pool_taken (mgr_pool (sy_mgr demo_torn)) \<le> 10"
proof -
  have "reachable (\<lambda>st. st = app_state_new demo_turn_config) ws_slot_step (app_state_new demo_turn_config)" by (rule reachable_init) simp
  moreover have "reachable (\<lambda>a. a = accept_start demo_turn_service) (\<lambda>a b. \<exists>ev. b = accept_step ev a) (accept_start demo_turn_service)"
    by (rule reachable_init) simp
  ultimately show ?thesis
    using admission_refines_pool [OF demo_torn_reachable]
    by (simp add: demo_turn_service_def Let_def) (simp add: demo_turn_config_def)
qed

text \<open>
  C26. Configuration, media engine and relay together. The address the media engine advertises to browsers is the only
  peer address accepted by a relay socket that a server of a started service allocates, and it is passed on to the media socket on the
  loopback interface. A relay address, when the library's allocator keeps to its range, carries the public address and a port of the configured
  relay range (the requested one, if any), which is never the media port; so no relay socket accepts another relay address, or its own, as a peer.
\<close>

theorem relay_reaches_advertised_media:
  assumes "turn_start env c = Inr ts" and "create_api codecs bind (cf_webrtc c) = Inr api"
    and "make_server strong new_server srv ts = (Inr st, ts')"
    and "allocates_in_range inner_allocate (ss_relay_address st) (ss_min_port st) (ss_max_port st)"
  shows "\<exists>ip. ma_nat_1to1 api = [ip] \<and> ma_socket api = Some (Sock4 UNSPECIFIED (wc_udp_port (cf_webrtc c))) \<and>
    (\<forall>v4 port inner r a g'. allocate_conn inner_allocate v4 port (relay_generator st inner) = (Inr (r, a), g') \<longrightarrow>
       (\<forall>peer. target r peer = (if peer = Sock4 ip (wc_udp_port (cf_webrtc c)) then Inr (Sock4 LOCALHOST (wc_udp_port (cf_webrtc c)))
          else Inl ''TURN may relay only to MumDota media'')) \<and>
       (\<exists>p. a = Sock4 ip p \<and> p \<in> relay_ports (cf_turn c) \<and> (port \<noteq> 0 \<longrightarrow> p = port)) \<and> isl (target r a))"
proof -
  have ok: "turn_ok c" and tc: "ts_config ts = c"
    using turn_start_Inr [OF assms(1)] by (auto simp: config_ok_def)
  then obtain ip where ip: "tc_public_ip (cf_turn c) = Some ip" "wc_public_ip (cf_webrtc c) = Some ip"
    "wc_udp_port (cf_webrtc c) \<notin> relay_ports (cf_turn c)" by (auto simp: turn_ok_def)
  have st: "ss_public_ip st = ip" "ss_media_port st = wc_udp_port (cf_webrtc c)" "ss_relay_address st = ip"
    "ss_min_port st = tc_relay_min_port (cf_turn c)" "ss_max_port st = tc_relay_max_port (cf_turn c)"
    using assms(3) tc ip by (auto simp: make_server_unfold split: sum.splits)
  have api: "ma_nat_1to1 api = [ip]" "ma_socket api = Some (Sock4 UNSPECIFIED (wc_udp_port (cf_webrtc c)))"
    using assms(2) ip by (auto simp: create_api_def split: sum.splits)
  have "(\<forall>peer. target r peer = (if peer = Sock4 ip (wc_udp_port (cf_webrtc c)) then Inr (Sock4 LOCALHOST (wc_udp_port (cf_webrtc c)))
          else Inl ''TURN may relay only to MumDota media'')) \<and>
       (\<exists>p. a = Sock4 ip p \<and> p \<in> relay_ports (cf_turn c) \<and> (port \<noteq> 0 \<longrightarrow> p = port)) \<and> isl (target r a)"
    if "allocate_conn inner_allocate v4 port (relay_generator st inner) = (Inr (r, a), g')" for v4 port inner r a g'
  proof -
    note g = allocate_conn_granted [OF that]
    then obtain i' where i': "inner_allocate True port inner = (Inr (mr_conn r, a), i')" by (auto simp: relay_generator_def)
    with assms(4) obtain p where p: "a = Sock4 ip p" "if port \<noteq> 0 then p = port else ss_min_port st \<le> p \<and> p \<le> ss_max_port st"
      unfolding allocates_in_range_def st(3) by blast
    have r: "mr_public_ip r = ip" "mr_media_port r = wc_udp_port (cf_webrtc c)" using g st by (simp_all add: relay_generator_def)
    have mem: "p \<in> relay_ports (cf_turn c)" using p(2) g st by (auto simp: relay_generator_def relay_ports_def split: if_splits)
    with ip(3) have "p \<noteq> wc_udp_port (cf_webrtc c)" by auto
    then have "isl (target r a)" using p(1) r by (simp add: target_def)
    moreover have "target r peer = (if peer = Sock4 ip (wc_udp_port (cf_webrtc c)) then Inr (Sock4 LOCALHOST (wc_udp_port (cf_webrtc c)))
        else Inl ''TURN may relay only to MumDota media'')" for peer
      using r by (cases peer) (auto simp: target_def)
    ultimately show ?thesis using p mem by auto
  qed
  with api show ?thesis by blast
qed

text \<open>An allocator that takes the requested port, or the first of its range.\<close>

definition first_port :: "bool \<Rightarrow> u16 \<Rightarrow> u16 \<Rightarrow> (unit \<times> socket_addr) result \<times> u16" where
  "first_port v4 port lo = (Inr ((), Sock4 0x01020304 (if port \<noteq> 0 then port else 49160)), lo)"

definition demo_settings :: server_settings where
  "demo_settings = \<lparr>ss_relay_address = 0x01020304, ss_address = LOCALHOST, ss_min_port = 49160, ss_max_port = 49999, ss_max_retries = 100,
      ss_public_ip = 0x01020304, ss_media_port = 50000, ss_realm = ''mumdota'', ss_channel_bind_timeout_secs = 600\<rparr>"

definition demo_relay_conn :: "unit media_relay_conn" where
  "demo_relay_conn = \<lparr>mr_conn = (), mr_public_ip = 0x01020304, mr_media_port = 50000\<rparr>"

theorem relay_reaches_advertised_media_witness:
  "isl (target demo_relay_conn (Sock4 0x01020304 49170)) \<and>
   49170 \<in> relay_ports (cf_turn demo_turn_config)"
proof -
  let ?api = "\<lparr>ma_udp4_only = True, ma_mdns = False, ma_include_loopback = False, ma_nat_1to1 = [0x01020304],
      ma_socket = Some (Sock4 UNSPECIFIED 50000)\<rparr>"
  have api: "create_api (Inr ()) (\<lambda>_. Inr ()) (cf_webrtc demo_turn_config) = Inr ?api"
    by (simp add: create_api_def demo_turn_config_def is_loopback_def drop_bit_eq_div)
  have ms: "make_server (\<lambda>_. True) (Inr ()) 1 demo_turn_service = (Inr demo_settings, demo_turn_service\<lparr>ts_servers := [0, 1]\<rparr>)"
    by (simp add: make_server_unfold demo_settings_def demo_turn_service_def demo_turn_config_def turn_config_default_def)
  have rng: "allocates_in_range first_port (ss_relay_address demo_settings) (ss_min_port demo_settings) (ss_max_port demo_settings)"
    by (simp add: allocates_in_range_def first_port_def demo_settings_def)
  have "allocate_conn first_port True 49170 (relay_generator demo_settings 0) =
      (Inr (demo_relay_conn, Sock4 0x01020304 49170), relay_generator demo_settings 0)"
    by (simp add: allocate_conn_def relay_generator_def first_port_def demo_settings_def demo_relay_conn_def)
  with relay_reaches_advertised_media [OF demo_turn_start api ms rng]
  have "isl (target demo_relay_conn (Sock4 0x01020304 49170)) \<and>
      (\<exists>ip p. Sock4 0x01020304 49170 = Sock4 ip p \<and> p \<in> relay_ports (cf_turn demo_turn_config))" by blast
  then show ?thesis by simp
qed

end
